(* ===== verification/Prelude.thy ===== *)
theory Prelude
  imports Main "HOL-Library.Word"
begin

text \<open>
  The vocabulary the components share.

  Strings. A JavaScript string is a sequence of UTF-16 code units; here it is a HOL
  \<open>string\<close>, whose characters are the code units below 256. On those the operations below
  (lower-casing, trimming, splitting, searching) compute what \<open>String.prototype\<close> computes:
  in particular \<open>js_lower\<close> also maps the upper-case letters of the upper half (192 to 222,
  215 excepted) and \<open>js_trim\<close> also strips the no-break space 160.

  Numbers. \<open>js_Number\<close> is the conversion \<open>Number(string)\<close> of the language, with its exact
  decimal value in place of the nearest double.

  Maps. \<open>Map\<close> iterates in insertion order and the stores of the program rely on it (the
  oldest entry is evicted first), so a \<open>Map\<close> is an association list with distinct keys in
  that order: \<open>jm_get\<close>, \<open>jm_set\<close>, \<open>jm_del\<close>, and \<open>evict_oldest\<close> for the loop that drops the
  first key while the map is over its cap. A \<open>Set\<close> is a distinct list in the same way.

  Interfaces. \<open>recency_store\<close> is the contract of every store that re-inserts on each touch
  and evicts past a cap; \<open>event_machine\<close> lifts a one-step invariant to runs of any length.
\<close>

named_theorems js_str \<open>rewriting of the string operations\<close>
named_theorems js_map \<open>rewriting of the insertion-ordered maps\<close>

type_synonym ('k, 'v) jsmap = "('k \<times> 'v) list"
type_synonym millis = int

section \<open>Characters and strings\<close>

definition ws_char :: "char \<Rightarrow> bool" where
  "ws_char c \<longleftrightarrow> (let n = (of_char c :: nat) in (9 \<le> n \<and> n \<le> 13) \<or> n = 32 \<or> n = 160)"

definition upper_code :: "nat \<Rightarrow> bool" where
  "upper_code n \<longleftrightarrow> (65 \<le> n \<and> n \<le> 90) \<or> (192 \<le> n \<and> n \<le> 222 \<and> n \<noteq> 215)"

definition lower_char :: "char \<Rightarrow> char" where
  "lower_char c = (let n = (of_char c :: nat) in if upper_code n then char_of (n + 32) else c)"

definition is_digit :: "char \<Rightarrow> bool" where
  "is_digit c \<longleftrightarrow> (let n = (of_char c :: nat) in 48 \<le> n \<and> n \<le> 57)"

definition digit_val :: "char \<Rightarrow> nat" where
  "digit_val c = of_char c - 48"

definition js_lower :: "string \<Rightarrow> string" where
  "js_lower s = map lower_char s"

definition js_trim :: "string \<Rightarrow> string" where
  "js_trim s = rev (dropWhile ws_char (rev (dropWhile ws_char s)))"

text \<open>\<open>s.split(c)\<close> for a separator of one character: never empty, and the separators are gone.\<close>

fun split_on :: "'a \<Rightarrow> 'a list \<Rightarrow> 'a list list" where
  "split_on c [] = [[]]"
| "split_on c (x # xs) =
     (if x = c then [] # split_on c xs
      else (case split_on c xs of [] \<Rightarrow> [[x]] | y # ys \<Rightarrow> (x # y) # ys))"

fun last_index_of :: "'a \<Rightarrow> 'a list \<Rightarrow> nat option" where
  "last_index_of c [] = None"
| "last_index_of c (x # xs) =
     (case last_index_of c xs of
        Some i \<Rightarrow> Some (Suc i)
      | None \<Rightarrow> if x = c then Some 0 else None)"

fun index_of :: "'a \<Rightarrow> 'a list \<Rightarrow> nat option" where
  "index_of c [] = None"
| "index_of c (x # xs) = (if x = c then Some 0 else map_option Suc (index_of c xs))"

definition starts_with :: "'a list \<Rightarrow> 'a list \<Rightarrow> bool" where
  "starts_with p s \<longleftrightarrow> take (length p) s = p"

definition ends_with :: "'a list \<Rightarrow> 'a list \<Rightarrow> bool" where
  "ends_with q s \<longleftrightarrow> length q \<le> length s \<and> drop (length s - length q) s = q"

text \<open>\<open>s.includes(needle)\<close>: the needle starts at some position of the string.\<close>

fun includes_str :: "'a list \<Rightarrow> 'a list \<Rightarrow> bool" where
  "includes_str needle [] \<longleftrightarrow> needle = []"
| "includes_str needle (x # xs) \<longleftrightarrow> starts_with needle (x # xs) \<or> includes_str needle xs"

lemma of_char_less_256 [simp]: "(of_char c :: nat) < 256"
  by (metis of_char_of of_char_mod_256 mod_less_divisor zero_less_numeral)

lemma of_char_lower_char [js_str]:
  "(of_char (lower_char c) :: nat) = (if upper_code (of_char c) then of_char c + 32 else of_char c)"
  by (simp add: lower_char_def Let_def upper_code_def)

lemma char_eq_of_char: "c = d \<longleftrightarrow> (of_char c :: nat) = of_char d"
  by simp

lemma lower_char_idem [simp]: "lower_char (lower_char c) = lower_char c"
  unfolding char_eq_of_char of_char_lower_char by (simp add: upper_code_def)

lemma ws_lower_char [simp]: "ws_char (lower_char c) = ws_char c"
  unfolding ws_char_def of_char_lower_char Let_def by (simp add: upper_code_def)

lemma is_digit_lower_char [simp]: "is_digit (lower_char c) = is_digit c"
  unfolding is_digit_def of_char_lower_char Let_def by (simp add: upper_code_def)

lemma lower_char_digit [simp]: "is_digit c \<Longrightarrow> lower_char c = c"
  unfolding char_eq_of_char of_char_lower_char is_digit_def by (simp add: upper_code_def Let_def)

lemma digit_not_ws [simp]: "is_digit c \<Longrightarrow> \<not> ws_char c"
  unfolding is_digit_def ws_char_def Let_def by auto

text \<open>A character that is no upper-case letter and no lower-case image is only produced by itself.\<close>

lemma lower_char_eq_fixed:
  assumes "\<not> upper_code (of_char d)" and "\<not> upper_code (of_char d - 32)"
  shows "lower_char c = d \<longleftrightarrow> c = d"
proof
  assume "lower_char c = d"
  then have "(of_char d :: nat) = (if upper_code (of_char c) then of_char c + 32 else of_char c)"
    using of_char_lower_char [of c] by simp
  with assms show "c = d" unfolding char_eq_of_char by (simp split: if_splits)
next
  assume "c = d"
  with assms(1) show "lower_char c = d" by (simp add: lower_char_def Let_def)
qed

lemma lower_char_colon [simp]: "lower_char c = CHR '':'' \<longleftrightarrow> c = CHR '':''"
  by (rule lower_char_eq_fixed) (simp_all add: upper_code_def)

lemma lower_char_at [simp]: "lower_char c = CHR ''@'' \<longleftrightarrow> c = CHR ''@''"
  by (rule lower_char_eq_fixed) (simp_all add: upper_code_def)

lemma js_lower_idem [simp]: "js_lower (js_lower s) = js_lower s"
  by (simp add: js_lower_def)

lemma js_lower_append [simp]: "js_lower (s @ t) = js_lower s @ js_lower t"
  by (simp add: js_lower_def)

lemma js_lower_Nil [simp]: "js_lower [] = []"
  by (simp add: js_lower_def)

lemma js_lower_digits [simp]: "list_all is_digit s \<Longrightarrow> js_lower s = s"
  by (induction s) (auto simp: js_lower_def)

lemma hd_js_lower: "s \<noteq> [] \<Longrightarrow> hd (js_lower s) = lower_char (hd s)"
  by (cases s) (auto simp: js_lower_def)

lemma js_lower_eq_Nil [simp]: "js_lower s = [] \<longleftrightarrow> s = []"
  by (simp add: js_lower_def)

subsection \<open>Trimming\<close>

lemma js_trim_Nil [simp]: "js_trim [] = []"
  by (simp add: js_trim_def)

lemma dropWhile_id_iff: "dropWhile P xs = xs \<longleftrightarrow> xs = [] \<or> \<not> P (hd xs)"
proof (cases xs)
  case (Cons y ys)
  then show ?thesis using length_dropWhile_le [of P ys] by (auto dest: arg_cong [where f = length])
qed simp

lemma js_trim_id:
  assumes "s = [] \<or> (\<not> ws_char (hd s) \<and> \<not> ws_char (last s))"
  shows "js_trim s = s"
proof (cases "s = []")
  case False
  with assms have "dropWhile ws_char s = s" and "dropWhile ws_char (rev s) = rev s"
    by (auto simp: dropWhile_id_iff hd_rev)
  then show ?thesis by (simp add: js_trim_def)
qed simp

lemma hd_dropWhile_not: "dropWhile P xs \<noteq> [] \<Longrightarrow> \<not> P (hd (dropWhile P xs))"
  by (rule hd_dropWhile)

lemma rev_dropWhile_rev_prefix: "\<exists>ys. xs = rev (dropWhile P (rev xs)) @ ys"
  by (metis rev_append rev_rev_ident takeWhile_dropWhile_id)

lemma hd_js_trim: "js_trim s \<noteq> [] \<Longrightarrow> \<not> ws_char (hd (js_trim s))"
proof -
  assume ne: "js_trim s \<noteq> []"
  let ?d = "dropWhile ws_char s"
  obtain ys where ys: "?d = js_trim s @ ys"
    unfolding js_trim_def using rev_dropWhile_rev_prefix [of ?d ws_char] by blast
  with ne have "hd ?d = hd (js_trim s)" and "?d \<noteq> []" by auto
  then show ?thesis using hd_dropWhile [of ws_char s] by simp
qed

lemma last_js_trim: "js_trim s \<noteq> [] \<Longrightarrow> \<not> ws_char (last (js_trim s))"
  unfolding js_trim_def by (simp add: last_rev hd_dropWhile)

lemma js_trim_idem [simp]: "js_trim (js_trim s) = js_trim s"
  using hd_js_trim last_js_trim by (intro js_trim_id) blast

lemma js_trim_digits [simp]: "list_all is_digit s \<Longrightarrow> js_trim s = s"
  by (rule js_trim_id) (cases s rule: rev_cases, auto simp: hd_append list_all_iff split: if_splits)

subsection \<open>Splitting and searching\<close>

lemma split_on_not_Nil [simp]: "split_on c s \<noteq> []"
  by (induction s) (auto split: list.splits)

lemma hd_split_on: "hd (split_on c s) = takeWhile (\<lambda>x. x \<noteq> c) s"
proof (induction s)
  case (Cons x xs)
  then show ?case using split_on_not_Nil [of c xs] by (cases "split_on c xs") auto
qed simp

lemma split_on_absent: "c \<notin> set s \<Longrightarrow> split_on c s = [s]"
  by (induction s) auto

lemma split_on_append: "c \<notin> set s \<Longrightarrow> split_on c (s @ c # t) = s # split_on c t"
  by (induction s) auto

lemma last_index_of_None: "last_index_of c s = None \<longleftrightarrow> c \<notin> set s"
  by (induction s) (auto split: option.splits)

lemma last_index_of_append: "c \<notin> set t \<Longrightarrow> last_index_of c (s @ c # t) = Some (length s)"
  by (induction s) (auto simp: last_index_of_None split: option.splits)

lemma last_index_of_Some:
  assumes "last_index_of c s = Some i"
  shows "\<exists>u v. s = u @ c # v \<and> c \<notin> set v \<and> i = length u"
proof -
  from assms have "c \<in> set s" by (metis last_index_of_None option.distinct(1))
  then obtain u v where s: "s = u @ c # v" and v: "c \<notin> set v"
    by (metis split_list_last)
  with assms have "i = length u" by (simp add: last_index_of_append)
  with s v show ?thesis by blast
qed

lemma starts_with_append [simp]: "starts_with p (p @ s)"
  by (simp add: starts_with_def)

lemma starts_with_iff: "starts_with p s \<longleftrightarrow> (\<exists>t. s = p @ t)"
  by (metis append_take_drop_id starts_with_append starts_with_def)

lemma includes_str_iff: "includes_str needle s \<longleftrightarrow> (\<exists>u v. s = u @ needle @ v)"
proof (induction s)
  case (Cons x xs)
  then show ?case
    by (auto simp: starts_with_iff Cons_eq_append_conv)
qed simp

lemma ends_with_iff: "ends_with q s \<longleftrightarrow> (\<exists>t. s = t @ q)"
proof
  assume "ends_with q s"
  then show "\<exists>t. s = t @ q" unfolding ends_with_def by (metis append_take_drop_id)
qed (auto simp: ends_with_def)

text \<open>Two texts split at a separator that neither first part contains, or neither last part.\<close>

lemma split_first:
  assumes "a @ c # x = b @ c # y" and "c \<notin> set a" and "c \<notin> set b"
  shows "a = b \<and> x = y"
  using assms by (induction a arbitrary: b) (case_tac b, auto)+

lemma split_last:
  assumes "x @ c # a = y @ c # b" and "c \<notin> set a" and "c \<notin> set b"
  shows "x = y \<and> a = b"
proof -
  have "rev a @ c # rev x = rev b @ c # rev y" using arg_cong [OF assms(1), of rev] by simp
  then show ?thesis using split_first [of "rev a" c "rev x" "rev b" "rev y"] assms(2,3) by simp
qed

lemma split_first_iff: "c \<notin> set a \<Longrightarrow> c \<notin> set b \<Longrightarrow> a @ c # x = b @ c # y \<longleftrightarrow> a = b \<and> x = y"
  using split_first by metis

lemma split_last_iff: "c \<notin> set a \<Longrightarrow> c \<notin> set b \<Longrightarrow> x @ c # a = y @ c # b \<longleftrightarrow> x = y \<and> a = b"
  using split_last by metis

section \<open>Insertion-ordered maps and sets\<close>

definition jm_get :: "('k, 'v) jsmap \<Rightarrow> 'k \<Rightarrow> 'v option" where
  "jm_get m k = map_of m k"

definition jm_has :: "('k, 'v) jsmap \<Rightarrow> 'k \<Rightarrow> bool" where
  "jm_has m k \<longleftrightarrow> k \<in> fst ` set m"

text \<open>\<open>map.set\<close>: in place when the key is there, at the end otherwise.\<close>

fun jm_set :: "('k, 'v) jsmap \<Rightarrow> 'k \<Rightarrow> 'v \<Rightarrow> ('k, 'v) jsmap" where
  "jm_set [] k v = [(k, v)]"
| "jm_set ((a, b) # m) k v = (if a = k then (k, v) # m else (a, b) # jm_set m k v)"

definition jm_del :: "('k, 'v) jsmap \<Rightarrow> 'k \<Rightarrow> ('k, 'v) jsmap" where
  "jm_del m k = filter (\<lambda>e. fst e \<noteq> k) m"

text \<open>Deleting and setting again moves the key to the recent end.\<close>

definition jm_touch :: "('k, 'v) jsmap \<Rightarrow> 'k \<Rightarrow> 'v \<Rightarrow> ('k, 'v) jsmap" where
  "jm_touch m k v = jm_set (jm_del m k) k v"

text \<open>\<open>while (map.size > cap) map.delete(map.keys().next().value)\<close>.\<close>

fun evict_oldest :: "nat \<Rightarrow> 'e list \<Rightarrow> 'e list" where
  "evict_oldest cap [] = []"
| "evict_oldest cap (e # m) = (if length (e # m) > cap then evict_oldest cap m else e # m)"

text \<open>The same under a configurable cap, where 0 stands for no cap at all.\<close>

definition evict_over :: "nat \<Rightarrow> 'e list \<Rightarrow> 'e list" where
  "evict_over cap m = (if cap = 0 then m else evict_oldest cap m)"

definition js_insert :: "'a list \<Rightarrow> 'a \<Rightarrow> 'a list" where
  "js_insert xs x = (if x \<in> set xs then xs else xs @ [x])"

definition jm_wf :: "('k, 'v) jsmap \<Rightarrow> bool" where
  "jm_wf m \<longleftrightarrow> distinct (map fst m)"

lemma jm_get_Nil [simp]: "jm_get [] k = None"
  by (simp add: jm_get_def)

lemma jm_get_set [simp]: "jm_get (jm_set m k v) = (jm_get m)(k \<mapsto> v)"
  by (induction m k v rule: jm_set.induct) (auto simp: jm_get_def fun_eq_iff)

lemma jm_get_del [simp]: "jm_get (jm_del m k) = (jm_get m)(k := None)"
  by (induction m) (auto simp: jm_get_def jm_del_def fun_eq_iff)

lemma jm_get_touch [simp]: "jm_get (jm_touch m k v) = (jm_get m)(k \<mapsto> v)"
  by (simp add: jm_touch_def)

lemma jm_has_iff: "jm_has m k \<longleftrightarrow> jm_get m k \<noteq> None"
  by (simp add: jm_has_def jm_get_def map_of_eq_None_iff)

lemma keys_jm_set: "map fst (jm_set m k v) = (if k \<in> fst ` set m then map fst m else map fst m @ [k])"
  by (induction m k v rule: jm_set.induct) auto

lemma keys_set_jm_set: "fst ` set (jm_set m k v) = insert k (fst ` set m)"
  using arg_cong [OF keys_jm_set [of m k v], of set] by (auto split: if_splits)

lemma jm_set_absent: "k \<notin> fst ` set m \<Longrightarrow> jm_set m k v = m @ [(k, v)]"
  by (induction m k v rule: jm_set.induct) auto

lemma jm_touch_eq [js_map]: "jm_touch m k v = jm_del m k @ [(k, v)]"
  unfolding jm_touch_def by (rule jm_set_absent) (auto simp: jm_del_def)

lemma jm_wf_Nil [simp]: "jm_wf []"
  by (simp add: jm_wf_def)

lemma jm_wf_set [simp]: "jm_wf m \<Longrightarrow> jm_wf (jm_set m k v)"
  by (auto simp: jm_wf_def keys_jm_set)

lemma jm_wf_del [simp]: "jm_wf m \<Longrightarrow> jm_wf (jm_del m k)"
  by (simp add: jm_wf_def jm_del_def distinct_map_filter)

lemma jm_wf_touch [simp]: "jm_wf m \<Longrightarrow> jm_wf (jm_touch m k v)"
  by (simp add: jm_touch_def)

lemma evict_oldest_drop: "evict_oldest cap m = drop (length m - cap) m"
  by (induction cap m rule: evict_oldest.induct) (auto simp: Suc_diff_le)

lemma length_evict_oldest [simp]: "length (evict_oldest cap m) = min (length m) cap"
  by (simp add: evict_oldest_drop min_def)

lemma jm_wf_evict [simp]: "jm_wf m \<Longrightarrow> jm_wf (evict_oldest cap m)"
  by (simp add: jm_wf_def evict_oldest_drop flip: drop_map)

lemma evict_oldest_id [simp]: "length m \<le> cap \<Longrightarrow> evict_oldest cap m = m"
  by (simp add: evict_oldest_drop)

lemma set_evict_oldest: "set (evict_oldest cap m) \<subseteq> set m"
  by (simp add: evict_oldest_drop set_drop_subset)

lemma evict_oldest_snoc: "0 < cap \<Longrightarrow> evict_oldest cap (m @ [e]) = drop (Suc (length m) - cap) m @ [e]"
  by (simp add: evict_oldest_drop)

lemma jm_get_in_set: "jm_get m k = Some v \<Longrightarrow> (k, v) \<in> set m"
  by (simp add: jm_get_def map_of_SomeD)

lemma jm_get_iff_in_set: "jm_wf m \<Longrightarrow> jm_get m k = Some v \<longleftrightarrow> (k, v) \<in> set m"
  by (simp add: jm_get_def jm_wf_def)

lemma jm_get_evict_Some:
  assumes "jm_wf m" and "jm_get (evict_oldest cap m) k = Some v"
  shows "jm_get m k = Some v"
proof -
  from assms(2) have "(k, v) \<in> set (evict_oldest cap m)" by (rule jm_get_in_set)
  then have "(k, v) \<in> set m" by (rule subsetD [OF set_evict_oldest])
  with assms(1) show ?thesis by (simp add: jm_get_iff_in_set)
qed

lemma evict_over_drop: "\<exists>n. evict_over cap m = drop n m"
  by (cases "cap = 0") (auto simp: evict_over_def evict_oldest_drop intro: exI [of _ 0])

lemma length_evict_over: "0 < cap \<Longrightarrow> length (evict_over cap m) \<le> cap"
  by (simp add: evict_over_def)

lemma jm_wf_evict_over [simp]: "jm_wf m \<Longrightarrow> jm_wf (evict_over cap m)"
  by (simp add: evict_over_def)

lemma set_evict_over: "set (evict_over cap m) \<subseteq> set m"
  using evict_over_drop [of cap m] by (auto dest: in_set_dropD)

lemma evict_over_snoc: "\<exists>n \<le> length m. evict_over cap (m @ [e]) = drop n m @ [e]
    \<and> (if 0 < cap then n = Suc (length m) - cap else n = 0)"
  by (cases "cap = 0") (auto simp: evict_over_def evict_oldest_snoc intro: exI [of _ 0])

lemma length_jm_del: "length (jm_del m k) \<le> length m"
  by (simp add: jm_del_def)

lemma jm_wf_length: "jm_wf m \<Longrightarrow> length m = card (fst ` set m)"
  unfolding jm_wf_def using distinct_card [of "map fst m"] by simp

lemma keys_jm_touch [simp]: "fst ` set (jm_touch m k v) = insert k (fst ` set m)"
  by (force simp: jm_touch_eq jm_del_def)

lemma length_jm_touch_held: "jm_get m k \<noteq> None \<Longrightarrow> jm_wf m \<Longrightarrow> length (jm_touch m k v) = length m"
  by (simp add: jm_wf_length jm_get_def map_of_eq_None_iff insert_absorb)

lemma set_js_insert [simp]: "set (js_insert xs x) = insert x (set xs)"
  by (auto simp: js_insert_def)

lemma distinct_js_insert [simp]: "distinct xs \<Longrightarrow> distinct (js_insert xs x)"
  by (simp add: js_insert_def)

section \<open>Interfaces\<close>

text \<open>
  A store that re-inserts an entry whenever it is written and then evicts the oldest ones past
  its cap. The laws say what one write does to the ordered entries; the lemmas say what a client
  may rely on: the size stays within the cap, the entry just written is there, and an entry can
  only be pushed out by \<open>cap\<close> writes of other keys.
\<close>

locale recency_store =
  fixes entries :: "'s \<Rightarrow> ('k, 'v) jsmap"
    and cap :: "'s \<Rightarrow> nat"
    and put :: "'s \<Rightarrow> 'k \<Rightarrow> 'v \<Rightarrow> 's"
  assumes put_entries: "entries (put s k v) = evict_over (cap s) (jm_touch (entries s) k v)"
    and put_cap: "cap (put s k v) = cap s"
begin

fun put_all :: "'s \<Rightarrow> ('k \<times> 'v) list \<Rightarrow> 's" where
  "put_all s [] = s"
| "put_all s (e # es) = put_all (put s (fst e) (snd e)) es"

lemma put_bounded: "0 < cap s \<Longrightarrow> length (entries (put s k v)) \<le> cap s"
  by (simp add: put_entries length_evict_over)

lemma put_wf: "jm_wf (entries s) \<Longrightarrow> jm_wf (entries (put s k v))"
  by (simp add: put_entries)

lemma put_snoc:
  "\<exists>n. entries (put s k v) = drop n (jm_del (entries s) k) @ [(k, v)]
     \<and> (if 0 < cap s then n = Suc (length (jm_del (entries s) k)) - cap s else n = 0)"
  unfolding put_entries jm_touch_eq using evict_over_snoc [of "jm_del (entries s) k" "cap s"] by blast

lemma put_get: "jm_wf (entries s) \<Longrightarrow> jm_get (entries (put s k v)) k = Some v"
  using put_wf [of s k v] put_snoc [of s k v] by (auto simp: jm_get_iff_in_set)

text \<open>A suffix of the entries survives a write of another key, one shorter at most when full.\<close>

lemma put_keeps_suffix:
  assumes "entries s = old @ recent" and "k \<notin> fst ` set recent" and "cap s = 0 \<or> length recent < cap s"
  shows "\<exists>old'. entries (put s k v) = old' @ recent @ [(k, v)]"
proof -
  have "jm_del recent k = recent"
    using assms(2) by (force simp: jm_del_def filter_id_conv)
  then have del: "jm_del (entries s) k = jm_del old k @ recent"
    using assms(1) by (simp add: jm_del_def)
  obtain n where n: "entries (put s k v) = drop n (jm_del (entries s) k) @ [(k, v)]"
      "if 0 < cap s then n = Suc (length (jm_del (entries s) k)) - cap s else n = 0"
    using put_snoc by blast
  then have "n \<le> length (jm_del old k)" using del assms(3) by (auto split: if_splits)
  then show ?thesis using n(1) del by simp
qed

text \<open>The last \<open>cap\<close> distinct keys written are exactly the ones still stored, in order.\<close>

lemma put_all_recent:
  assumes "distinct (map fst es)" and "entries s = old @ recent" and "fst ` set es \<inter> fst ` set recent = {}"
    and "cap s = 0 \<or> length es + length recent \<le> cap s"
  shows "\<exists>old'. entries (put_all s es) = old' @ recent @ es"
  using assms
proof (induction es arbitrary: s old recent)
  case (Cons e es)
  then obtain old' where "entries (put s (fst e) (snd e)) = old' @ recent @ [e]"
    using put_keeps_suffix [of s old recent "fst e" "snd e"] by auto
  moreover have "fst ` set es \<inter> fst ` set (recent @ [e]) = {}" using Cons.prems(1,3) by auto
  ultimately show ?case
    using Cons.IH [of "put s (fst e) (snd e)" old' "recent @ [e]"] Cons.prems by (auto simp: put_cap)
qed auto

lemma put_all_cap: "cap (put_all s es) = cap s"
  by (induction es arbitrary: s) (simp_all add: put_cap)

lemma put_all_wf: "jm_wf (entries s) \<Longrightarrow> jm_wf (entries (put_all s es))"
  by (induction es arbitrary: s) (simp_all add: put_wf)

lemma put_all_get:
  assumes "jm_wf (entries s)" and "distinct (map fst es)" and "cap s = 0 \<or> length es \<le> cap s" and "(k, v) \<in> set es"
  shows "jm_get (entries (put_all s es)) k = Some v"
  using put_all_recent [of es s "entries s" "[]"] put_all_wf [OF assms(1), of es] assms
  by (auto simp: jm_get_iff_in_set)

end

text \<open>
  A component driven by events: one step keeps the invariant, so every run does.
\<close>

locale event_machine =
  fixes exec :: "'e \<Rightarrow> 's \<Rightarrow> 's" and inv :: "'s \<Rightarrow> bool"
  assumes exec_inv: "inv s \<Longrightarrow> inv (exec e s)"
begin

lemma run_inv: "inv s \<Longrightarrow> inv (fold exec es s)"
  by (induction es arbitrary: s) (auto intro: exec_inv)

end

end
