(* ===== verification/Js_Number.thy ===== *)
theory Js_Number
  imports Prelude
begin

text \<open>
  The conversions from strings to numbers the configuration and address code uses:
  \<open>Number(string)\<close>, \<open>parseInt(string, 10)\<close>, \<open>Number.isInteger\<close> and \<open>Math.floor\<close>.
  A finite number is \<open>Dec m e\<close>, the decimal \<open>m * 10 ^ e\<close>, kept exactly where the language
  rounds to the nearest double.
\<close>

datatype jsnum = NaN | Inf bool | Dec int int

definition digits_val :: "string \<Rightarrow> nat" where
  "digits_val s = foldl (\<lambda>a c. 10 * a + digit_val c) 0 s"

definition hex_digit :: "char \<Rightarrow> nat option" where
  "hex_digit c =
     (let n = of_char c :: nat in
      if 48 \<le> n \<and> n \<le> 57 then Some (n - 48)
      else if 97 \<le> n \<and> n \<le> 102 then Some (n - 87)
      else if 65 \<le> n \<and> n \<le> 70 then Some (n - 55) else None)"

text \<open>A non-empty run of digits below the radix.\<close>

fun radix_run :: "nat \<Rightarrow> nat \<Rightarrow> string \<Rightarrow> nat option" where
  "radix_run r a [] = Some a"
| "radix_run r a (c # cs) =
     (case hex_digit c of Some d \<Rightarrow> if d < r then radix_run r (r * a + d) cs else None | None \<Rightarrow> None)"

definition radix_literal :: "nat \<Rightarrow> string \<Rightarrow> jsnum" where
  "radix_literal r s =
     (if s = [] then NaN else case radix_run r 0 s of Some n \<Rightarrow> Dec (int n) 0 | None \<Rightarrow> NaN)"

fun strip_sign :: "string \<Rightarrow> bool \<times> string" where
  "strip_sign (c # cs) = (if c = CHR ''-'' then (True, cs) else if c = CHR ''+'' then (False, cs) else (False, c # cs))"
| "strip_sign [] = (False, [])"

definition with_sign :: "bool \<Rightarrow> nat \<Rightarrow> int" where
  "with_sign neg n = (if neg then - int n else int n)"

text \<open>The exponent part of a decimal literal: nothing, or \<open>e\<close> with an optional sign and digits.\<close>

definition exponent_part :: "string \<Rightarrow> int option" where
  "exponent_part s =
     (case s of [] \<Rightarrow> Some 0
      | c # cs \<Rightarrow>
          (case strip_sign cs of (neg, ds) \<Rightarrow>
             if (c = CHR ''e'' \<or> c = CHR ''E'') \<and> ds \<noteq> [] \<and> list_all is_digit ds
             then Some (with_sign neg (digits_val ds)) else None))"

definition fraction_part :: "string \<Rightarrow> string \<times> string" where
  "fraction_part s =
     (case s of c # cs \<Rightarrow> if c = CHR ''.'' then (takeWhile is_digit cs, dropWhile is_digit cs) else ([], s)
      | [] \<Rightarrow> ([], []))"

definition decimal_literal :: "string \<Rightarrow> jsnum" where
  "decimal_literal t =
     (case strip_sign t of (neg, u) \<Rightarrow>
        if u = ''Infinity'' then Inf neg
        else case fraction_part (dropWhile is_digit u) of (fp, rest) \<Rightarrow>
          let ip = takeWhile is_digit u in
          if ip = [] \<and> fp = [] then NaN
          else case exponent_part rest of
              None \<Rightarrow> NaN
            | Some e \<Rightarrow> Dec (with_sign neg (digits_val (ip @ fp))) (e - int (length fp)))"

definition js_Number :: "string \<Rightarrow> jsnum" where
  "js_Number s =
     (let t = js_trim s; p = js_lower (take 2 t) in
      if t = [] then Dec 0 0
      else if p = ''0x'' then radix_literal 16 (drop 2 t)
      else if p = ''0o'' then radix_literal 8 (drop 2 t)
      else if p = ''0b'' then radix_literal 2 (drop 2 t)
      else decimal_literal t)"

fun num_finite :: "jsnum \<Rightarrow> bool" where
  "num_finite (Dec m e) = True"
| "num_finite _ = False"

text \<open>Comparison with a whole number; \<open>NaN\<close> compares false with everything.\<close>

fun num_le :: "int \<Rightarrow> jsnum \<Rightarrow> bool" where
  "num_le k NaN = False"
| "num_le k (Inf neg) = (\<not> neg)"
| "num_le k (Dec m e) = (if 0 \<le> e then k \<le> m * 10 ^ nat e else k * 10 ^ nat (- e) \<le> m)"

fun num_ge :: "int \<Rightarrow> jsnum \<Rightarrow> bool" where
  "num_ge k NaN = False"
| "num_ge k (Inf neg) = neg"
| "num_ge k (Dec m e) = (if 0 \<le> e then m * 10 ^ nat e \<le> k else m \<le> k * 10 ^ nat (- e))"

fun num_floor :: "jsnum \<Rightarrow> int" where
  "num_floor (Dec m e) = (if 0 \<le> e then m * 10 ^ nat e else m div 10 ^ nat (- e))"
| "num_floor _ = 0"

fun num_is_integer :: "jsnum \<Rightarrow> bool" where
  "num_is_integer (Dec m e) = (0 \<le> e \<or> m mod 10 ^ nat (- e) = 0)"
| "num_is_integer _ = False"

text \<open>\<open>Number.parseInt(s, 10)\<close>: the longest digit prefix after white space and a sign.\<close>

definition parse_int :: "string \<Rightarrow> int option" where
  "parse_int s =
     (case strip_sign (dropWhile ws_char s) of (neg, u) \<Rightarrow>
        let ds = takeWhile is_digit u in
        if ds = [] then None else Some (with_sign neg (digits_val ds)))"

section \<open>Lemmas\<close>

lemma mult_le_iff_le_div: "0 < c \<Longrightarrow> k * c \<le> m \<longleftrightarrow> k \<le> m div c" for k c m :: int
proof
  assume "0 < c" and "k * c \<le> m"
  then show "k \<le> m div c" using zdiv_mono1 [of "k * c" m c] by simp
next
  assume "0 < c" and "k \<le> m div c"
  then have "k * c \<le> m div c * c" by (simp add: mult_right_mono)
  also have "\<dots> \<le> m" using \<open>0 < c\<close> by (simp add: minus_mod_eq_div_mult [symmetric])
  finally show "k * c \<le> m" .
qed

lemma num_floor_ge: "num_finite n \<Longrightarrow> num_le k n \<longleftrightarrow> k \<le> num_floor n"
proof (cases n)
  case (Dec m e)
  have "k * 10 ^ j \<le> m \<longleftrightarrow> k \<le> m div 10 ^ j" for j by (rule mult_le_iff_le_div) simp
  with Dec show ?thesis by auto
qed auto

lemma num_floor_le: "num_finite n \<Longrightarrow> num_ge k n \<Longrightarrow> num_floor n \<le> k"
proof (cases n)
  case (Dec m e)
  assume "num_ge k n"
  moreover have "m \<le> k * 10 ^ j \<Longrightarrow> m div 10 ^ j \<le> k" for j
    using zdiv_mono1 [of m "k * 10 ^ j" "10 ^ j"] by simp
  ultimately show ?thesis using Dec by (auto split: if_splits)
qed auto

lemma num_integer_finite: "num_is_integer n \<Longrightarrow> num_finite n"
  by (cases n) auto

lemma digits_val_snoc: "digits_val (s @ [c]) = 10 * digits_val s + digit_val c"
  by (simp add: digits_val_def)

lemma digit_val_le: "is_digit c \<Longrightarrow> digit_val c \<le> 9"
  unfolding is_digit_def digit_val_def Let_def by linarith

lemma digits_val_bound: "list_all is_digit s \<Longrightarrow> digits_val s < 10 ^ length s"
proof (induction s rule: rev_induct)
  case (snoc c s)
  then have "digits_val s < 10 ^ length s" and "digit_val c \<le> 9"
    by (auto simp: digit_val_le)
  then show ?case by (simp add: digits_val_snoc)
qed (simp add: digits_val_def)

end
