(* ===== verification/Ip_Match.thy ===== *)
theory Ip_Match
  imports Js_Number
begin

text \<open>
  Client-address resolution and address matching (src/src/common/utils/ip.ts): the normalisation of
  IPv4-mapped addresses, the walk over the forwarded chain, and the matcher of exact addresses and
  IPv4 CIDR ranges that the API-key allowlist, the throttler and the body budget share.
  JavaScript's 32-bit operators are those of \<open>32 word\<close>.
\<close>

unbundle bit_operations_syntax

section \<open>The model\<close>

text \<open>\<open>\d{1,3}(?:\.\d{1,3}){3}\<close>.\<close>

definition short_digits :: "string \<Rightarrow> bool" where
  "short_digits p \<longleftrightarrow> 1 \<le> length p \<and> length p \<le> 3 \<and> list_all is_digit p"

definition dotted_quad :: "string \<Rightarrow> bool" where
  "dotted_quad s \<longleftrightarrow> (let ps = split_on CHR ''.'' s in length ps = 4 \<and> list_all short_digits ps)"

definition normalizeIp :: "string \<Rightarrow> string" where
  "normalizeIp ip =
     (if ip = [] then ip
      else if js_lower (take 7 ip) = ''::ffff:'' \<and> dotted_quad (drop 7 ip) then drop 7 ip
      else ip)"

fun ipv4_octets :: "string list \<Rightarrow> nat \<Rightarrow> nat option" where
  "ipv4_octets [] result = Some result"
| "ipv4_octets (part # parts) result =
     (if \<not> short_digits part then None
      else let octet = digits_val part in
        if octet > 255 then None else ipv4_octets parts (result * 256 + octet))"

definition ipv4ToInt :: "string \<Rightarrow> 32 word option" where
  "ipv4ToInt ip =
     (let parts = split_on CHR ''.'' ip in
      if length parts \<noteq> 4 then None else map_option of_nat (ipv4_octets parts 0))"

definition ipMatches :: "string \<Rightarrow> string \<Rightarrow> bool" where
  "ipMatches ip target =
     (let candidate = normalizeIp (js_trim ip); ref = js_trim target in
      if CHR ''/'' \<notin> set ref then normalizeIp ref = candidate
      else let parts = split_on CHR ''/'' ref; range = hd parts; bits = js_Number (parts ! 1) in
        if \<not> num_is_integer bits \<or> \<not> num_le 0 bits \<or> \<not> num_ge 32 bits then False
        else case (ipv4ToInt candidate, ipv4ToInt (normalizeIp range)) of
            (Some ipInt, Some rangeInt) \<Rightarrow>
              let b = nat (num_floor bits) in
              if b = 0 then True
              else let mask = push_bit (32 - b) (- 1 :: 32 word) in
                (ipInt AND mask) = (rangeInt AND mask)
          | _ \<Rightarrow> False)"

text \<open>
  The part of a request the resolution reads. The forwarded header is absent, one string, or the
  list of strings of a repeated header.
\<close>

record request_like =
  rq_ip :: "string option"
  rq_remoteAddress :: "string option"
  rq_xff :: "(string + string list) option"

definition socket_ip :: "request_like \<Rightarrow> string" where
  "socket_ip req =
     normalizeIp (case rq_remoteAddress req of
        Some a \<Rightarrow> if a \<noteq> [] then a else (case rq_ip req of Some i \<Rightarrow> i | None \<Rightarrow> [])
      | None \<Rightarrow> (case rq_ip req of Some i \<Rightarrow> i | None \<Rightarrow> []))"

fun join_comma :: "string list \<Rightarrow> string" where
  "join_comma [] = []"
| "join_comma [s] = s"
| "join_comma (s # t # ss) = s @ CHR '','' # join_comma (t # ss)"

definition forwarded_hops :: "string \<Rightarrow> string list" where
  "forwarded_hops joined =
     filter (\<lambda>h. h \<noteq> []) (map (\<lambda>hop. normalizeIp (js_trim hop)) (split_on CHR '','' joined))"

text \<open>The loop from the last hop to the first: the first one no trusted proxy accounts for.\<close>

fun walk_hops :: "(string \<Rightarrow> bool) \<Rightarrow> string list \<Rightarrow> string option" where
  "walk_hops trusted [] = None"
| "walk_hops trusted (hop # earlier) = (if \<not> trusted hop then Some hop else walk_hops trusted earlier)"

definition resolveClientIp :: "request_like \<Rightarrow> string list \<Rightarrow> string" where
  "resolveClientIp req trustedProxies =
     (let socketIp = socket_ip req;
          isTrusted = (\<lambda>ip. list_ex (\<lambda>proxy. ipMatches ip proxy) trustedProxies)
      in if trustedProxies = [] then socketIp
         else if \<not> isTrusted socketIp then socketIp
         else case rq_xff req of
            None \<Rightarrow> socketIp
          | Some forwarded \<Rightarrow>
              if forwarded = Inl [] then socketIp
              else let joined = (case forwarded of Inl s \<Rightarrow> s | Inr ss \<Rightarrow> join_comma ss) in
                (case walk_hops isTrusted (rev (forwarded_hops joined)) of
                   Some hop \<Rightarrow> hop
                 | None \<Rightarrow> socketIp))"

text \<open>The validator of the entries an API key may carry, with \<open>net.isIP\<close> on dotted quads written out.\<close>

definition strict_octet :: "string \<Rightarrow> bool" where
  "strict_octet p \<longleftrightarrow> short_digits p \<and> digits_val p \<le> 255 \<and> (length p = 1 \<or> hd p \<noteq> CHR ''0'')"

definition net_isIPv4 :: "string \<Rightarrow> bool" where
  "net_isIPv4 s \<longleftrightarrow> (let ps = split_on CHR ''.'' s in length ps = 4 \<and> list_all strict_octet ps)"

definition isIpOrCidr :: "string \<Rightarrow> bool" where
  "isIpOrCidr v =
     (case index_of CHR ''/'' v of
        None \<Rightarrow> net_isIPv4 v
      | Some slash \<Rightarrow>
          if \<not> net_isIPv4 (take slash v) then False
          else let bits = drop (slash + 1) v in
            1 \<le> length bits \<and> length bits \<le> 2 \<and> list_all is_digit bits \<and> num_ge 32 (js_Number bits))"

section \<open>Masks and prefixes\<close>

lemma bit_word_eqI_iff32: "a = r \<longleftrightarrow> (\<forall>n<32. bit a n = bit r n)" for a r :: "32 word"
  by (auto intro: bit_word_eqI)

lemma bit_and_mask:
  "n < 32 \<Longrightarrow> bit (a AND push_bit k (- 1)) n \<longleftrightarrow> bit a n \<and> k \<le> n" for a :: "32 word"
  by (auto simp: bit_and_iff bit_not_iff bit_mask_iff)

lemma and_mask_eq_iff:
  "(a AND push_bit k (- 1)) = (r AND push_bit k (- 1)) \<longleftrightarrow> drop_bit k a = drop_bit k r"
  for a r :: "32 word"
proof -
  have "(a AND push_bit k (- 1)) = (r AND push_bit k (- 1)) \<longleftrightarrow>
      (\<forall>n<32. k \<le> n \<longrightarrow> bit a n = bit r n)"
    unfolding bit_word_eqI_iff32 using bit_and_mask [of _ a k] bit_and_mask [of _ r k] by blast
  also have "\<dots> \<longleftrightarrow> (\<forall>n. bit a (k + n) = bit r (k + n))"
  proof (rule iffI; intro allI impI)
    fix n assume *: "\<forall>n<32. k \<le> n \<longrightarrow> bit a n = bit r n"
    show "bit a (k + n) = bit r (k + n)"
      using * [rule_format, of "k + n"] bit_imp_le_length [of a "k + n"] bit_imp_le_length [of r "k + n"] by auto
  next
    fix n assume *: "\<forall>n. bit a (k + n) = bit r (k + n)" and "k \<le> n"
    then show "bit a n = bit r n" using * [rule_format, of "n - k"] by simp
  qed
  also have "\<dots> \<longleftrightarrow> drop_bit k a = drop_bit k r"
  proof
    assume "\<forall>n. bit a (k + n) = bit r (k + n)"
    then show "drop_bit k a = drop_bit k r" by (intro bit_word_eqI) (simp add: bit_drop_bit_eq)
  next
    assume "drop_bit k a = drop_bit k r"
    then have "bit (drop_bit k a) n = bit (drop_bit k r) n" for n by (rule arg_cong)
    then show "\<forall>n. bit a (k + n) = bit r (k + n)" by (simp only: bit_drop_bit_eq comp_def simp_thms)
  qed
  finally show ?thesis .
qed

lemma drop_bit_eq_iff_div: "drop_bit k a = drop_bit k r \<longleftrightarrow> unat a div 2 ^ k = unat r div 2 ^ k"
  for a r :: "32 word"
proof -
  have "drop_bit k a = drop_bit k r \<longleftrightarrow> unat (drop_bit k a) = unat (drop_bit k r)"
    by (rule word_unat_eq_iff)
  moreover have "unat (drop_bit k w) = unat w div 2 ^ k" for w :: "32 word"
    unfolding unat_drop_bit_eq by (rule drop_bit_eq_div)
  ultimately show ?thesis by simp
qed

lemma same_prefix: "b \<le> 32 \<Longrightarrow>
   (if b = 0 then True else (a AND push_bit (32 - b) (- 1)) = (r AND push_bit (32 - b) (- 1)))
   \<longleftrightarrow> unat a div 2 ^ (32 - b) = unat r div 2 ^ (32 - b)"
  for a r :: "32 word"
  using unsigned_less [of a, where 'a = nat] unsigned_less [of r, where 'a = nat]
  unfolding and_mask_eq_iff drop_bit_eq_iff_div by simp

section \<open>Properties\<close>

lemma prefix_length_range:
  "num_is_integer n \<Longrightarrow> num_le 0 n \<Longrightarrow> num_ge 32 n \<Longrightarrow> 0 \<le> num_floor n \<and> nat (num_floor n) \<le> 32"
  using num_floor_ge [of n 0] num_floor_le [of n 32] num_integer_finite [of n] by auto


section \<open>The forwarded chain\<close>

lemma walk_hops_Some:
  "walk_hops trusted hs = Some h \<Longrightarrow> \<exists>pre post. hs = pre @ h # post \<and> list_all trusted pre \<and> \<not> trusted h"
proof (induction hs)
  case (Cons x hs)
  show ?case
  proof (cases "trusted x")
    case True
    with Cons obtain pre post where "hs = pre @ h # post" "list_all trusted pre" "\<not> trusted h" by auto
    with True have "x # hs = (x # pre) @ h # post \<and> list_all trusted (x # pre) \<and> \<not> trusted h" by simp
    then show ?thesis by blast
  next
    case False
    with Cons.prems have "x # hs = [] @ h # hs \<and> list_all trusted [] \<and> \<not> trusted h" by simp
    then show ?thesis by blast
  qed
qed simp

lemma walk_hops_None: "walk_hops trusted hs = None \<longleftrightarrow> list_all trusted hs"
  by (induction hs) auto

lemma walk_hops_append:
  "walk_hops trusted (xs @ ys) = (case walk_hops trusted xs of Some h \<Rightarrow> Some h | None \<Rightarrow> walk_hops trusted ys)"
  by (induction xs) auto

lemma split_on_join: "split_on c (s @ c # t) = split_on c s @ split_on c t"
proof (induction s)
  case (Cons x s)
  then show ?case using split_on_not_Nil [of c s] by (cases "split_on c s") auto
qed simp

lemma forwarded_hops_append: "forwarded_hops (s @ CHR '','' # t) = forwarded_hops s @ forwarded_hops t"
  by (simp add: forwarded_hops_def split_on_join)

definition is_trusted_proxy :: "string list \<Rightarrow> string \<Rightarrow> bool" where
  "is_trusted_proxy proxies ip = list_ex (\<lambda>proxy. ipMatches ip proxy) proxies"

definition forwarded_text :: "request_like \<Rightarrow> string" where
  "forwarded_text req = (case rq_xff req of None \<Rightarrow> [] | Some (Inl s) \<Rightarrow> s | Some (Inr ss) \<Rightarrow> join_comma ss)"

lemma forwarded_hops_Nil [simp]: "forwarded_hops [] = []"
  by (simp add: forwarded_hops_def normalizeIp_def)

lemma resolveClientIp_eq:
  "resolveClientIp req proxies =
     (if proxies = [] \<or> \<not> is_trusted_proxy proxies (socket_ip req) then socket_ip req
      else case walk_hops (is_trusted_proxy proxies) (rev (forwarded_hops (forwarded_text req))) of
          Some hop \<Rightarrow> hop | None \<Rightarrow> socket_ip req)"
  unfolding resolveClientIp_def Let_def forwarded_text_def is_trusted_proxy_def
  by (auto split: option.splits sum.splits)

text \<open>
  Whatever a client writes into the forwarded header before the trusted infrastructure appends to
  it, it cannot choose the address it is keyed by: with some hop of the genuine tail outside the
  trusted proxies, any text injected before the tail leaves the resolved address unchanged, and
  that address is the last hop of the tail that is not a trusted proxy.
\<close>

theorem forwarded_prefix_is_ignored:
  assumes "\<exists>h \<in> set (forwarded_hops tail_hops). \<not> is_trusted_proxy proxies h"
  shows "resolveClientIp (req\<lparr>rq_xff := Some (Inl (injected @ CHR '','' # tail_hops))\<rparr>) proxies
           = resolveClientIp (req\<lparr>rq_xff := Some (Inl tail_hops)\<rparr>) proxies"
proof -
  have "walk_hops (is_trusted_proxy proxies) (rev (forwarded_hops tail_hops)) \<noteq> None"
    using assms by (auto simp: walk_hops_None list_all_iff)
  then show ?thesis
    by (auto simp: resolveClientIp_eq forwarded_text_def forwarded_hops_append walk_hops_append socket_ip_def
        split: option.splits)
qed

text \<open>
  A forwarded address is only ever taken from a trusted peer: the resolved address is the peer's
  own, or the peer is a trusted proxy and the address is a hop that no trusted proxy accounts for,
  every hop after it being trusted.
\<close>

theorem resolved_address_accounted_for:
  "if resolveClientIp req proxies = socket_ip req then True
   else is_trusted_proxy proxies (socket_ip req) \<and>
     (\<exists>earlier later. forwarded_hops (forwarded_text req) = earlier @ resolveClientIp req proxies # later
        \<and> \<not> is_trusted_proxy proxies (resolveClientIp req proxies) \<and> list_all (is_trusted_proxy proxies) later)"
proof (cases "walk_hops (is_trusted_proxy proxies) (rev (forwarded_hops (forwarded_text req)))")
  case (Some hop)
  then obtain pre post where *: "rev (forwarded_hops (forwarded_text req)) = pre @ hop # post"
      "list_all (is_trusted_proxy proxies) pre" "\<not> is_trusted_proxy proxies hop"
    using walk_hops_Some by blast
  then have "forwarded_hops (forwarded_text req) = rev post @ hop # rev pre"
    by (metis rev_rev_ident rev_append rev.simps(2) append.assoc append_Cons append_Nil)
  with * Some show ?thesis by (fastforce simp: resolveClientIp_eq list_all_iff)
qed (simp add: resolveClientIp_eq)

theorem forwarded_prefix_is_ignored_witness:
  "resolveClientIp \<lparr>rq_ip = None, rq_remoteAddress = Some ''10.0.0.2'',
       rq_xff = Some (Inl (''127.0.0.1'' @ CHR '','' # ''203.0.113.9, 10.0.0.7''))\<rparr> [''10.0.0.2'', ''10.0.0.7'']
     = ''203.0.113.9''"
proof -
  let ?req = "\<lparr>rq_ip = None, rq_remoteAddress = Some ''10.0.0.2'', rq_xff = None\<rparr>"
  have "\<exists>h \<in> set (forwarded_hops ''203.0.113.9, 10.0.0.7''). \<not> is_trusted_proxy [''10.0.0.2'', ''10.0.0.7''] h"
    by code_simp
  from forwarded_prefix_is_ignored [OF this, where req = ?req and injected = "''127.0.0.1''"]
  have "resolveClientIp \<lparr>rq_ip = None, rq_remoteAddress = Some ''10.0.0.2'',
       rq_xff = Some (Inl (''127.0.0.1'' @ CHR '','' # ''203.0.113.9, 10.0.0.7''))\<rparr> [''10.0.0.2'', ''10.0.0.7'']
     = resolveClientIp \<lparr>rq_ip = None, rq_remoteAddress = Some ''10.0.0.2'',
       rq_xff = Some (Inl ''203.0.113.9, 10.0.0.7'')\<rparr> [''10.0.0.2'', ''10.0.0.7'']" by simp
  also have "\<dots> = ''203.0.113.9''" by code_simp
  finally show ?thesis .
qed

lemmas address_eval =
  ipv4ToInt_def short_digits_def digits_val_def is_digit_def digit_val_def js_trim_def ws_char_def
  normalizeIp_def js_lower_def lower_char_def

text \<open>
  An entry with an empty prefix length matches every IPv4 address: \<open>Number('')\<close> is 0, so
  \<open>10.0.0.0/\<close> is read as \<open>10.0.0.0/0\<close>, although the comment of \<open>ipMatches\<close> says that malformed
  input yields \<open>False\<close>. The API-key allowlist is protected by its validator, which refuses the
  entry; the list of trusted proxies comes from the environment and passes no validator.
\<close>

theorem ipMatches_empty_prefix:
  assumes "ipv4ToInt (normalizeIp (js_trim ip)) = Some a"
  shows "ipMatches ip ''10.0.0.0/'' \<and> \<not> isIpOrCidr ''10.0.0.0/''"
proof -
  have "js_trim ''10.0.0.0/'' = ''10.0.0.0/''" and "split_on CHR ''/'' ''10.0.0.0/'' = [''10.0.0.0'', '''']"
    and "js_Number [] = Dec 0 0" and "\<not> isIpOrCidr ''10.0.0.0/''" by code_simp+
  moreover have "ipv4ToInt (normalizeIp ''10.0.0.0'') = Some 167772160" by (simp add: address_eval)
  ultimately show ?thesis using assms by (simp add: ipMatches_def Let_def)
qed

theorem ipMatches_empty_prefix_witness:
  "ipMatches ''203.0.113.9'' ''10.0.0.0/'' \<and> \<not> isIpOrCidr ''10.0.0.0/''"
proof (rule ipMatches_empty_prefix)
  show "ipv4ToInt (normalizeIp (js_trim ''203.0.113.9'')) = Some 3405803785" by (simp add: address_eval)
qed

end
