(* ===== verification/Env_Options.thy ===== *)
theory Env_Options
  imports Js_Number
begin

text \<open>
  How the sweeps of the gateway read a number from the environment
  (src/src/config/configuration.ts and the option readers of the reconcilers).
\<close>

text \<open>\<open>resolveNonNegativeIntEnv\<close> of src/src/config/configuration.ts.\<close>

definition resolveNonNegativeIntEnv :: "string option \<Rightarrow> int \<Rightarrow> int" where
  "resolveNonNegativeIntEnv raw fallback =
     (let t = js_trim (case raw of Some s \<Rightarrow> s | None \<Rightarrow> [])
      in if t = [] \<or> \<not> list_all is_digit t then fallback else int (digits_val t))"

definition env_number :: "string option \<Rightarrow> jsnum" where
  "env_number raw = (case raw of Some s \<Rightarrow> js_Number s | None \<Rightarrow> NaN)"

definition positive_int_or :: "int \<Rightarrow> string option \<Rightarrow> int" where
  "positive_int_or dflt raw = (let n = env_number raw in if num_is_integer n \<and> num_le 1 n then num_floor n else dflt)"

text \<open>Whatever the variable holds, the value is usable.\<close>

lemma resolveNonNegativeIntEnv_nonneg: "0 \<le> fallback \<Longrightarrow> 0 \<le> resolveNonNegativeIntEnv raw fallback"
  by (simp add: resolveNonNegativeIntEnv_def Let_def)

lemma positive_int_or_pos: "1 \<le> dflt \<Longrightarrow> 1 \<le> positive_int_or dflt raw"
  by (auto simp: positive_int_or_def Let_def num_integer_finite num_floor_ge)

end
