(* ===== verification/Body_Budget.thy ===== *)
theory Body_Budget
  imports Ip_Match Env_Options Complex_Main
begin

text \<open>
  The budget on request bodies in flight (src/src/config/inflight-body-budget.ts and
  \<open>resolveBodyLimit\<close> of src/src/config/bootstrap-security.ts): how the budget is read from the
  environment, the admission of a request, and the closures an admitted request leaves on its
  events. A request that was admitted is a \<open>body_flow\<close>, which holds the variables its closures
  share; the middleware and each closure are events of a machine.
\<close>

section \<open>Reading the limits\<close>

definition unit_bytes :: "string \<Rightarrow> int option" where
  "unit_bytes u =
     (if u = ''b'' then Some 1
      else if u = ''kb'' then Some 1024
      else if u = ''mb'' then Some (1024 ^ 2)
      else if u = ''gb'' then Some (1024 ^ 3)
      else if u = ''tb'' then Some (1024 ^ 4)
      else if u = ''pb'' then Some (1024 ^ 5) else None)"

definition FALLBACK_LIMIT_BYTES :: int where "FALLBACK_LIMIT_BYTES = 25 * 1024 ^ 2"

text \<open>
  The expression both functions match: digits, an optional fraction, an optional blank and an
  optional unit. The groups are the number, as its digits and the length of its fraction, and the unit.
\<close>

definition match_fraction :: "string \<Rightarrow> string \<times> string" where
  "match_fraction s =
     (case s of c # t \<Rightarrow> if c = CHR ''.'' \<and> takeWhile is_digit t \<noteq> [] then (takeWhile is_digit t, dropWhile is_digit t) else ([], s)
      | [] \<Rightarrow> ([], []))"

definition match_limit :: "string \<Rightarrow> (nat \<times> nat \<times> string option) option" where
  "match_limit s =
     (let ip = takeWhile is_digit s in
      case match_fraction (dropWhile is_digit s) of (fp, rest) \<Rightarrow>
        let u = js_lower (case rest of c # t \<Rightarrow> if ws_char c then t else rest | [] \<Rightarrow> [])
        in if ip = [] then None
           else if u = [] then Some (digits_val (ip @ fp), length fp, None)
           else if unit_bytes u \<noteq> None then Some (digits_val (ip @ fp), length fp, Some u) else None)"

definition resolveBodyLimit :: "string option \<Rightarrow> string" where
  "resolveBodyLimit env =
     (case map_option js_trim env of
        Some t \<Rightarrow> if t \<noteq> [] \<and> match_limit t \<noteq> None then t else ''25mb''
      | None \<Rightarrow> ''25mb'')"

definition parseBodyLimitBytes :: "string \<Rightarrow> int" where
  "parseBodyLimitBytes limit =
     (case match_limit (js_trim limit) of
        None \<Rightarrow> FALLBACK_LIMIT_BYTES
      | Some (n, k, u) \<Rightarrow>
          (int n * (case unit_bytes (case u of Some x \<Rightarrow> x | None \<Rightarrow> ''b'') of Some b \<Rightarrow> b | None \<Rightarrow> 1)) div 10 ^ k)"

definition resolveInflightBodyBudgetBytes :: "string option \<Rightarrow> string option \<Rightarrow> int" where
  "resolveInflightBodyBudgetBytes budgetEnv bodyLimitEnv =
     (let dflt = 4 * parseBodyLimitBytes (resolveBodyLimit bodyLimitEnv) in
      case map_option js_trim budgetEnv of
        Some raw \<Rightarrow>
          if raw \<noteq> [] \<and> num_is_integer (js_Number raw) \<and> num_le 1 (js_Number raw) then num_floor (js_Number raw) else dflt
      | None \<Rightarrow> dflt)"

text \<open>\<open>parseDeclaredLength\<close>: a safe integer that is not negative, or nothing.\<close>

definition parseDeclaredLength :: "string option \<Rightarrow> int option" where
  "parseDeclaredLength raw =
     (case raw of None \<Rightarrow> None
      | Some s \<Rightarrow>
          let n = js_Number (js_trim s)
          in if num_is_integer n \<and> num_le 0 n \<and> num_ge (2 ^ 53 - 1) n then Some (num_floor n) else None)"

section \<open>The budget and its state\<close>

text \<open>The options of \<open>createInflightBodyBudget\<close>; the share is a fraction of the budget.\<close>

record budget_config =
  bc_budget :: int
  bc_trustedProxies :: "string list"
  bc_perClientShare :: "rat option"

definition per_client_cap :: "budget_config \<Rightarrow> int" where
  "per_client_cap cfg =
     max 1 \<lfloor>of_int (bc_budget cfg)
       * min 1 (max (1 / 2 ^ 52) (case bc_perClientShare cfg of Some s \<Rightarrow> s | None \<Rightarrow> 1 / 2))\<rfloor>"

definition undeclared_reservation :: "budget_config \<Rightarrow> int" where
  "undeclared_reservation cfg = max 1 (min (1024 * 1024) (bc_budget cfg))"

definition MAX_TRACKED_CLIENTS :: nat where "MAX_TRACKED_CLIENTS = 10000"
definition STALL_TIMEOUT_MS :: int where "STALL_TIMEOUT_MS = 15000"

text \<open>What the middleware reads of a request and its response.\<close>

record body_request =
  br_client :: request_like
  br_contentLength :: "string option"
  br_transferEncoding :: "string option"
  br_contentEncoding :: "string option"
  br_answering :: bool   \<comment> \<open>\<open>res.headersSent || res.writableEnded\<close>\<close>
  br_bytesRead :: int    \<comment> \<open>\<open>socket.bytesRead\<close> on arrival\<close>

text \<open>The variables the closures of an admitted request share, and what they did to it.\<close>

record body_flow =
  fl_client :: string
  fl_untracked :: bool   \<comment> \<open>\<open>mapAtCapacity\<close>\<close>
  fl_declared :: "int option"
  fl_reserved :: int
  fl_released :: bool
  fl_armed :: bool       \<comment> \<open>\<open>stallTimer\<close> is set\<close>
  fl_startBytes :: int
  fl_lastBytes :: int
  fl_lastProgress :: int
  fl_destroyed :: bool

datatype body_answer = Admitted | Busy_503 | Compressed_415 | Dropped

record budget =
  bb_inFlight :: int
  bb_clients :: "(string, int) jsmap"
  bb_flows :: "body_flow list"
  bb_answers :: "body_answer list"

definition empty_budget :: budget where
  "empty_budget = \<lparr>bb_inFlight = 0, bb_clients = [], bb_flows = [], bb_answers = []\<rparr>"

definition client_busy :: "budget \<Rightarrow> string \<Rightarrow> int" where
  "client_busy s k = (case jm_get (bb_clients s) k of Some b \<Rightarrow> b | None \<Rightarrow> 0)"

section \<open>Admission\<close>

definition opening_reservation :: "budget_config \<Rightarrow> body_request \<Rightarrow> int" where
  "opening_reservation cfg req =
     (case parseDeclaredLength (br_contentLength req) of
        Some n \<Rightarrow> n
      | None \<Rightarrow> if br_transferEncoding req \<noteq> None then undeclared_reservation cfg else 0)"

definition body_indicated :: "body_request \<Rightarrow> bool" where
  "body_indicated req \<longleftrightarrow>
     br_transferEncoding req \<noteq> None \<or> (case br_contentLength req of Some s \<Rightarrow> js_Number s \<noteq> NaN | None \<Rightarrow> False)"

definition refuse :: "body_request \<Rightarrow> body_answer \<Rightarrow> budget \<Rightarrow> budget" where
  "refuse req a s = s\<lparr>bb_answers := bb_answers s @ [if br_answering req then Dropped else a]\<rparr>"

definition budget_middleware :: "budget_config \<Rightarrow> int \<Rightarrow> body_request \<Rightarrow> budget \<Rightarrow> budget" where
  "budget_middleware cfg now req s =
     (let reserved = opening_reservation cfg req;
          encoding = js_lower (js_trim (case br_contentEncoding req of Some e \<Rightarrow> e | None \<Rightarrow> []))
      in if body_indicated req \<and> encoding \<noteq> [] \<and> encoding \<noteq> ''identity'' then refuse req Compressed_415 s
         else
           let client = resolveClientIp (br_client req) (bc_trustedProxies cfg);
               at_capacity = MAX_TRACKED_CLIENTS \<le> length (bb_clients s) \<and> \<not> jm_has (bb_clients s) client
           in if bb_inFlight s + reserved > bc_budget cfg \<or> client_busy s client + reserved > per_client_cap cfg \<or> at_capacity
              then refuse req Busy_503 s
              else s\<lparr>bb_inFlight := bb_inFlight s + reserved,
                     bb_clients := (if at_capacity then bb_clients s else jm_set (bb_clients s) client (client_busy s client + reserved)),
                     bb_flows := bb_flows s @
                       [\<lparr>fl_client = client, fl_untracked = at_capacity,
                         fl_declared = parseDeclaredLength (br_contentLength req), fl_reserved = reserved,
                         fl_released = False, fl_armed = (0 < reserved), fl_startBytes = br_bytesRead req,
                         fl_lastBytes = br_bytesRead req, fl_lastProgress = now, fl_destroyed = False\<rparr>],
                     bb_answers := bb_answers s @ [Admitted]\<rparr>)"

section \<open>The closures of an admitted request\<close>

definition set_flow :: "nat \<Rightarrow> (body_flow \<Rightarrow> body_flow) \<Rightarrow> budget \<Rightarrow> budget" where
  "set_flow i f s = s\<lparr>bb_flows := (bb_flows s)[i := f (bb_flows s ! i)]\<rparr>"

text \<open>\<open>release\<close>, on every terminal event of the request, the response or their socket.\<close>

definition release_flow :: "nat \<Rightarrow> budget \<Rightarrow> budget" where
  "release_flow i s =
     (let f = bb_flows s ! i in
      if fl_released f then s
      else
        let busy = (case jm_get (bb_clients s) (fl_client f) of Some b \<Rightarrow> b | None \<Rightarrow> fl_reserved f) - fl_reserved f;
            s1 = set_flow i (\<lambda>f. f\<lparr>fl_released := True, fl_armed := False\<rparr>) s
        in s1\<lparr>bb_inFlight := bb_inFlight s - fl_reserved f,
              bb_clients := (if fl_untracked f then bb_clients s
                             else if 0 < busy then jm_set (bb_clients s) (fl_client f) busy
                             else jm_del (bb_clients s) (fl_client f))\<rparr>)"

definition destroy_flow :: "nat \<Rightarrow> budget \<Rightarrow> budget" where
  "destroy_flow i = set_flow i (\<lambda>f. f\<lparr>fl_destroyed := True\<rparr>)"

definition disarm_flow :: "nat \<Rightarrow> budget \<Rightarrow> budget" where
  "disarm_flow i = set_flow i (\<lambda>f. f\<lparr>fl_armed := False\<rparr>)"

definition reconcileUndeclared :: "budget_config \<Rightarrow> nat \<Rightarrow> int \<Rightarrow> budget \<Rightarrow> budget" where
  "reconcileUndeclared cfg i readNow s =
     (let f = bb_flows s ! i;
          actual = max (undeclared_reservation cfg) (readNow - fl_startBytes f);
          delta = actual - fl_reserved f
      in if actual = fl_reserved f then s
         else
           let s1 = set_flow i (\<lambda>f. f\<lparr>fl_reserved := actual\<rparr>) (s\<lparr>bb_inFlight := bb_inFlight s + delta\<rparr>);
               busy = client_busy s1 (fl_client f) + delta;
               s2 = (if fl_untracked f then s1 else s1\<lparr>bb_clients := jm_set (bb_clients s1) (fl_client f) busy\<rparr>)
           in if \<not> fl_untracked f \<and> busy > per_client_cap cfg then destroy_flow i (release_flow i s2)
              else if bb_inFlight s2 > bc_budget cfg then destroy_flow i (release_flow i s2)
              else s2)"

text \<open>One tick of the stall timer, which only fires while it is set.\<close>

definition stall_poll :: "budget_config \<Rightarrow> nat \<Rightarrow> bool \<Rightarrow> int \<Rightarrow> int \<Rightarrow> budget \<Rightarrow> budget" where
  "stall_poll cfg i whole readNow now s =
     (let f = bb_flows s ! i in
      if \<not> fl_armed f then s
      else if whole then disarm_flow i s
      else if readNow \<noteq> fl_lastBytes f then
        let s1 = (if fl_declared f = None then reconcileUndeclared cfg i readNow s else s);
            s2 = set_flow i (\<lambda>f. f\<lparr>fl_lastBytes := readNow, fl_lastProgress := now\<rparr>) s1
        in (case fl_declared f of
              Some d \<Rightarrow> if d \<le> readNow - fl_startBytes f then disarm_flow i s2 else s2
            | None \<Rightarrow> s2)
      else if STALL_TIMEOUT_MS \<le> now - fl_lastProgress f then destroy_flow i (release_flow i s)
      else s)"

text \<open>
  The events: a request arrives at a given time; a terminal event of the \<open>i\<close>-th admitted request
  (\<open>finish\<close>, \<open>close\<close> or \<open>error\<close>); the end of its body; a tick of its timer, with \<open>req.complete\<close>, the
  socket's byte counter and the clock.
\<close>

datatype body_event =
    Arrives int body_request
  | Terminates nat
  | Body_Ends nat
  | Tick nat bool int int

fun body_step :: "budget_config \<Rightarrow> body_event \<Rightarrow> budget \<Rightarrow> budget" where
  "body_step cfg (Arrives now req) s = budget_middleware cfg now req s"
| "body_step cfg (Terminates i) s = (if i < length (bb_flows s) then release_flow i s else s)"
| "body_step cfg (Body_Ends i) s = (if i < length (bb_flows s) then disarm_flow i s else s)"
| "body_step cfg (Tick i whole readNow now) s = (if i < length (bb_flows s) then stall_poll cfg i whole readNow now s else s)"

definition body_run :: "budget_config \<Rightarrow> body_event list \<Rightarrow> budget" where
  "body_run cfg es = fold (body_step cfg) es empty_budget"

section \<open>The accounts\<close>

text \<open>The bytes reserved by the requests that were not released, of those a condition picks.\<close>

definition held :: "(body_flow \<Rightarrow> bool) \<Rightarrow> body_flow list \<Rightarrow> int" where
  "held P fs = (\<Sum>f \<leftarrow> fs. if \<not> fl_released f \<and> P f then fl_reserved f else 0)"

definition held_by :: "string \<Rightarrow> body_flow list \<Rightarrow> int" where
  "held_by k = held (\<lambda>f. fl_client f = k)"

definition good_flow :: "budget_config \<Rightarrow> body_flow \<Rightarrow> bool" where
  "good_flow cfg f \<longleftrightarrow>
     0 \<le> fl_reserved f \<and> \<not> fl_untracked f \<and> (fl_armed f \<longrightarrow> \<not> fl_released f)
     \<and> (fl_declared f = None \<and> 0 < fl_reserved f \<longrightarrow> undeclared_reservation cfg \<le> fl_reserved f)
     \<and> (fl_armed f \<longrightarrow> 0 < fl_reserved f)"

definition accounts :: "budget_config \<Rightarrow> budget \<Rightarrow> bool" where
  "accounts cfg s \<longleftrightarrow>
     bb_inFlight s = held (\<lambda>_. True) (bb_flows s) \<and> (\<forall>k. client_busy s k = held_by k (bb_flows s))
     \<and> jm_wf (bb_clients s) \<and> length (bb_clients s) \<le> MAX_TRACKED_CLIENTS
     \<and> (\<forall>k. jm_has (bb_clients s) k \<longrightarrow> (\<exists>f \<in> set (bb_flows s). \<not> fl_released f \<and> fl_client f = k))
     \<and> list_all (good_flow cfg) (bb_flows s)"

lemma held_Nil [simp]: "held P [] = 0"
  by (simp add: held_def)

lemma held_Cons [simp]: "held P (f # fs) = (if \<not> fl_released f \<and> P f then fl_reserved f else 0) + held P fs"
  by (simp add: held_def)

lemma held_snoc [simp]: "held P (fs @ [f]) = held P fs + (if \<not> fl_released f \<and> P f then fl_reserved f else 0)"
  by (simp add: held_def)

lemma held_update:
  "i < length fs \<Longrightarrow> held P (fs[i := f]) = held P fs - (if \<not> fl_released (fs ! i) \<and> P (fs ! i) then fl_reserved (fs ! i) else 0)
     + (if \<not> fl_released f \<and> P f then fl_reserved f else 0)"
  unfolding held_def by (induction fs arbitrary: i) (auto split: nat.split simp: less_Suc_eq_0_disj)

lemma good_reserved: "good_flow cfg f \<Longrightarrow> 0 \<le> fl_reserved f"
  by (simp add: good_flow_def)

lemma held_nonneg: "list_all (good_flow cfg) fs \<Longrightarrow> 0 \<le> held P fs"
  unfolding held_def by (rule sum_list_nonneg) (auto simp: good_flow_def list_all_iff)

lemma held_pos_live: "list_all (good_flow cfg) fs \<Longrightarrow> 0 < held P fs \<Longrightarrow> \<exists>f \<in> set fs. \<not> fl_released f \<and> P f"
  unfolding held_def by (induction fs) (auto split: if_splits)

lemma held_le: "list_all (good_flow cfg) fs \<Longrightarrow> i < length fs \<Longrightarrow> \<not> fl_released (fs ! i) \<Longrightarrow> P (fs ! i) \<Longrightarrow> fl_reserved (fs ! i) \<le> held P fs"
proof (induction fs arbitrary: i)
  case (Cons f fs)
  show ?case
  proof (cases i)
    case 0
    then show ?thesis using held_nonneg [of cfg fs P] Cons.prems by simp
  next
    case (Suc j)
    then show ?thesis using Cons.IH [of j] Cons.prems by (auto dest: good_reserved)
  qed
qed simp

lemma held_mono_client: "list_all (good_flow cfg) fs \<Longrightarrow> held_by k fs \<le> held (\<lambda>_. True) fs"
  unfolding held_def held_by_def by (rule sum_list_mono) (auto simp: good_flow_def list_all_iff)

lemma list_all_update: "list_all P xs \<Longrightarrow> P x \<Longrightarrow> list_all P (xs[i := x])"
  by (metis list_all_length list_update_beyond length_list_update not_le nth_list_update)

text \<open>A change of one flow that keeps what it holds keeps the accounts.\<close>

lemma set_flow_accounts:
  assumes "accounts cfg s" and i: "i < length (bb_flows s)"
    and f: "fl_reserved (f (bb_flows s ! i)) = fl_reserved (bb_flows s ! i)" "fl_released (f (bb_flows s ! i)) = fl_released (bb_flows s ! i)"
      "fl_client (f (bb_flows s ! i)) = fl_client (bb_flows s ! i)" "good_flow cfg (f (bb_flows s ! i))"
  shows "accounts cfg (set_flow i f s)"
proof -
  have h: "held P ((bb_flows s)[i := f (bb_flows s ! i)]) = held P (bb_flows s)" if "P (f (bb_flows s ! i)) = P (bb_flows s ! i)" for P
    using i f that by (simp add: held_update)
  have "held_by k ((bb_flows s)[i := f (bb_flows s ! i)]) = held_by k (bb_flows s)" for k
    unfolding held_by_def by (rule h) (simp add: f)
  moreover have "\<exists>g \<in> set ((bb_flows s)[i := f (bb_flows s ! i)]). \<not> fl_released g \<and> fl_client g = k"
    if l: "\<exists>g \<in> set (bb_flows s). \<not> fl_released g \<and> fl_client g = k" for k
  proof -
    obtain j where j: "j < length (bb_flows s)" "\<not> fl_released (bb_flows s ! j)" "fl_client (bb_flows s ! j) = k"
      using l by (auto simp: in_set_conv_nth)
    then have "\<not> fl_released ((bb_flows s)[i := f (bb_flows s ! i)] ! j) \<and> fl_client ((bb_flows s)[i := f (bb_flows s ! i)] ! j) = k"
      using f by (cases "i = j") auto
    then show ?thesis using j(1) by (metis length_list_update nth_mem)
  qed
  ultimately show ?thesis
    using assms by (auto simp: accounts_def set_flow_def client_busy_def h list_all_length nth_list_update)
qed

lemma length_jm_set: "length (jm_set m k v) = (if jm_has m k then length m else Suc (length m))"
  using arg_cong [OF keys_jm_set [of m k v], of length] by (auto simp: jm_has_def split: if_splits)

text \<open>A release takes exactly what the request held from the aggregate and from its client.\<close>

lemma release_accounts:
  assumes acc: "accounts cfg s" and i: "i < length (bb_flows s)"
  shows "accounts cfg (release_flow i s)"
proof (cases "fl_released (bb_flows s ! i)")
  case False
  define f where "f = bb_flows s ! i"
  define fs where "fs = (bb_flows s)[i := f\<lparr>fl_released := True, fl_armed := False\<rparr>]"
  have good: "good_flow cfg f" "list_all (good_flow cfg) (bb_flows s)" using acc i by (auto simp: accounts_def list_all_length f_def)
  then have fs: "list_all (good_flow cfg) fs"
    unfolding fs_def by (intro list_all_update) (simp_all add: good_flow_def)
  have flows: "bb_flows (release_flow i s) = fs"
    using False by (simp add: release_flow_def Let_def set_flow_def fs_def f_def)
  have h: "held P fs = held P (bb_flows s) - (if P f then fl_reserved f else 0)" if "P (f\<lparr>fl_released := True, fl_armed := False\<rparr>) = P f" for P
    using i False that by (simp add: fs_def held_update f_def)
  have hk: "held_by k fs = held_by k (bb_flows s) - (if fl_client f = k then fl_reserved f else 0)" for k
    unfolding held_by_def by (rule h) simp
  define busy where "busy = (case jm_get (bb_clients s) (fl_client f) of Some b \<Rightarrow> b | None \<Rightarrow> fl_reserved f) - fl_reserved f"
  have cb: "client_busy s k = held_by k (bb_flows s)" for k using acc by (simp add: accounts_def)
  have "fl_reserved f \<le> held_by (fl_client f) (bb_flows s)"
    unfolding held_by_def f_def using held_le [OF good(2) i, of "\<lambda>g. fl_client g = fl_client (bb_flows s ! i)"] False by simp
  then have busy_eq: "busy = held_by (fl_client f) fs" and tracked: "0 < busy \<Longrightarrow> jm_has (bb_clients s) (fl_client f)"
    using cb [of "fl_client f"] hk [of "fl_client f"] good(1)
    by (auto simp: busy_def client_busy_def good_flow_def jm_has_iff split: option.splits)
  define m where "m = (if 0 < busy then jm_set (bb_clients s) (fl_client f) busy else jm_del (bb_clients s) (fl_client f))"
  have clients: "bb_clients (release_flow i s) = m"
    using False good(1) by (simp add: release_flow_def Let_def set_flow_def m_def busy_def good_flow_def flip: f_def)
  have total: "bb_inFlight (release_flow i s) = bb_inFlight s - fl_reserved f"
    using False by (simp add: release_flow_def Let_def set_flow_def f_def)
  have "0 \<le> held_by k fs" for k unfolding held_by_def by (rule held_nonneg [OF fs])
  then have zero: "held_by (fl_client f) fs = 0" if "\<not> 0 < busy" using that busy_eq by (metis order_antisym not_le)
  have "client_busy (release_flow i s) k = held_by k fs" for k
    using cb [of k] hk [of k] busy_eq zero by (cases "k = fl_client f") (auto simp: client_busy_def clients m_def)
  moreover have "\<exists>g \<in> set fs. \<not> fl_released g \<and> fl_client g = k" if "jm_has m k" for k
  proof (cases "k = fl_client f")
    case True
    then have "0 < held_by k fs" using that busy_eq by (auto simp: m_def jm_has_iff split: if_splits)
    then show ?thesis unfolding held_by_def using held_pos_live [OF fs] by blast
  next
    case False
    then have "jm_has (bb_clients s) k" using that by (auto simp: m_def jm_has_iff split: if_splits)
    then obtain j where j: "j < length (bb_flows s)" "\<not> fl_released (bb_flows s ! j)" "fl_client (bb_flows s ! j) = k"
      using acc unfolding accounts_def by (metis in_set_conv_nth)
    then have "fs ! j = bb_flows s ! j" using False by (cases "i = j") (auto simp: fs_def f_def)
    then show ?thesis using j by (metis fs_def length_list_update nth_mem)
  qed
  moreover have "jm_wf m" "length m \<le> MAX_TRACKED_CLIENTS"
    using acc tracked length_jm_del [of "bb_clients s" "fl_client f"] by (auto simp: m_def accounts_def length_jm_set)
  ultimately show ?thesis
    using acc fs h by (simp add: accounts_def flows clients total)
qed (use acc in \<open>simp add: release_flow_def Let_def\<close>)

text \<open>Nothing a closure does changes the number of flows, or another flow.\<close>

lemma set_flow_flows [simp]: "bb_flows (set_flow i f s) = (bb_flows s)[i := f (bb_flows s ! i)]"
  by (simp add: set_flow_def)

lemma set_flow_fields [simp]:
  "bb_inFlight (set_flow i f s) = bb_inFlight s" "bb_clients (set_flow i f s) = bb_clients s" "client_busy (set_flow i f s) k = client_busy s k"
  by (simp_all add: set_flow_def client_busy_def)

lemma client_busy_total [simp]:
  "client_busy (s\<lparr>bb_inFlight := x\<rparr>) k = client_busy s k" "client_busy (s\<lparr>bb_answers := as\<rparr>) k = client_busy s k"
  by (simp_all add: client_busy_def)

lemma release_flows:
  "bb_flows (release_flow i s) =
     (if fl_released (bb_flows s ! i) then bb_flows s else (bb_flows s)[i := (bb_flows s ! i)\<lparr>fl_released := True, fl_armed := False\<rparr>])"
  by (simp add: release_flow_def Let_def)

lemma release_inFlight: "\<not> fl_released (bb_flows s ! i) \<Longrightarrow> bb_inFlight (release_flow i s) = bb_inFlight s - fl_reserved (bb_flows s ! i)"
  by (simp add: release_flow_def Let_def)

lemma good_nth: "accounts cfg s \<Longrightarrow> i < length (bb_flows s) \<Longrightarrow> good_flow cfg (bb_flows s ! i)"
  by (simp add: accounts_def list_all_length)

lemma busy_is_held: "accounts cfg s \<Longrightarrow> client_busy s k = held_by k (bb_flows s)"
  by (simp add: accounts_def)

lemma destroy_accounts: "accounts cfg s \<Longrightarrow> i < length (bb_flows s) \<Longrightarrow> accounts cfg (destroy_flow i s)"
  unfolding destroy_flow_def using good_nth by (intro set_flow_accounts) (auto simp: good_flow_def)

lemma disarm_accounts: "accounts cfg s \<Longrightarrow> i < length (bb_flows s) \<Longrightarrow> accounts cfg (disarm_flow i s)"
  unfolding disarm_flow_def using good_nth by (intro set_flow_accounts) (auto simp: good_flow_def)

lemma abort_accounts: "accounts cfg s \<Longrightarrow> i < length (bb_flows s) \<Longrightarrow> accounts cfg (destroy_flow i (release_flow i s))"
  by (intro destroy_accounts release_accounts) (simp_all add: release_flows)

text \<open>Booking more or less on a request that is in flight, in the aggregate and for its client.\<close>

definition rebook :: "nat \<Rightarrow> int \<Rightarrow> budget \<Rightarrow> budget" where
  "rebook i actual s =
     (let f = bb_flows s ! i; delta = actual - fl_reserved f in
      (set_flow i (\<lambda>f. f\<lparr>fl_reserved := actual\<rparr>) s)
        \<lparr>bb_inFlight := bb_inFlight s + delta,
         bb_clients := jm_set (bb_clients s) (fl_client f) (client_busy s (fl_client f) + delta)\<rparr>)"

lemma rebook_accounts:
  assumes acc: "accounts cfg s" and i: "i < length (bb_flows s)" and live: "\<not> fl_released (bb_flows s ! i)"
    and pos: "0 < fl_reserved (bb_flows s ! i)" and actual: "undeclared_reservation cfg \<le> actual"
  shows "accounts cfg (rebook i actual s)"
proof -
  define f where "f = bb_flows s ! i"
  have a: "0 < actual" using actual by (simp add: undeclared_reservation_def)
  have fs: "bb_flows (rebook i actual s) = (bb_flows s)[i := f\<lparr>fl_reserved := actual\<rparr>]" by (simp add: rebook_def Let_def f_def)
  have hk: "held_by k (bb_flows (rebook i actual s)) = held_by k (bb_flows s) + (if fl_client f = k then actual - fl_reserved f else 0)" for k
    using i live unfolding held_by_def fs by (simp add: held_update f_def)
  have cb: "client_busy s k = held_by k (bb_flows s)" for k by (rule busy_is_held [OF acc])
  then have "client_busy (rebook i actual s) k = held_by k (bb_flows (rebook i actual s))" for k
    unfolding hk by (cases "k = fl_client f") (auto simp: client_busy_def rebook_def Let_def f_def)
  moreover have "bb_inFlight (rebook i actual s) = held (\<lambda>_. True) (bb_flows (rebook i actual s))"
    using acc i live unfolding fs by (simp add: held_update accounts_def rebook_def Let_def f_def)
  moreover have "0 < client_busy s (fl_client f)"
    using pos held_le [of cfg "bb_flows s" i "\<lambda>g. fl_client g = fl_client f"] acc i live
    unfolding cb held_by_def by (simp add: accounts_def f_def)
  then have has: "jm_has (bb_clients s) (fl_client f)" by (auto simp: client_busy_def jm_has_iff split: option.splits)
  then have "length (bb_clients (rebook i actual s)) \<le> MAX_TRACKED_CLIENTS" "jm_wf (bb_clients (rebook i actual s))"
    using acc by (simp_all add: rebook_def Let_def length_jm_set accounts_def f_def)
  moreover have "\<exists>g \<in> set (bb_flows (rebook i actual s)). \<not> fl_released g \<and> fl_client g = k" if h: "jm_has (bb_clients (rebook i actual s)) k" for k
  proof -
    have "jm_has (bb_clients s) k" using h has by (auto simp: rebook_def Let_def jm_has_iff f_def split: if_splits)
    then obtain j where j: "j < length (bb_flows s)" "\<not> fl_released (bb_flows s ! j)" "fl_client (bb_flows s ! j) = k"
      using acc unfolding accounts_def by (metis in_set_conv_nth)
    then have "\<not> fl_released (bb_flows (rebook i actual s) ! j) \<and> fl_client (bb_flows (rebook i actual s) ! j) = k"
      unfolding fs by (cases "i = j") (auto simp: f_def)
    then show ?thesis using j(1) fs by (metis length_list_update nth_mem)
  qed
  moreover have "list_all (good_flow cfg) (bb_flows (rebook i actual s))"
    unfolding fs using acc a actual good_nth [OF acc i]
    by (intro list_all_update) (simp_all add: accounts_def good_flow_def f_def)
  ultimately show ?thesis using acc by (simp add: accounts_def)
qed

definition fits :: "budget_config \<Rightarrow> budget \<Rightarrow> bool" where
  "fits cfg s \<longleftrightarrow> bb_inFlight s \<le> max 0 (bc_budget cfg) \<and> (\<forall>k. client_busy s k \<le> per_client_cap cfg)"

definition budget_inv :: "budget_config \<Rightarrow> budget \<Rightarrow> bool" where
  "budget_inv cfg s \<longleftrightarrow> accounts cfg s \<and> fits cfg s"

text \<open>When a request lets go of what it held, nobody holds more than before.\<close>

lemma fits_after_release:
  assumes "budget_inv cfg s" and "accounts cfg t" and i: "i < length (bb_flows s)"
    and t: "bb_flows t = (bb_flows s)[i := g]" "fl_released g"
  shows "budget_inv cfg t"
proof -
  have "held P (bb_flows t) \<le> held P (bb_flows s)" for P
    using assms(1) i t good_nth [of cfg s i] by (auto simp: held_update budget_inv_def dest: good_reserved)
  then have "bb_inFlight t \<le> bb_inFlight s" "client_busy t k \<le> client_busy s k" for k
    using assms(1,2) by (simp_all add: budget_inv_def accounts_def held_by_def)
  then show ?thesis using assms(1,2) unfolding budget_inv_def fits_def by (meson order_trans)
qed

lemma release_inv: "budget_inv cfg s \<Longrightarrow> i < length (bb_flows s) \<Longrightarrow> budget_inv cfg (release_flow i s)"
  using release_accounts [of cfg s i] fits_after_release [of cfg s "release_flow i s" i "(bb_flows s ! i)\<lparr>fl_released := True, fl_armed := False\<rparr>"]
  by (cases "fl_released (bb_flows s ! i)") (auto simp: release_flows budget_inv_def release_flow_def Let_def)

lemma same_totals_inv:
  "budget_inv cfg s \<Longrightarrow> accounts cfg t \<Longrightarrow> bb_inFlight t = bb_inFlight s \<Longrightarrow> (\<And>k. client_busy t k = client_busy s k) \<Longrightarrow> budget_inv cfg t"
  by (simp add: budget_inv_def fits_def)

lemma abort_inv: "budget_inv cfg s \<Longrightarrow> i < length (bb_flows s) \<Longrightarrow> budget_inv cfg (destroy_flow i (release_flow i s))"
  by (rule same_totals_inv [OF release_inv])
    (auto simp: destroy_flow_def budget_inv_def intro: abort_accounts [unfolded destroy_flow_def])

lemma abort_rebooked_inv:
  assumes inv: "budget_inv cfg s" and i: "i < length (bb_flows s)" and live: "\<not> fl_released (bb_flows s ! i)"
    and "0 < fl_reserved (bb_flows s ! i)" and "undeclared_reservation cfg \<le> actual"
  shows "budget_inv cfg (destroy_flow i (release_flow i (rebook i actual s)))"
proof -
  have "accounts cfg (rebook i actual s)" using assms by (intro rebook_accounts) (auto simp: budget_inv_def)
  then have acc: "accounts cfg (destroy_flow i (release_flow i (rebook i actual s)))"
    using i by (intro abort_accounts) (simp_all add: rebook_def Let_def)
  show ?thesis
    by (rule fits_after_release [OF inv acc i, where g = "(bb_flows s ! i)\<lparr>fl_reserved := actual, fl_released := True, fl_armed := False, fl_destroyed := True\<rparr>"])
      (use i live in \<open>simp_all add: destroy_flow_def release_flows rebook_def Let_def\<close>)
qed

lemma reconcile_eq:
  assumes "\<not> fl_untracked (bb_flows s ! i)" and "i < length (bb_flows s)"
  shows "reconcileUndeclared cfg i readNow s =
    (let f = bb_flows s ! i; actual = max (undeclared_reservation cfg) (readNow - fl_startBytes f); s2 = rebook i actual s
     in if actual = fl_reserved f then s
        else if client_busy s2 (fl_client f) > per_client_cap cfg \<or> bb_inFlight s2 > bc_budget cfg then destroy_flow i (release_flow i s2)
        else s2)"
proof -
  have "(set_flow i (\<lambda>f. f\<lparr>fl_reserved := x\<rparr>) (s\<lparr>bb_inFlight := bb_inFlight s + (x - fl_reserved (bb_flows s ! i))\<rparr>))
      \<lparr>bb_clients := jm_set (bb_clients s) (fl_client (bb_flows s ! i))
         (client_busy s (fl_client (bb_flows s ! i)) + (x - fl_reserved (bb_flows s ! i)))\<rparr> = rebook i x s" for x
    by (simp add: rebook_def set_flow_def Let_def)
  moreover have "client_busy (rebook i x s) (fl_client (bb_flows s ! i)) = client_busy s (fl_client (bb_flows s ! i)) + (x - fl_reserved (bb_flows s ! i))" for x
    by (simp add: rebook_def Let_def client_busy_def)
  ultimately show ?thesis using assms by (auto simp: reconcileUndeclared_def Let_def)
qed

lemma reconcile_inv:
  assumes inv: "budget_inv cfg s" and i: "i < length (bb_flows s)" and armed: "fl_armed (bb_flows s ! i)"
  shows "budget_inv cfg (reconcileUndeclared cfg i readNow s)"
proof -
  define actual where "actual = max (undeclared_reservation cfg) (readNow - fl_startBytes (bb_flows s ! i))"
  define f where "f = bb_flows s ! i"
  have g: "good_flow cfg f" using inv i good_nth unfolding budget_inv_def f_def by blast
  then have live: "\<not> fl_released f" "0 < fl_reserved f" using armed by (auto simp: good_flow_def f_def)
  have a: "undeclared_reservation cfg \<le> actual" by (simp add: actual_def)
  have eq: "reconcileUndeclared cfg i readNow s =
      (if actual = fl_reserved f then s
       else if client_busy (rebook i actual s) (fl_client f) > per_client_cap cfg \<or> bb_inFlight (rebook i actual s) > bc_budget cfg
       then destroy_flow i (release_flow i (rebook i actual s)) else rebook i actual s)"
    using reconcile_eq [of s i cfg readNow] g i by (simp add: Let_def good_flow_def f_def actual_def)
  have "budget_inv cfg (rebook i actual s)"
    if q: "\<not> (client_busy (rebook i actual s) (fl_client f) > per_client_cap cfg \<or> bb_inFlight (rebook i actual s) > bc_budget cfg)"
  proof -
    have "client_busy (rebook i actual s) k = client_busy s k" if "k \<noteq> fl_client f" for k
      using that by (simp add: rebook_def Let_def client_busy_def f_def)
    then have "fits cfg (rebook i actual s)"
      using q inv unfolding fits_def budget_inv_def by (metis max.coboundedI2 not_le)
    moreover have "accounts cfg (rebook i actual s)"
      using inv i live a by (intro rebook_accounts) (auto simp: budget_inv_def f_def)
    ultimately show ?thesis by (simp add: budget_inv_def)
  qed
  then show ?thesis
    unfolding eq using inv abort_rebooked_inv [OF inv i _ _ a] live by (simp add: f_def)
qed

lemma flow_lengths [simp]:
  "length (bb_flows (destroy_flow i s)) = length (bb_flows s)" "length (bb_flows (disarm_flow i s)) = length (bb_flows s)"
  "length (bb_flows (release_flow i s)) = length (bb_flows s)" "length (bb_flows (reconcileUndeclared cfg i readNow s)) = length (bb_flows s)"
proof -
  show d: "length (bb_flows (destroy_flow i s)) = length (bb_flows s)" "length (bb_flows (disarm_flow i s)) = length (bb_flows s)"
    and r: "length (bb_flows (release_flow i s)) = length (bb_flows s)" for s
    by (simp_all add: destroy_flow_def disarm_flow_def release_flows)
  show "length (bb_flows (reconcileUndeclared cfg i readNow s)) = length (bb_flows s)"
    by (simp add: reconcileUndeclared_def Let_def d r)
qed

lemma disarm_inv: "budget_inv cfg s \<Longrightarrow> i < length (bb_flows s) \<Longrightarrow> budget_inv cfg (disarm_flow i s)"
  using same_totals_inv [of cfg s "disarm_flow i s"] disarm_accounts [of cfg s i] by (simp add: budget_inv_def) (simp add: disarm_flow_def)

lemma poll_inv:
  assumes inv: "budget_inv cfg s" and i: "i < length (bb_flows s)"
  shows "budget_inv cfg (stall_poll cfg i whole readNow now s)"
proof -
  define f where "f = bb_flows s ! i"
  define s1 where "s1 = (if fl_declared f = None then reconcileUndeclared cfg i readNow s else s)"
  define s2 where "s2 = set_flow i (\<lambda>f. f\<lparr>fl_lastBytes := readNow, fl_lastProgress := now\<rparr>) s1"
  have "budget_inv cfg s2" if "fl_armed f"
  proof -
    have 1: "budget_inv cfg s1" "i < length (bb_flows s1)"
      using reconcile_inv [OF inv i] inv i that by (simp_all add: s1_def f_def)
    show ?thesis unfolding s2_def
      by (rule same_totals_inv [OF 1(1)], rule set_flow_accounts) (use 1 good_nth in \<open>auto simp: budget_inv_def good_flow_def\<close>)
  qed
  moreover have "i < length (bb_flows s2)" using i by (simp add: s2_def s1_def)
  moreover have "stall_poll cfg i whole readNow now s =
    (if \<not> fl_armed f then s else if whole then disarm_flow i s
     else if readNow \<noteq> fl_lastBytes f
     then (case fl_declared f of Some d \<Rightarrow> if d \<le> readNow - fl_startBytes f then disarm_flow i s2 else s2 | None \<Rightarrow> s2)
     else if STALL_TIMEOUT_MS \<le> now - fl_lastProgress f then destroy_flow i (release_flow i s) else s)"
    by (simp only: stall_poll_def Let_def s2_def s1_def f_def)
  ultimately show ?thesis
    using inv i abort_inv [OF inv i] disarm_inv by (auto split: option.splits)
qed

lemma middleware_inv:
  assumes inv: "budget_inv cfg s"
  shows "budget_inv cfg (budget_middleware cfg now req s)"
proof -
  define k where "k = resolveClientIp (br_client req) (bc_trustedProxies cfg)"
  define r where "r = opening_reservation cfg req"
  define f where "f = \<lparr>fl_client = k, fl_untracked = False, fl_declared = parseDeclaredLength (br_contentLength req), fl_reserved = r,
      fl_released = False, fl_armed = (0 < r), fl_startBytes = br_bytesRead req, fl_lastBytes = br_bytesRead req, fl_lastProgress = now, fl_destroyed = False\<rparr>"
  define t where "t = s\<lparr>bb_inFlight := bb_inFlight s + r, bb_clients := jm_set (bb_clients s) k (client_busy s k + r),
      bb_flows := bb_flows s @ [f], bb_answers := bb_answers s @ [Admitted]\<rparr>"
  have ref: "budget_inv cfg (refuse req a s)" for a
    by (rule same_totals_inv [OF inv]) (use inv in \<open>simp_all add: budget_inv_def accounts_def refuse_def\<close>)
  have "0 \<le> r"
    by (auto simp: r_def opening_reservation_def parseDeclaredLength_def undeclared_reservation_def Let_def num_integer_finite num_floor_ge split: option.splits if_splits)
  then have good: "good_flow cfg f"
    by (auto simp: good_flow_def f_def r_def opening_reservation_def split: option.splits)
  have "budget_inv cfg t"
    if q: "\<not> (bb_inFlight s + r > bc_budget cfg)" "\<not> (client_busy s k + r > per_client_cap cfg)"
      "\<not> (MAX_TRACKED_CLIENTS \<le> length (bb_clients s) \<and> \<not> jm_has (bb_clients s) k)"
  proof -
    have cb: "client_busy t k' = client_busy s k' + (if k' = k then r else 0)" for k'
      by (simp add: client_busy_def t_def)
    then have "client_busy t k' = held_by k' (bb_flows t)" for k'
      using inv by (simp add: held_by_def budget_inv_def accounts_def t_def f_def)
    then have "accounts cfg t"
      using inv good q(3) by (auto simp: accounts_def budget_inv_def t_def f_def length_jm_set jm_has_iff split: if_splits)
    moreover have "fits cfg t"
      using inv q(1,2) cb by (auto simp: fits_def budget_inv_def t_def)
    ultimately show ?thesis by (simp add: budget_inv_def)
  qed
  then show ?thesis
    using ref by (simp add: budget_middleware_def Let_def flip: k_def r_def) (auto simp: t_def f_def)
qed

lemma body_step_inv: "budget_inv cfg s \<Longrightarrow> budget_inv cfg (body_step cfg e s)"
  by (cases e) (auto intro: middleware_inv release_inv poll_inv disarm_inv)

interpretation body: event_machine "body_step cfg" "budget_inv cfg" for cfg
  by unfold_locales (rule body_step_inv)

lemma body_run_inv: "budget_inv cfg (body_run cfg es)"
proof -
  have "budget_inv cfg empty_budget"
    by (simp add: budget_inv_def accounts_def fits_def empty_budget_def client_busy_def held_by_def held_def jm_has_def per_client_cap_def)
  then show ?thesis unfolding body_run_def by (rule body.run_inv)
qed

section \<open>What the budget promises\<close>

lemma body_accounts:
  "let s = body_run cfg es; live = filter (\<lambda>f. \<not> fl_released f) (bb_flows s) in
     bb_inFlight s = (\<Sum>f \<leftarrow> live. fl_reserved f) \<and> bb_inFlight s \<le> max 0 (bc_budget cfg)
     \<and> (\<forall>k. client_busy s k = (\<Sum>f \<leftarrow> filter (\<lambda>f. fl_client f = k) live. fl_reserved f) \<and> client_busy s k \<le> per_client_cap cfg)
     \<and> fst ` set (bb_clients s) \<subseteq> fl_client ` set live \<and> length (bb_clients s) \<le> MAX_TRACKED_CLIENTS"
proof -
  have h: "held P fs = (\<Sum>f \<leftarrow> filter P (filter (\<lambda>f. \<not> fl_released f) fs). fl_reserved f)" for P fs
    unfolding held_def by (induction fs) auto
  have inv: "accounts cfg (body_run cfg es)" "fits cfg (body_run cfg es)" using body_run_inv [of cfg es] by (simp_all add: budget_inv_def)
  have "fst ` set (bb_clients (body_run cfg es)) \<subseteq> fl_client ` set (filter (\<lambda>f. \<not> fl_released f) (bb_flows (body_run cfg es)))"
    using inv(1) unfolding accounts_def jm_has_def by fastforce
  then show ?thesis
    using inv unfolding Let_def accounts_def fits_def held_by_def h by simp
qed

text \<open>C15. After any arrivals, ends and ticks in any order, the aggregate is exactly what the requests
  that were not released hold, every client is charged exactly what its own requests hold, no amount
  passes the budget or the share of a client, and the map keeps no client without a request in flight.\<close>

theorem body_accounts_are_exact:
  "let s = body_run cfg es; live = filter (\<lambda>f. \<not> fl_released f) (bb_flows s) in
     bb_inFlight s = (\<Sum>f \<leftarrow> live. fl_reserved f) \<and> bb_inFlight s \<le> max 0 (bc_budget cfg)
     \<and> (\<forall>k. client_busy s k = (\<Sum>f \<leftarrow> filter (\<lambda>f. fl_client f = k) live. fl_reserved f) \<and> client_busy s k \<le> per_client_cap cfg)
     \<and> fst ` set (bb_clients s) \<subseteq> fl_client ` set live \<and> length (bb_clients s) \<le> MAX_TRACKED_CLIENTS"
  by (rule body_accounts)

text \<open>Nothing leaks: once every admitted request has reached a terminal event, the aggregate is
  zero and no client is charged or tracked, whatever happened before and however often those events fire.\<close>

theorem drained_budget_is_empty:
  "bb_inFlight (body_run cfg (es @ map Terminates [0..<length (bb_flows (body_run cfg es))])) = 0
   \<and> bb_clients (body_run cfg (es @ map Terminates [0..<length (bb_flows (body_run cfg es))])) = []"
proof -
  define s where "s = body_run cfg es"
  have len: "length (bb_flows (fold (body_step cfg) (map Terminates is) t)) = length (bb_flows t)" for "is" t
    by (induction "is" arbitrary: t) simp_all
  have keep: "fl_released (bb_flows (fold (body_step cfg) (map Terminates is) t) ! j)"
    if "j < length (bb_flows t)" "j \<in> set is \<or> fl_released (bb_flows t ! j)" for "is" t j
    using that
  proof (induction "is" arbitrary: t)
    case (Cons i "is")
    have "j = i \<Longrightarrow> fl_released (bb_flows (body_step cfg (Terminates i) t) ! j)"
      and "fl_released (bb_flows t ! j) \<Longrightarrow> fl_released (bb_flows (body_step cfg (Terminates i) t) ! j)"
      using Cons.prems(1) by (cases "i = j"; simp add: release_flows)+
    then show ?case using Cons.IH [of "body_step cfg (Terminates i) t"] Cons.prems by auto
  qed simp
  define t where "t = body_run cfg (es @ map Terminates [0..<length (bb_flows s)])"
  have t: "t = fold (body_step cfg) (map Terminates [0..<length (bb_flows s)]) s" by (simp add: t_def s_def body_run_def)
  have "\<forall>f \<in> set (bb_flows t). fl_released f"
    unfolding t all_set_conv_all_nth using len keep by simp
  then have "filter (\<lambda>f. \<not> fl_released f) (bb_flows t) = []" by (simp add: filter_empty_conv)
  then have "bb_inFlight t = 0" "fst ` set (bb_clients t) = {}"
    using body_accounts [of cfg "es @ map Terminates [0..<length (bb_flows s)]", folded t_def, unfolded Let_def] by auto
  then show ?thesis by (simp add: t_def s_def)
qed

text \<open>A sender that goes silent loses its share: if no byte arrives between two ticks and the second
  comes 15 seconds after the last progress, the request is destroyed and all it held is given back.\<close>

theorem silent_sender_is_dropped:
  assumes "i < length (bb_flows (body_run cfg es))" and "fl_armed (bb_flows (body_run cfg es) ! i)"
    and "fl_lastBytes (bb_flows (body_run cfg es) ! i) = b" and "fl_lastProgress (bb_flows (body_run cfg es) ! i) + 15000 \<le> now"
  shows "bb_inFlight (body_run cfg (es @ [Tick i False b now])) = bb_inFlight (body_run cfg es) - fl_reserved (bb_flows (body_run cfg es) ! i)
    \<and> fl_released (bb_flows (body_run cfg (es @ [Tick i False b now])) ! i)
    \<and> fl_destroyed (bb_flows (body_run cfg (es @ [Tick i False b now])) ! i)"
proof -
  let ?s = "body_run cfg es"
  have "\<not> fl_released (bb_flows ?s ! i)"
    using body_run_inv [of cfg es] good_nth [of cfg ?s i] assms(1,2) by (simp add: budget_inv_def good_flow_def)
  moreover have "body_run cfg (es @ [Tick i False b now]) = destroy_flow i (release_flow i ?s)"
    using assms by (simp add: body_run_def stall_poll_def STALL_TIMEOUT_MS_def Let_def)
  ultimately show ?thesis
    using assms(1) by (simp add: destroy_flow_def release_flows release_inFlight)
qed

text \<open>A chunked body is never charged less than the opening placeholder: while it is in flight it
  holds a mebibyte, or the whole budget where that is less, however few bytes arrived, so at most
  \<open>budget div placeholder\<close> chunked bodies are in flight at once.\<close>

theorem chunked_body_keeps_placeholder:
  "int (length (filter (\<lambda>f. \<not> fl_released f \<and> fl_declared f = None \<and> 0 < fl_reserved f) (bb_flows (body_run cfg es))))
     * undeclared_reservation cfg \<le> max 0 (bc_budget cfg)"
proof -
  define fs where "fs = bb_flows (body_run cfg es)"
  have "budget_inv cfg (body_run cfg es)" by (rule body_run_inv)
  then have g: "list_all (good_flow cfg) fs" and t: "held (\<lambda>_. True) fs \<le> max 0 (bc_budget cfg)"
    by (simp_all add: budget_inv_def accounts_def fits_def fs_def)
  from g have "int (length (filter (\<lambda>f. \<not> fl_released f \<and> fl_declared f = None \<and> 0 < fl_reserved f) fs)) * undeclared_reservation cfg
      \<le> held (\<lambda>_. True) fs"
    by (induction fs) (auto simp: algebra_simps good_flow_def)
  with t show ?thesis by (simp add: fs_def)
qed

text \<open>C34. A budget below two placeholders refuses every chunked body, also on an idle gateway: the
  placeholder alone passes the share of the client.\<close>

theorem small_budget_refuses_chunked_bodies:
  assumes "bc_perClientShare cfg = None" and "bc_budget cfg < 2 * undeclared_reservation cfg" and "1 < bc_budget cfg"
    and "br_contentLength req = None" and "br_transferEncoding req \<noteq> None" and "br_contentEncoding req = None"
    and "\<not> br_answering req"
  shows "bb_answers (body_run cfg (es @ [Arrives now req])) = bb_answers (body_run cfg es) @ [Busy_503]"
proof -
  let ?s = "body_run cfg es"
  have "\<lfloor>of_int (bc_budget cfg) * (1 / 2 :: rat)\<rfloor> < undeclared_reservation cfg"
    using assms(2) by (simp add: floor_less_iff)
  moreover have "per_client_cap cfg = max 1 \<lfloor>of_int (bc_budget cfg) * (1 / 2 :: rat)\<rfloor>"
    using assms(1) by (simp add: per_client_cap_def)
  ultimately have cap: "per_client_cap cfg < undeclared_reservation cfg"
    using assms(2,3) by (auto simp: undeclared_reservation_def)
  have "accounts cfg ?s" using body_run_inv [of cfg es] by (simp add: budget_inv_def)
  then have "0 \<le> client_busy ?s k" for k
    using held_nonneg [of cfg "bb_flows ?s"] by (simp add: accounts_def held_by_def)
  then have "client_busy ?s k + undeclared_reservation cfg > per_client_cap cfg" for k
    using cap by (smt (verit))
  moreover have "opening_reservation cfg req = undeclared_reservation cfg"
    using assms(4,5) by (simp add: opening_reservation_def parseDeclaredLength_def)
  ultimately have "budget_middleware cfg now req ?s = refuse req Busy_503 ?s"
    using assms(6) by (simp add: budget_middleware_def Let_def)
  then show ?thesis using assms(7) by (simp add: body_run_def refuse_def)
qed

section \<open>Witnesses\<close>

text \<open>A gateway with a budget of one mebibyte and a client that sends nothing after its headers.\<close>

definition small_config :: budget_config where
  "small_config = \<lparr>bc_budget = 1048576, bc_trustedProxies = [], bc_perClientShare = None\<rparr>"

definition demo_upload :: "string option \<Rightarrow> body_request" where
  "demo_upload len =
     \<lparr>br_client = \<lparr>rq_ip = None, rq_remoteAddress = Some ''10.0.0.1'', rq_xff = None\<rparr>, br_contentLength = len,
      br_transferEncoding = (if len = None then Some ''chunked'' else None), br_contentEncoding = None, br_answering = False, br_bytesRead = 200\<rparr>"

lemma silent_sender_is_dropped_witness:
  "bb_inFlight (body_run small_config [Arrives 0 (demo_upload (Some ''5000'')), Tick 0 False 200 15000]) = 0"
proof -
  have "bb_flows (body_run small_config [Arrives 0 (demo_upload (Some ''5000''))]) =
      [\<lparr>fl_client = ''10.0.0.1'', fl_untracked = False, fl_declared = Some 5000, fl_reserved = 5000, fl_released = False, fl_armed = True,
        fl_startBytes = 200, fl_lastBytes = 200, fl_lastProgress = 0, fl_destroyed = False\<rparr>]"
    "bb_inFlight (body_run small_config [Arrives 0 (demo_upload (Some ''5000''))]) = 5000"
    by code_simp+
  then show ?thesis
    using silent_sender_is_dropped [of 0 small_config "[Arrives 0 (demo_upload (Some ''5000''))]" 200 15000] by simp
qed

lemma small_budget_refuses_chunked_bodies_witness:
  "bb_answers (body_run small_config [Arrives 0 (demo_upload None)]) = [Busy_503]"
proof -
  have "bb_answers (body_run small_config []) = []" by (simp add: body_run_def empty_budget_def)
  then show ?thesis
    using small_budget_refuses_chunked_bodies [of small_config "demo_upload None" "[]" 0]
    by (simp add: small_config_def demo_upload_def undeclared_reservation_def)
qed

end
