(* ===== verification/Ownership.thy ===== *)
theory Ownership
  imports Prelude
begin

text \<open>
  Which node hosts a session's engine (src/src/modules/session/session-ownership.service.ts). A
  cluster is the shared session table, a clock and the nodes. Every method that awaits the database
  is split at its awaits: what it does before a query leaves an operation in flight, and \<open>Step\<close> lets
  the database execute one operation in flight of one node, in any order, so queries of one node and
  of different nodes interleave freely. A conditional UPDATE is one step of the table.
  The clock is common to the nodes; a method reads it when it is called, not when its query runs.
\<close>

section \<open>The model\<close>

record own_row =
  or_node :: "string option"
  or_claimedAt :: "millis option"
  or_lease :: "millis option"
  or_url :: "string option"

type_synonym own_table = "string \<Rightarrow> own_row option"

text \<open>SQL comparisons with a null column are not true.\<close>

definition lease_before :: "own_row \<Rightarrow> millis \<Rightarrow> bool" where
  "lease_before r now = (case or_lease r of Some e \<Rightarrow> e < now | None \<Rightarrow> False)"

definition lease_after :: "own_row \<Rightarrow> millis \<Rightarrow> bool" where
  "lease_after r now = (case or_lease r of Some e \<Rightarrow> e > now | None \<Rightarrow> False)"

definition claimableWhere :: "string \<Rightarrow> millis \<Rightarrow> own_row \<Rightarrow> bool" where
  "claimableWhere me now r \<longleftrightarrow> or_node r = None \<or> or_node r = Some me \<or> lease_before r now"

definition claimable :: "string \<Rightarrow> millis \<Rightarrow> own_table \<Rightarrow> string list \<Rightarrow> string list" where
  "claimable me now rows ids =
     filter (\<lambda>i. case rows i of Some r \<Rightarrow> claimableWhere me now r | None \<Rightarrow> False) ids"

definition ownedByOtherLiveNode :: "string \<Rightarrow> millis \<Rightarrow> own_row \<Rightarrow> bool" where
  "ownedByOtherLiveNode me now r =
     (case or_node r of
        None \<Rightarrow> False
      | Some n \<Rightarrow> if n = [] \<or> n = me then False else lease_after r now)"

definition held_by_other :: "string \<Rightarrow> own_row \<Rightarrow> bool" where
  "held_by_other me r \<longleftrightarrow> or_node r \<noteq> None \<and> or_node r \<noteq> Some me"

definition isHeldByOtherNode :: "string \<Rightarrow> millis \<Rightarrow> own_table \<Rightarrow> string \<Rightarrow> bool" where
  "isHeldByOtherNode me now rows i =
     (case rows i of Some r \<Rightarrow> held_by_other me r \<and> lease_after r now | None \<Rightarrow> False)"

definition lapsedHeldByOthers :: "string \<Rightarrow> millis \<Rightarrow> own_table \<Rightarrow> string list \<Rightarrow> string list" where
  "lapsedHeldByOthers me now rows ids =
     filter (\<lambda>i. case rows i of Some r \<Rightarrow> held_by_other me r \<and> lease_before r now | None \<Rightarrow> False) ids"

text \<open>Operations in flight: what a method will do when its query runs or has been answered.\<close>

datatype own_op =
    OClaim string millis            \<comment> \<open>session, the \<open>now\<close> the method read\<close>
  | OClaimed string bool
  | ORelease string millis
  | OReleaseAll "string list"
  | ORenew "string list" "string list" millis   \<comment> \<open>held, live, the new expiry\<close>
  | OFind "string list"
  | OFound "string list" "string list"          \<comment> \<open>held, kept\<close>

record own_node =
  nd_url :: string
  nd_ttl :: millis
  nd_owned :: "string list"
  nd_suspended :: int
  nd_tokens :: "nat list"     \<comment> \<open>suspension tokens not yet released\<close>
  nd_next :: nat
  nd_ops :: "own_op list"
  nd_lost :: "string list list"   \<comment> \<open>calls of the lease-loss handler\<close>
  nd_until :: "string \<Rightarrow> millis option"   \<comment> \<open>the expiry this node last wrote for a session\<close>

record cluster =
  cl_now :: millis
  cl_rows :: own_table
  cl_node :: "string \<Rightarrow> own_node"

definition set_remove :: "'a \<Rightarrow> 'a list \<Rightarrow> 'a list" where
  "set_remove x xs = filter (\<lambda>y. y \<noteq> x) xs"

definition put_node :: "string \<Rightarrow> own_node \<Rightarrow> cluster \<Rightarrow> cluster" where
  "put_node n d c = c\<lparr>cl_node := (cl_node c)(n := d)\<rparr>"

definition add_op :: "own_op \<Rightarrow> own_node \<Rightarrow> own_node" where
  "add_op p d = d\<lparr>nd_ops := nd_ops d @ [p]\<rparr>"

section \<open>The methods, up to their first query\<close>

definition call_claim :: "string \<Rightarrow> string \<Rightarrow> cluster \<Rightarrow> cluster" where
  "call_claim n i c = put_node n (add_op (OClaim i (cl_now c)) (cl_node c n)) c"

definition call_release :: "string \<Rightarrow> string \<Rightarrow> cluster \<Rightarrow> cluster" where
  "call_release n i c =
     (let d = cl_node c n
      in put_node n (add_op (ORelease i (cl_now c)) (d\<lparr>nd_owned := set_remove i (nd_owned d)\<rparr>)) c)"

definition call_releaseAll :: "string \<Rightarrow> cluster \<Rightarrow> cluster" where
  "call_releaseAll n c =
     (let d = cl_node c n; ids = nd_owned d; d1 = d\<lparr>nd_owned := []\<rparr>
      in put_node n (if ids = [] then d1 else add_op (OReleaseAll ids) d1) c)"

text \<open>The liveness probe is optional; its answers at the moment of the call are an argument.\<close>

definition call_renew :: "string \<Rightarrow> (string \<Rightarrow> bool) option \<Rightarrow> cluster \<Rightarrow> cluster" where
  "call_renew n probe c =
     (let d = cl_node c n; held = nd_owned d;
          live = (case probe of Some alive \<Rightarrow> filter alive held | None \<Rightarrow> held)
      in if held = [] then c
         else put_node n
           (add_op (if live \<noteq> [] then ORenew held live (cl_now c + nd_ttl d) else OFind held) d) c)"

definition suspendLossDetection :: "string \<Rightarrow> cluster \<Rightarrow> cluster" where
  "suspendLossDetection n c =
     (let d = cl_node c n
      in put_node n (d\<lparr>nd_suspended := nd_suspended d + 1, nd_tokens := nd_next d # nd_tokens d,
           nd_next := nd_next d + 1\<rparr>) c)"

definition resume_token :: "string \<Rightarrow> nat \<Rightarrow> cluster \<Rightarrow> cluster" where
  "resume_token n t c =
     (let d = cl_node c n
      in if t \<in> set (nd_tokens d)
         then put_node n (d\<lparr>nd_suspended := nd_suspended d - 1, nd_tokens := set_remove t (nd_tokens d)\<rparr>) c
         else c)"

section \<open>The queries and their continuations\<close>

definition freed :: "own_row \<Rightarrow> own_row" where
  "freed r = r\<lparr>or_node := None, or_claimedAt := None, or_lease := None, or_url := None\<rparr>"

definition claim_update :: "string \<Rightarrow> string \<Rightarrow> millis \<Rightarrow> cluster \<Rightarrow> cluster" where
  "claim_update n i now c =
     (let d = cl_node c n in
      case cl_rows c i of
        Some r \<Rightarrow>
          if claimableWhere n now r then
            let r' = r\<lparr>or_node := Some n, or_claimedAt := Some now, or_lease := Some (now + nd_ttl d),
                  or_url := (if nd_url d = [] then None else Some (nd_url d))\<rparr>
            in put_node n (add_op (OClaimed i True) (d\<lparr>nd_until := (nd_until d)(i := Some (now + nd_ttl d))\<rparr>))
                 (c\<lparr>cl_rows := (cl_rows c)(i := Some r')\<rparr>)
          else put_node n (add_op (OClaimed i False) d) c
      | None \<Rightarrow> put_node n (add_op (OClaimed i False) d) c)"

definition claim_done :: "string \<Rightarrow> string \<Rightarrow> bool \<Rightarrow> cluster \<Rightarrow> cluster" where
  "claim_done n i claimed c =
     (if claimed then put_node n ((cl_node c n)\<lparr>nd_owned := js_insert (nd_owned (cl_node c n)) i\<rparr>) c else c)"

definition release_update :: "string \<Rightarrow> string \<Rightarrow> millis \<Rightarrow> cluster \<Rightarrow> cluster" where
  "release_update n i now c =
     (let d = cl_node c n in
      case cl_rows c i of
        Some r \<Rightarrow>
          if or_node r = Some n \<or> lease_before r now
          then put_node n (d\<lparr>nd_until := (nd_until d)(i := None)\<rparr>)
                 (c\<lparr>cl_rows := (cl_rows c)(i := Some (freed r))\<rparr>)
          else c
      | None \<Rightarrow> c)"

text \<open>An UPDATE of the rows of some ids this node holds.\<close>

definition update_held :: "string \<Rightarrow> string list \<Rightarrow> (own_row \<Rightarrow> own_row) \<Rightarrow> own_table \<Rightarrow> own_table" where
  "update_held n ids f rows =
     (\<lambda>i. case rows i of
        Some r \<Rightarrow> if i \<in> set ids \<and> or_node r = Some n then Some (f r) else Some r
      | None \<Rightarrow> None)"

definition note_until :: "string \<Rightarrow> string list \<Rightarrow> millis option \<Rightarrow> own_table \<Rightarrow> own_node \<Rightarrow> own_node" where
  "note_until n ids e rows d =
     d\<lparr>nd_until := (\<lambda>i. case rows i of
         Some r \<Rightarrow> if i \<in> set ids \<and> or_node r = Some n then e else nd_until d i
       | None \<Rightarrow> nd_until d i)\<rparr>"

definition releaseAll_update :: "string \<Rightarrow> string list \<Rightarrow> cluster \<Rightarrow> cluster" where
  "releaseAll_update n ids c =
     put_node n (note_until n ids None (cl_rows c) (cl_node c n))
       (c\<lparr>cl_rows := update_held n ids freed (cl_rows c)\<rparr>)"

definition renew_update :: "string \<Rightarrow> string list \<Rightarrow> string list \<Rightarrow> millis \<Rightarrow> cluster \<Rightarrow> cluster" where
  "renew_update n held live e c =
     put_node n (add_op (OFind held) (note_until n live (Some e) (cl_rows c) (cl_node c n)))
       (c\<lparr>cl_rows := update_held n live (\<lambda>r. r\<lparr>or_lease := Some e\<rparr>) (cl_rows c)\<rparr>)"

definition renew_find :: "string \<Rightarrow> string list \<Rightarrow> cluster \<Rightarrow> cluster" where
  "renew_find n held c =
     put_node n (add_op (OFound held (filter (\<lambda>i. case cl_rows c i of Some r \<Rightarrow> or_node r = Some n | None \<Rightarrow> False) held))
       (cl_node c n)) c"

definition renew_done :: "string \<Rightarrow> string list \<Rightarrow> string list \<Rightarrow> cluster \<Rightarrow> cluster" where
  "renew_done n held kept c =
     (let d = cl_node c n; lost = filter (\<lambda>i. i \<notin> set kept) held in
      if nd_suspended d > 0 then c
      else if lost = [] then c
      else put_node n (d\<lparr>nd_owned := filter (\<lambda>i. i \<notin> set lost) (nd_owned d), nd_lost := nd_lost d @ [lost]\<rparr>) c)"

fun op_exec :: "string \<Rightarrow> own_op \<Rightarrow> cluster \<Rightarrow> cluster" where
  "op_exec n (OClaim i now) c = claim_update n i now c"
| "op_exec n (OClaimed i ok) c = claim_done n i ok c"
| "op_exec n (ORelease i now) c = release_update n i now c"
| "op_exec n (OReleaseAll ids) c = releaseAll_update n ids c"
| "op_exec n (ORenew held live e) c = renew_update n held live e c"
| "op_exec n (OFind held) c = renew_find n held c"
| "op_exec n (OFound held kept) c = renew_done n held kept c"

text \<open>A failed query: the promise rejects, the method ends and nothing else happens.\<close>

definition drop_op :: "string \<Rightarrow> own_op \<Rightarrow> cluster \<Rightarrow> cluster" where
  "drop_op n p c = put_node n ((cl_node c n)\<lparr>nd_ops := remove1 p (nd_ops (cl_node c n))\<rparr>) c"

datatype own_event =
    Tick nat
  | Claim string string
  | Release string string
  | ReleaseAll string
  | Renew string "(string \<Rightarrow> bool) option"
  | Step string own_op
  | Fail string own_op
  | Suspend string
  | Resume string nat
  | Crash string

fun own_exec :: "own_event \<Rightarrow> cluster \<Rightarrow> cluster" where
  "own_exec (Tick k) c = c\<lparr>cl_now := cl_now c + int k\<rparr>"
| "own_exec (Claim n i) c = call_claim n i c"
| "own_exec (Release n i) c = call_release n i c"
| "own_exec (ReleaseAll n) c = call_releaseAll n c"
| "own_exec (Renew n probe) c = call_renew n probe c"
| "own_exec (Step n p) c = (if p \<in> set (nd_ops (cl_node c n)) then op_exec n p (drop_op n p c) else c)"
| "own_exec (Fail n p) c = (if p \<in> set (nd_ops (cl_node c n)) then drop_op n p c else c)"
| "own_exec (Suspend n) c = suspendLossDetection n c"
| "own_exec (Resume n t) c = resume_token n t c"
| "own_exec (Crash n) c = put_node n ((cl_node c n)\<lparr>nd_owned := [], nd_ops := []\<rparr>) c"

section \<open>Safety invariant\<close>

fun op_time :: "own_op \<Rightarrow> millis option" where
  "op_time (OClaim i now) = Some now"
| "op_time (ORelease i now) = Some now"
| "op_time _ = None"

definition times_ok :: "cluster \<Rightarrow> bool" where
  "times_ok c \<longleftrightarrow> (\<forall>n. \<forall>p \<in> set (nd_ops (cl_node c n)). \<forall>t. op_time p = Some t \<longrightarrow> t \<le> cl_now c)"

definition leases_ok :: "cluster \<Rightarrow> bool" where
  "leases_ok c \<longleftrightarrow> (\<forall>n i e. nd_until (cl_node c n) i = Some e \<and> cl_now c \<le> e \<longrightarrow>
     (\<exists>r. cl_rows c i = Some r \<and> or_node r = Some n \<and> or_lease r = Some e))"

definition own_inv :: "cluster \<Rightarrow> bool" where
  "own_inv c \<longleftrightarrow> times_ok c \<and> leases_ok c"

lemma put_node_simps [simp]:
  "cl_now (put_node n d c) = cl_now c" "cl_rows (put_node n d c) = cl_rows c"
  "cl_node (put_node n d c) m = (if m = n then d else cl_node c m)"
  by (simp_all add: put_node_def)

lemma add_op_simps [simp]:
  "nd_ops (add_op p d) = nd_ops d @ [p]" "nd_until (add_op p d) = nd_until d" "nd_owned (add_op p d) = nd_owned d"
  "nd_ttl (add_op p d) = nd_ttl d" "nd_suspended (add_op p d) = nd_suspended d" "nd_lost (add_op p d) = nd_lost d"
  by (simp_all add: add_op_def)

lemma drop_op_simps [simp]:
  "cl_now (drop_op n p c) = cl_now c" "cl_rows (drop_op n p c) = cl_rows c"
  "nd_until (cl_node (drop_op n p c) m) = nd_until (cl_node c m)"
  "nd_ops (cl_node (drop_op n p c) m) = (if m = n then remove1 p (nd_ops (cl_node c n)) else nd_ops (cl_node c m))"
  "nd_ttl (cl_node (drop_op n p c) m) = nd_ttl (cl_node c m)"
  by (simp_all add: drop_op_def)

lemma note_until_simps [simp]: "nd_ops (note_until n ids e rows d) = nd_ops d"
  by (simp add: note_until_def)

text \<open>A step that leaves the table and the last-written expiries alone keeps the leases.\<close>

lemma leases_frame:
  "cl_rows c' = cl_rows c \<Longrightarrow> cl_now c' = cl_now c \<Longrightarrow> (\<And>m. nd_until (cl_node c' m) = nd_until (cl_node c m))
   \<Longrightarrow> leases_ok c' = leases_ok c"
  by (simp add: leases_ok_def)

lemma times_frame:
  "times_ok c \<Longrightarrow> cl_now c' = cl_now c
   \<Longrightarrow> (\<And>m p. p \<in> set (nd_ops (cl_node c' m)) \<Longrightarrow> p \<in> set (nd_ops (cl_node c m)) \<or> op_time p = None \<or> op_time p = Some (cl_now c))
   \<Longrightarrow> times_ok c'"
  unfolding times_ok_def by fastforce

text \<open>
  The one way a step may change a row: it was free for the node, or lapsed. No other node's
  unexpired lease is on such a row.
\<close>

lemma row_not_protected:
  assumes "leases_ok c" and "cl_rows c i = Some r" and "or_node r = None \<or> or_node r = Some n \<or> lease_before r now"
    and "now \<le> cl_now c" and "m \<noteq> n" and "nd_until (cl_node c m) i = Some e"
  shows "\<not> cl_now c \<le> e"
proof
  assume "cl_now c \<le> e"
  with assms(1,6) have "\<exists>r'. cl_rows c i = Some r' \<and> or_node r' = Some m \<and> or_lease r' = Some e"
    unfolding leases_ok_def by blast
  with assms(2,3,4,5) \<open>cl_now c \<le> e\<close> show False by (auto simp: lease_before_def)
qed

lemma claim_update_leases:
  assumes "leases_ok c" and "now \<le> cl_now c"
  shows "leases_ok (claim_update n i now c)"
proof (cases "\<exists>r. cl_rows c i = Some r \<and> claimableWhere n now r")
  case True
  then obtain r where r: "cl_rows c i = Some r" "claimableWhere n now r" by blast
  have np: "\<not> cl_now c \<le> e" if "m \<noteq> n" "nd_until (cl_node c m) i = Some e" for m e
    using row_not_protected [OF assms(1) r(1) _ assms(2) that] r(2) by (simp add: claimableWhere_def)
  show ?thesis using assms(1) r np
    unfolding leases_ok_def by (auto simp: claim_update_def Let_def)
next
  case False
  then show ?thesis using assms(1)
    by (subst leases_frame [of _ c]) (auto simp: claim_update_def Let_def split: option.splits)
qed

lemma release_update_leases:
  assumes "leases_ok c" and "now \<le> cl_now c"
  shows "leases_ok (release_update n i now c)"
proof (cases "\<exists>r. cl_rows c i = Some r \<and> (or_node r = Some n \<or> lease_before r now)")
  case True
  then obtain r where r: "cl_rows c i = Some r" "or_node r = Some n \<or> lease_before r now" by blast
  have np: "\<not> cl_now c \<le> e" if "m \<noteq> n" "nd_until (cl_node c m) i = Some e" for m e
    using row_not_protected [OF assms(1) r(1) _ assms(2) that] r(2) by blast
  show ?thesis using assms(1) r np
    unfolding leases_ok_def by (auto simp: release_update_def Let_def)
next
  case False
  then show ?thesis using assms(1)
    by (subst leases_frame [of _ c]) (auto simp: release_update_def Let_def split: option.splits)
qed

lemma leases_row:
  "leases_ok c \<Longrightarrow> cl_rows c i = Some r \<Longrightarrow> or_node r = Some n \<Longrightarrow> m \<noteq> n \<Longrightarrow> nd_until (cl_node c m) i = Some e \<Longrightarrow> \<not> cl_now c \<le> e"
  by (rule row_not_protected [where n = n and now = "cl_now c"]) auto

lemma held_update_leases:
  assumes "leases_ok c" and "e = None \<or> (\<exists>x. e = Some x \<and> (\<forall>r. or_node (f r) = or_node r \<and> or_lease (f r) = Some x))"
  shows "leases_ok (put_node n (note_until n ids e (cl_rows c) (cl_node c n))
    (c\<lparr>cl_rows := update_held n ids f (cl_rows c)\<rparr>))"
  unfolding leases_ok_def
proof (intro allI impI)
  fix m i x
  let ?c = "put_node n (note_until n ids e (cl_rows c) (cl_node c n)) (c\<lparr>cl_rows := update_held n ids f (cl_rows c)\<rparr>)"
  assume a: "nd_until (cl_node ?c m) i = Some x \<and> cl_now ?c \<le> x"
  show "\<exists>r. cl_rows ?c i = Some r \<and> or_node r = Some m \<and> or_lease r = Some x"
  proof (cases "\<exists>r. cl_rows c i = Some r \<and> i \<in> set ids \<and> or_node r = Some n")
    case True
    then obtain r where r: "cl_rows c i = Some r" "i \<in> set ids" "or_node r = Some n" by blast
    have "m = n"
      using leases_row [OF assms(1) r(1,3), of m x] a by (auto split: if_splits)
    with a r assms(2) show ?thesis by (auto simp: note_until_def update_held_def)
  next
    case False
    then have "nd_until (cl_node c m) i = Some x" "cl_rows ?c i = cl_rows c i"
      using a by (auto simp: note_until_def update_held_def split: option.splits if_splits)
    then show ?thesis using assms(1) a unfolding leases_ok_def by simp
  qed
qed

lemma times_dropped: "times_ok c \<Longrightarrow> times_ok (drop_op n p c)"
  by (rule times_frame) (auto split: if_splits dest: notin_set_remove1 [THEN contrapos_nn] set_remove1_subset [THEN subsetD])

lemma op_exec_times: "times_ok c \<Longrightarrow> times_ok (op_exec n p c)"
  by (cases p; rule times_frame, assumption)
    (auto simp: claim_update_def claim_done_def release_update_def releaseAll_update_def renew_update_def
      renew_find_def renew_done_def Let_def split: option.splits if_splits)

lemma op_exec_leases:
  assumes "leases_ok c" and "\<And>t. op_time p = Some t \<Longrightarrow> t \<le> cl_now c"
  shows "leases_ok (op_exec n p c)"
proof (cases p)
  case (OReleaseAll ids)
  then show ?thesis using held_update_leases [OF assms(1), of None freed n ids] by (simp add: releaseAll_update_def)
next
  case (ORenew held live e)
  have "leases_ok (put_node n (note_until n live (Some e) (cl_rows c) (cl_node c n))
      (c\<lparr>cl_rows := update_held n live (\<lambda>r. r\<lparr>or_lease := Some e\<rparr>) (cl_rows c)\<rparr>))"
    by (rule held_update_leases [OF assms(1)]) simp
  then show ?thesis using ORenew by (subst leases_frame) (auto simp: renew_update_def)
next
  case (OClaimed i ok)
  then show ?thesis using assms(1) by (subst leases_frame [of _ c]) (auto simp: claim_done_def)
next
  case (OFind held)
  then show ?thesis using assms(1) by (subst leases_frame [of _ c]) (auto simp: renew_find_def)
next
  case (OFound held kept)
  then show ?thesis using assms(1) by (subst leases_frame [of _ c]) (auto simp: renew_done_def Let_def)
qed (use assms in \<open>auto intro: claim_update_leases release_update_leases\<close>)

lemma own_exec_inv: "own_inv c \<Longrightarrow> own_inv (own_exec e c)"
proof (cases e)
  case (Tick k)
  assume "own_inv c"
  then show ?thesis using Tick by (fastforce simp: own_inv_def times_ok_def leases_ok_def)
next
  case (Step n p)
  assume inv: "own_inv c"
  show ?thesis
  proof (cases "p \<in> set (nd_ops (cl_node c n))")
    case True
    then have "t \<le> cl_now c" if "op_time p = Some t" for t
      using inv that unfolding own_inv_def times_ok_def by blast
    moreover have "leases_ok (drop_op n p c)" using inv by (subst leases_frame [of _ c]) (auto simp: own_inv_def)
    ultimately show ?thesis using Step True inv
      by (simp add: own_inv_def op_exec_times times_dropped op_exec_leases)
  next
    case False
    with Step inv show ?thesis by simp
  qed
next
  case (Fail n p)
  assume "own_inv c"
  then show ?thesis using Fail
    by (auto simp: own_inv_def times_dropped intro: leases_frame [THEN iffD2])
next
  case (Crash n)
  assume "own_inv c"
  then show ?thesis using Crash by (auto simp: own_inv_def times_ok_def leases_ok_def)
qed (auto simp: own_inv_def call_claim_def call_release_def call_releaseAll_def call_renew_def
      suspendLossDetection_def resume_token_def Let_def times_ok_def leases_ok_def split: if_splits)

interpretation nodes: event_machine own_exec own_inv
  by unfold_locales (rule own_exec_inv)

text \<open>A cluster of idle nodes over any table: nothing owned, nothing in flight.\<close>

definition fresh_node :: "string \<Rightarrow> millis \<Rightarrow> own_node" where
  "fresh_node url ttl = \<lparr>nd_url = url, nd_ttl = ttl, nd_owned = [], nd_suspended = 0, nd_tokens = [], nd_next = 0,
     nd_ops = [], nd_lost = [], nd_until = (\<lambda>_. None)\<rparr>"

definition fresh_cluster :: "millis \<Rightarrow> own_table \<Rightarrow> (string \<Rightarrow> string \<times> millis) \<Rightarrow> cluster" where
  "fresh_cluster now rows cfg = \<lparr>cl_now = now, cl_rows = rows, cl_node = (\<lambda>n. fresh_node (fst (cfg n)) (snd (cfg n)))\<rparr>"

lemma fresh_inv: "own_inv (fresh_cluster now rows cfg)"
  by (simp add: own_inv_def times_ok_def leases_ok_def fresh_cluster_def fresh_node_def)

section \<open>Properties\<close>

text \<open>
  C1. One engine per account: under every interleaving of claims, releases, renewals, failures,
  crashes and queries of any number of nodes, an expiry that a node last wrote for a session and that
  has not passed yet is what the table says, under that node's name. In particular no two nodes ever
  hold unexpired leases on the same session.
\<close>

theorem lease_is_exclusive:
  "let c = fold own_exec es (fresh_cluster now rows cfg) in
     (\<forall>n i e. if nd_until (cl_node c n) i = Some e \<and> cl_now c \<le> e
        then map_option (\<lambda>r. (or_node r, or_lease r)) (cl_rows c i) = Some (Some n, Some e) else True)
     \<and> \<not> (\<exists>n m i e f. n \<noteq> m \<and> nd_until (cl_node c n) i = Some e \<and> nd_until (cl_node c m) i = Some f
          \<and> cl_now c \<le> e \<and> cl_now c \<le> f)"
proof -
  let ?c = "fold own_exec es (fresh_cluster now rows cfg)"
  have "leases_ok ?c" using nodes.run_inv [OF fresh_inv] by (simp add: own_inv_def)
  then have *: "\<exists>r. cl_rows ?c i = Some r \<and> or_node r = Some n \<and> or_lease r = Some e"
    if "nd_until (cl_node ?c n) i = Some e" "cl_now ?c \<le> e" for n i e
    using that unfolding leases_ok_def by blast
  have "\<not> (\<exists>n m i e f. n \<noteq> m \<and> nd_until (cl_node ?c n) i = Some e \<and> nd_until (cl_node ?c m) i = Some f
          \<and> cl_now ?c \<le> e \<and> cl_now ?c \<le> f)"
    using * by (metis option.inject)
  moreover have "map_option (\<lambda>r. (or_node r, or_lease r)) (cl_rows ?c i) = Some (Some n, Some e)"
    if "nd_until (cl_node ?c n) i = Some e" "cl_now ?c \<le> e" for n i e
    using * [OF that] by auto
  ultimately show ?thesis by (simp add: Let_def)
qed

text \<open>
  Two nodes racing for the same claimable session cannot both succeed, in whichever order their
  updates reach the table: the first takes the row, the second is refused unless the lease the
  first one wrote has lapsed by the second one's clock.
\<close>

theorem racing_claims:
  assumes "cl_rows c i = Some r" and "claimableWhere n now1 r" and "n \<noteq> m"
    and "OClaim i now1 \<in> set (nd_ops (cl_node c n))" and "OClaim i now2 \<in> set (nd_ops (cl_node c m))"
    and "now2 \<le> now1 + nd_ttl (cl_node c n)"
  shows "let c' = own_exec (Step m (OClaim i now2)) (own_exec (Step n (OClaim i now1)) c) in
     map_option or_node (cl_rows c' i) = Some (Some n)
     \<and> last (nd_ops (cl_node c' n)) = OClaimed i True \<and> last (nd_ops (cl_node c' m)) = OClaimed i False"
  using assms by (simp add: claim_update_def Let_def claimableWhere_def lease_before_def)

theorem racing_claims_witness:
  "let c = fold own_exec [Claim ''a'' ''s'', Tick 5, Claim ''b'' ''s'']
        (fresh_cluster 100 [''s'' \<mapsto> \<lparr>or_node = Some ''dead'', or_claimedAt = None, or_lease = Some 90, or_url = None\<rparr>]
          (\<lambda>_. (''http'', 60)));
      c' = own_exec (Step ''b'' (OClaim ''s'' 105)) (own_exec (Step ''a'' (OClaim ''s'' 100)) c) in
     map_option or_node (cl_rows c' ''s'') = Some (Some ''a'')
     \<and> last (nd_ops (cl_node c' ''a'')) = OClaimed ''s'' True \<and> last (nd_ops (cl_node c' ''b'')) = OClaimed ''s'' False"
proof -
  let ?r = "\<lparr>or_node = Some ''dead'', or_claimedAt = None, or_lease = Some 90, or_url = None\<rparr>"
  let ?c = "fold own_exec [Claim ''a'' ''s'', Tick 5, Claim ''b'' ''s''] (fresh_cluster 100 [''s'' \<mapsto> ?r] (\<lambda>_. (''http'', 60)))"
  have "cl_rows ?c ''s'' = Some ?r" "OClaim ''s'' 100 \<in> set (nd_ops (cl_node ?c ''a''))"
    "OClaim ''s'' 105 \<in> set (nd_ops (cl_node ?c ''b''))" "nd_ttl (cl_node ?c ''a'') = 60"
    by (simp_all add: fresh_cluster_def fresh_node_def call_claim_def add_op_def put_node_def)
  moreover have "claimableWhere ''a'' 100 ?r" by (simp add: claimableWhere_def lease_before_def)
  ultimately show ?thesis
    using racing_claims [of ?c "''s''" ?r "''a''" 100 "''b''" 105] unfolding Let_def by simp
qed

text \<open>
  A renewal settles what the node believes. When the read of the held rows and its continuation
  run without loss detection suspended, the sessions of that renewal the node keeps are exactly those
  it still owned and whose row names it; the lost ones are reported to the handler, and only when
  there are some.
\<close>

theorem renewal_settles_ownership:
  assumes "OFind held \<in> set (nd_ops (cl_node c n))" and "nd_suspended (cl_node c n) \<le> 0"
    and "c1 = own_exec (Step n (OFind held)) c"
    and "kept = filter (\<lambda>i. case cl_rows c i of Some r \<Rightarrow> or_node r = Some n | None \<Rightarrow> False) held"
  shows "let c2 = own_exec (Step n (OFound held kept)) c1 in
     set (nd_owned (cl_node c2 n)) = {i \<in> set (nd_owned (cl_node c n)). i \<notin> set held \<or> i \<in> set kept}
     \<and> nd_lost (cl_node c2 n) = nd_lost (cl_node c n)
          @ (if set held \<subseteq> set kept then [] else [filter (\<lambda>i. i \<notin> set kept) held])"
proof -
  have o: "nd_owned (cl_node (drop_op n p d) n) = nd_owned (cl_node d n)"
      "nd_lost (cl_node (drop_op n p d) n) = nd_lost (cl_node d n)"
      "nd_suspended (cl_node (drop_op n p d) n) = nd_suspended (cl_node d n)" for p d
    by (simp_all add: drop_op_def)
  have lost: "filter (\<lambda>i. i \<notin> set kept) held = [] \<longleftrightarrow> set held \<subseteq> set kept" by (auto simp: filter_empty_conv)
  show ?thesis
    using assms(1,2) lost unfolding assms(3) Let_def
    by (auto simp: renew_find_def renew_done_def o assms(4) Let_def)
qed

lemmas own_eval =
  fresh_cluster_def fresh_node_def call_claim_def call_release_def call_renew_def add_op_def put_node_def drop_op_def
  claim_update_def claim_done_def release_update_def renew_update_def renew_find_def renew_done_def note_until_def
  update_held_def set_remove_def js_insert_def claimableWhere_def lease_before_def lease_after_def freed_def Let_def

definition free_row :: own_row where
  "free_row = \<lparr>or_node = None, or_claimedAt = None, or_lease = None, or_url = None\<rparr>"

theorem renewal_settles_ownership_witness:
  "let c = fold own_exec [Claim ''a'' ''s'', Step ''a'' (OClaim ''s'' 0), Step ''a'' (OClaimed ''s'' True),
          Renew ''a'' (Some (\<lambda>_. False)), Tick 61, Claim ''b'' ''s'', Step ''b'' (OClaim ''s'' 61)]
        (fresh_cluster 0 [''s'' \<mapsto> free_row] (\<lambda>_. ([], 60)));
      c2 = own_exec (Step ''a'' (OFound [''s''] [])) (own_exec (Step ''a'' (OFind [''s''])) c) in
     set (nd_owned (cl_node c2 ''a'')) = {} \<and> nd_lost (cl_node c2 ''a'') = [[''s'']]"
proof -
  let ?c = "fold own_exec [Claim ''a'' ''s'', Step ''a'' (OClaim ''s'' 0), Step ''a'' (OClaimed ''s'' True),
          Renew ''a'' (Some (\<lambda>_. False)), Tick 61, Claim ''b'' ''s'', Step ''b'' (OClaim ''s'' 61)]
        (fresh_cluster 0 [''s'' \<mapsto> free_row] (\<lambda>_. ([], 60)))"
  have "OFind [''s''] \<in> set (nd_ops (cl_node ?c ''a''))" "nd_suspended (cl_node ?c ''a'') \<le> 0"
    "filter (\<lambda>i. case cl_rows ?c i of Some r \<Rightarrow> or_node r = Some ''a'' | None \<Rightarrow> False) [''s''] = []"
    "nd_owned (cl_node ?c ''a'') = [''s'']" "nd_lost (cl_node ?c ''a'') = []"
    by (simp_all add: own_eval free_row_def)
  with renewal_settles_ownership [of "[''s'']" ?c "''a''" "own_exec (Step ''a'' (OFind [''s''])) ?c" "[]"]
  show ?thesis unfolding Let_def by simp
qed

text \<open>
  The predicates that decide about a row: on every row exactly one of ``this node may claim it''
  and ``another node holds it live'' is true, except a foreign row whose lease is missing or expires
  at this very instant, for which neither is. The two forms of ``held live'' agree on every row, and
  a row is adoptable by the takeover sweep only if it may be claimed.
\<close>

theorem claim_predicates:
  "(if held_by_other me r \<and> (or_lease r = None \<or> or_lease r = Some now)
     then \<not> claimableWhere me now r \<and> \<not> lease_after r now
     else claimableWhere me now r = (\<not> (held_by_other me r \<and> lease_after r now)))
   \<and> (if or_node r = Some [] then True
      else ownedByOtherLiveNode me now r = isHeldByOtherNode me now [i \<mapsto> r] i)
   \<and> set (lapsedHeldByOthers me now rows ids) \<subseteq> set (claimable me now rows ids)"
  by (auto simp: held_by_other_def claimableWhere_def lease_after_def lease_before_def ownedByOtherLiveNode_def
      isHeldByOtherNode_def lapsedHeldByOthers_def claimable_def split: option.splits)

text \<open>
  A release that overtakes the continuation of a claim is undone locally: the release removes the
  session before the claim's continuation adds it, so the node ends up owning a session whose row it
  has freed, and keeps answering that it owns it after a peer has taken the row.
\<close>

theorem release_during_claim_leaves_owner:
  "let c = fold own_exec [Claim ''a'' ''s'', Release ''a'' ''s'', Step ''a'' (OClaim ''s'' 0), Step ''a'' (OClaimed ''s'' True),
          Step ''a'' (ORelease ''s'' 0), Claim ''b'' ''s'', Step ''b'' (OClaim ''s'' 0), Step ''b'' (OClaimed ''s'' True)]
        (fresh_cluster 0 [''s'' \<mapsto> free_row] (\<lambda>_. ([], 60))) in
     ''s'' \<in> set (nd_owned (cl_node c ''a'')) \<and> ''s'' \<in> set (nd_owned (cl_node c ''b''))
     \<and> map_option or_node (cl_rows c ''s'') = Some (Some ''b'') \<and> nd_ops (cl_node c ''a'') = []"
  by (simp add: own_eval free_row_def)

text \<open>
  A renewal in flight reports a session as lost that was released and claimed again meanwhile: the
  rows were read between the release and the new claim, and the continuation compares them with the
  set captured at the start, so the node forgets a session its own live lease still covers.
\<close>

theorem renewal_forgets_reclaimed_session:
  "let c = fold own_exec [Claim ''a'' ''s'', Step ''a'' (OClaim ''s'' 0), Step ''a'' (OClaimed ''s'' True), Renew ''a'' None,
          Step ''a'' (ORenew [''s''] [''s''] 60), Release ''a'' ''s'', Step ''a'' (ORelease ''s'' 0), Step ''a'' (OFind [''s'']),
          Claim ''a'' ''s'', Step ''a'' (OClaim ''s'' 0), Step ''a'' (OClaimed ''s'' True), Step ''a'' (OFound [''s''] [])]
        (fresh_cluster 0 [''s'' \<mapsto> free_row] (\<lambda>_. ([], 60))) in
     nd_owned (cl_node c ''a'') = [] \<and> nd_lost (cl_node c ''a'') = [[''s'']]
     \<and> map_option (\<lambda>r. (or_node r, or_lease r)) (cl_rows c ''s'') = Some (Some ''a'', Some 60)"
  by (simp add: own_eval free_row_def)

end
