(* ===== verification/Send_Pacing.thy ===== *)
theory Send_Pacing
  imports Js_Number
begin

text \<open>
  The pacing governor of outbound sends (src/src/modules/message/send-pacing.service.ts and
  send-pacing.config.ts): the policy parsed from the environment, the failure-streak breaker, the
  daily and cold-reachout caps and the sampling of refusals. The database is an argument, a snapshot
  of the messages and the sessions; a check is one step on one snapshot and one reading of the clock.
  A refusal is a value, \<open>Inl\<close>; the text of its message is left out.
\<close>

section \<open>The policy\<close>

record send_config =
  sc_enabled :: bool
  sc_warmup :: "int list"
  sc_cold :: "int list"
  sc_threshold :: int
  sc_cooldown :: int

definition default_warmup :: "int list" where
  "default_warmup = [20, 40, 80, 160, 320, 640, 1000]"

definition default_cold :: "int list" where
  "default_cold = [5, 10, 20, 40, 60, 80, 100]"

definition bad_cap :: "jsnum \<Rightarrow> bool" where
  "bad_cap n \<longleftrightarrow> \<not> num_finite n \<or> \<not> num_le 1 n \<or> \<not> num_ge 100000 n"

text \<open>The identity test against the cold default: the two defaults differ as lists.\<close>

definition parseSchedule :: "string option \<Rightarrow> int list \<Rightarrow> int list" where
  "parseSchedule raw fallback =
     (case raw of
        None \<Rightarrow> fallback
      | Some r \<Rightarrow>
          if js_trim r = [] then (if fallback = default_cold then [] else fallback)
          else let parts = map (\<lambda>p. js_Number (js_trim p)) (split_on CHR '','' r) in
            if parts = [] \<or> list_ex bad_cap parts then fallback else map num_floor parts)"

definition parsePositiveInt :: "string option \<Rightarrow> int \<Rightarrow> int \<Rightarrow> int" where
  "parsePositiveInt raw fallback mn =
     (let v = (case raw of None \<Rightarrow> NaN | Some r \<Rightarrow> js_Number r) in
      if \<not> num_finite v \<or> \<not> num_le mn v then fallback else num_floor v)"

record pacing_env =
  SEND_PACING_ENABLED :: "string option"
  SEND_PACING_WARMUP_SCHEDULE :: "string option"
  SEND_PACING_COLD_DAILY_CAP :: "string option"
  SEND_PACING_BREAKER_THRESHOLD :: "string option"
  SEND_PACING_BREAKER_COOLDOWN_MS :: "string option"

definition computeSendPacingConfig :: "pacing_env \<Rightarrow> send_config" where
  "computeSendPacingConfig env =
     \<lparr>sc_enabled = (SEND_PACING_ENABLED env = Some ''true''),
      sc_warmup = parseSchedule (SEND_PACING_WARMUP_SCHEDULE env) default_warmup,
      sc_cold = parseSchedule (SEND_PACING_COLD_DAILY_CAP env) default_cold,
      sc_threshold = parsePositiveInt (SEND_PACING_BREAKER_THRESHOLD env) 5 1,
      sc_cooldown = parsePositiveInt (SEND_PACING_BREAKER_COOLDOWN_MS env) (15 * 60000) 1000\<rparr>"

section \<open>Ids and days\<close>

definition DAY_MS :: int where
  "DAY_MS = 86400000"

definition startOfUtcDay :: "millis \<Rightarrow> millis" where
  "startOfUtcDay at = at - at mod DAY_MS"

text \<open>\<open>Math.ceil(x / 1000)\<close> on whole milliseconds.\<close>

definition ceil_seconds :: "millis \<Rightarrow> int" where
  "ceil_seconds x = - ((- x) div 1000)"

definition secondsUntilNextUtcDay :: "millis \<Rightarrow> int" where
  "secondsUntilNextUtcDay now = max 1 (ceil_seconds (startOfUtcDay now + DAY_MS - now))"

definition dialectVariants :: "string \<Rightarrow> string list" where
  "dialectVariants chatId =
     (let lower = js_lower chatId in
      if ends_with ''@c.us'' lower then [chatId, take (length chatId - 5) chatId @ ''@s.whatsapp.net'']
      else if ends_with ''@s.whatsapp.net'' lower then [chatId, take (length chatId - 15) chatId @ ''@c.us'']
      else if 5 \<le> length (js_trim chatId) \<and> list_all is_digit (js_trim chatId)
        then let digits = js_trim chatId in [digits, digits @ ''@c.us'', digits @ ''@s.whatsapp.net'']
      else [chatId])"

text \<open>The SQL function \<open>REPLACE\<close>, for a needle that is not empty.\<close>

function sql_replace :: "string \<Rightarrow> string \<Rightarrow> string \<Rightarrow> string" where
  "sql_replace a b s =
     (if a = [] \<or> s = [] then s
      else if starts_with a s then b @ sql_replace a b (drop (length a) s)
      else hd s # sql_replace a b (tl s))"
  by pat_completeness auto

termination
  by (relation "measure (\<lambda>(a, b, s). length s)") (auto simp: less_Suc_eq_le)

declare sql_replace.simps [simp del]

definition neutral_spelling :: "string \<Rightarrow> string" where
  "neutral_spelling = sql_replace ''@s.whatsapp.net'' ''@c.us''"

definition DIALECT_PAIR :: "string \<Rightarrow> string list" where
  "DIALECT_PAIR chatId = [neutral_spelling chatId, sql_replace ''@c.us'' ''@s.whatsapp.net'' chatId]"

section \<open>The database\<close>

record msg_row =
  mr_session :: string
  mr_chat :: string
  mr_outgoing :: bool
  mr_createdAt :: millis

record pacing_db =
  db_messages :: "msg_row list"
  db_sessions :: "(string, millis) jsmap"   \<comment> \<open>session id to \<open>createdAt\<close>\<close>

definition sentToday :: "pacing_db \<Rightarrow> string \<Rightarrow> millis \<Rightarrow> int" where
  "sentToday db sid dayStart =
     int (length (filter (\<lambda>m. mr_session m = sid \<and> mr_outgoing m \<and> mr_createdAt m \<ge> dayStart) (db_messages db)))"

definition outgoing_today :: "pacing_db \<Rightarrow> string \<Rightarrow> millis \<Rightarrow> string list \<Rightarrow> msg_row list" where
  "outgoing_today db sid dayStart chats =
     filter (\<lambda>r. mr_session r = sid \<and> mr_chat r \<in> set chats \<and> mr_outgoing r \<and> mr_createdAt r \<ge> dayStart) (db_messages db)"

definition min_created :: "msg_row list \<Rightarrow> millis option" where
  "min_created rs = (if rs = [] then None else Some (Min (set (map mr_createdAt rs))))"

definition cold_row :: "pacing_db \<Rightarrow> string \<Rightarrow> millis \<Rightarrow> msg_row \<Rightarrow> bool" where
  "cold_row db sid dayStart m \<longleftrightarrow>
     mr_session m = sid \<and> mr_outgoing m \<and> mr_createdAt m \<ge> dayStart
     \<and> \<not> list_ex (\<lambda>p. mr_session p = sid \<and> mr_chat p \<in> set (DIALECT_PAIR (mr_chat m)) \<and> mr_createdAt p < dayStart)
          (db_messages db)
     \<and> \<not> list_ex (\<lambda>i. mr_session i = sid \<and> mr_chat i \<in> set (DIALECT_PAIR (mr_chat m)) \<and> \<not> mr_outgoing i
            \<and> (case min_created (outgoing_today db sid dayStart (DIALECT_PAIR (mr_chat m))) of
                 Some first \<Rightarrow> mr_createdAt i < first | None \<Rightarrow> False))
          (db_messages db)"

definition countColdReachoutsToday :: "pacing_db \<Rightarrow> string \<Rightarrow> millis \<Rightarrow> int" where
  "countColdReachoutsToday db sid dayStart =
     int (length (remdups (map (\<lambda>m. neutral_spelling (mr_chat m)) (filter (cold_row db sid dayStart) (db_messages db)))))"

definition chat_known :: "pacing_db \<Rightarrow> string \<Rightarrow> string list \<Rightarrow> bool" where
  "chat_known db sid ids = list_ex (\<lambda>m. mr_session m = sid \<and> mr_chat m \<in> set ids) (db_messages db)"

section \<open>The service\<close>

datatype refusal_reason = DailyCap | ColdDailyCap | BreakerOpen

record breaker_state =
  bs_failures :: int
  bs_openedAt :: "millis option"

record refusal_sample =
  rs_count :: int
  rs_since :: millis

record refusal_audit =
  ra_session :: string
  ra_rule :: refusal_reason
  ra_at :: millis
  ra_suppressed :: int

record pacing =
  breakers :: "(string, breaker_state) jsmap"
  groupTally :: "(string, millis \<times> int) jsmap"
  samples :: "(string, refusal_sample) jsmap"
  refusals :: "refusal_reason list"       \<comment> \<open>the metric: one entry per refusal\<close>
  audits :: "refusal_audit list"
  trips :: "(string \<times> int) list"          \<comment> \<open>breaker-tripped audit rows\<close>

definition pacing_init :: pacing where
  "pacing_init = \<lparr>breakers = [], groupTally = [], samples = [], refusals = [], audits = [], trips = []\<rparr>"

record pacing_error =
  pe_reason :: refusal_reason
  pe_retryAfter :: int

definition REFUSAL_AUDIT_WINDOW_MS :: millis where
  "REFUSAL_AUDIT_WINDOW_MS = 60000"

definition MAX_REFUSAL_KEYS :: nat where
  "MAX_REFUSAL_KEYS = 1000"

definition put_sample :: "pacing \<Rightarrow> string \<Rightarrow> refusal_sample \<Rightarrow> pacing" where
  "put_sample s sid v = s\<lparr>samples := evict_oldest MAX_REFUSAL_KEYS (jm_touch (samples s) sid v)\<rparr>"

definition auditRefusal :: "pacing \<Rightarrow> millis \<Rightarrow> string \<Rightarrow> refusal_reason \<Rightarrow> pacing" where
  "auditRefusal s now sid rule =
     (let prior = jm_get (samples s) sid;
          fresh = (let s1 = put_sample s sid \<lparr>rs_count = 0, rs_since = now\<rparr>
            in s1\<lparr>audits := audits s1 @ [\<lparr>ra_session = sid, ra_rule = rule, ra_at = now,
                 ra_suppressed = (case prior of Some p \<Rightarrow> rs_count p | None \<Rightarrow> 0)\<rparr>]\<rparr>)
      in case prior of
          Some p \<Rightarrow>
            if now - rs_since p < REFUSAL_AUDIT_WINDOW_MS
            then s\<lparr>samples := jm_set (samples s) sid (p\<lparr>rs_count := rs_count p + 1\<rparr>)\<rparr>
            else fresh
        | None \<Rightarrow> fresh)"

definition refuse :: "pacing \<Rightarrow> millis \<Rightarrow> refusal_reason \<Rightarrow> string \<Rightarrow> int \<Rightarrow> (pacing_error + 'a) \<times> pacing" where
  "refuse s now reason sid retry =
     (Inl \<lparr>pe_reason = reason, pe_retryAfter = retry\<rparr>,
      auditRefusal (s\<lparr>refusals := refusals s @ [reason]\<rparr>) now sid reason)"

definition allowanceForAge :: "int list \<Rightarrow> int \<Rightarrow> int" where
  "allowanceForAge schedule ageDays = schedule ! nat (min (max ageDays 0) (int (length schedule) - 1))"

definition ageDays :: "millis \<Rightarrow> millis \<Rightarrow> int" where
  "ageDays dayStart createdAt = (dayStart - startOfUtcDay createdAt) div DAY_MS"

definition assertBreakerClosed :: "send_config \<Rightarrow> millis \<Rightarrow> string \<Rightarrow> pacing \<Rightarrow> (pacing_error + unit) \<times> pacing" where
  "assertBreakerClosed cfg now sid s =
     (case jm_get (breakers s) sid of
        None \<Rightarrow> (Inr (), s)
      | Some b \<Rightarrow>
          (case bs_openedAt b of
             None \<Rightarrow> (Inr (), s)
           | Some opened \<Rightarrow>
               if opened = 0 then (Inr (), s)
               else let elapsed = now - opened in
                 if elapsed \<ge> sc_cooldown cfg then (Inr (), s\<lparr>breakers := jm_del (breakers s) sid\<rparr>)
                 else refuse s now BreakerOpen sid (ceil_seconds (sc_cooldown cfg - elapsed))))"

definition assertUnderDailyCap :: "send_config \<Rightarrow> pacing_db \<Rightarrow> millis \<Rightarrow> string \<Rightarrow> pacing \<Rightarrow> (pacing_error + unit) \<times> pacing" where
  "assertUnderDailyCap cfg db now sid s =
     (case jm_get (db_sessions db) sid of
        None \<Rightarrow> (Inr (), s)
      | Some createdAt \<Rightarrow>
          let dayStart = startOfUtcDay now; allowance = allowanceForAge (sc_warmup cfg) (ageDays dayStart createdAt) in
          if sentToday db sid dayStart < allowance then (Inr (), s)
          else refuse s now DailyCap sid (secondsUntilNextUtcDay now))"

definition groupReachoutsToday :: "pacing \<Rightarrow> string \<Rightarrow> millis \<Rightarrow> int" where
  "groupReachoutsToday s sid dayStart =
     (case jm_get (groupTally s) sid of Some (d, n) \<Rightarrow> if d = dayStart then n else 0 | None \<Rightarrow> 0)"

definition assertUnderColdCap :: "send_config \<Rightarrow> pacing_db \<Rightarrow> millis \<Rightarrow> string \<Rightarrow> string option \<Rightarrow> pacing
    \<Rightarrow> (pacing_error + unit) \<times> pacing" where
  "assertUnderColdCap cfg db now sid chatId s =
     (case chatId of
        None \<Rightarrow> (Inr (), s)
      | Some chat \<Rightarrow>
          if chat = [] \<or> sc_cold cfg = [] then (Inr (), s)
          else if chat_known db sid (dialectVariants chat) then (Inr (), s)
          else (case jm_get (db_sessions db) sid of
              None \<Rightarrow> (Inr (), s)
            | Some createdAt \<Rightarrow>
                let dayStart = startOfUtcDay now; allowance = allowanceForAge (sc_cold cfg) (ageDays dayStart createdAt);
                    coldToday = countColdReachoutsToday db sid dayStart + groupReachoutsToday s sid dayStart in
                if coldToday < allowance then (Inr (), s)
                else refuse s now ColdDailyCap sid (secondsUntilNextUtcDay now)))"

definition assertSendAllowed :: "send_config \<Rightarrow> pacing_db \<Rightarrow> millis \<Rightarrow> string \<Rightarrow> string option \<Rightarrow> pacing
    \<Rightarrow> (pacing_error + unit) \<times> pacing" where
  "assertSendAllowed cfg db now sid chatId s =
     (if \<not> sc_enabled cfg then (Inr (), s)
      else case assertBreakerClosed cfg now sid s of
          (Inl e, s1) \<Rightarrow> (Inl e, s1)
        | (Inr _, s1) \<Rightarrow>
            (case assertUnderDailyCap cfg db now sid s1 of
               (Inl e, s2) \<Rightarrow> (Inl e, s2)
             | (Inr _, s2) \<Rightarrow> assertUnderColdCap cfg db now sid chatId s2))"

text \<open>\<open>[...new Set(ids)]\<close>.\<close>

definition js_unique :: "'a list \<Rightarrow> 'a list" where
  "js_unique xs = fold (\<lambda>x acc. js_insert acc x) xs []"

definition cold_contacts :: "pacing_db \<Rightarrow> string \<Rightarrow> string list \<Rightarrow> string list" where
  "cold_contacts db sid contactIds =
     filter (\<lambda>c. \<not> chat_known db sid (dialectVariants c)) (js_unique contactIds)"

definition assertReachoutAllowed :: "send_config \<Rightarrow> pacing_db \<Rightarrow> millis \<Rightarrow> string \<Rightarrow> string list \<Rightarrow> pacing
    \<Rightarrow> (pacing_error + int) \<times> pacing" where
  "assertReachoutAllowed cfg db now sid contactIds s =
     (if \<not> sc_enabled cfg then (Inr 0, s)
      else case assertBreakerClosed cfg now sid s of
          (Inl e, s1) \<Rightarrow> (Inl e, s1)
        | (Inr _, s1) \<Rightarrow>
            if sc_cold cfg = [] \<or> contactIds = [] then (Inr 0, s1)
            else let coldCount = int (length (cold_contacts db sid contactIds)) in
              if coldCount = 0 then (Inr 0, s1)
              else (case jm_get (db_sessions db) sid of
                  None \<Rightarrow> (Inr 0, s1)
                | Some createdAt \<Rightarrow>
                    let dayStart = startOfUtcDay now; allowance = allowanceForAge (sc_cold cfg) (ageDays dayStart createdAt);
                        usedToday = countColdReachoutsToday db sid dayStart + groupReachoutsToday s1 sid dayStart in
                    if usedToday + coldCount \<le> allowance then (Inr coldCount, s1)
                    else refuse s1 now ColdDailyCap sid (secondsUntilNextUtcDay now)))"

definition addGroupReachouts :: "pacing \<Rightarrow> string \<Rightarrow> millis \<Rightarrow> int \<Rightarrow> pacing" where
  "addGroupReachouts s sid dayStart n =
     s\<lparr>groupTally := jm_set (groupTally s) sid
        (case jm_get (groupTally s) sid of
           Some (d, k) \<Rightarrow> if d = dayStart then (d, k + n) else (dayStart, n)
         | None \<Rightarrow> (dayStart, n))\<rparr>"

definition chargeGroupReachouts :: "millis \<Rightarrow> string \<Rightarrow> int \<Rightarrow> pacing \<Rightarrow> pacing" where
  "chargeGroupReachouts now sid coldCount s =
     (if coldCount \<le> 0 then s else addGroupReachouts s sid (startOfUtcDay now) coldCount)"

definition recordSendFailure :: "send_config \<Rightarrow> millis \<Rightarrow> string \<Rightarrow> pacing \<Rightarrow> pacing" where
  "recordSendFailure cfg now sid s =
     (if \<not> sc_enabled cfg then s
      else
        let b = (case jm_get (breakers s) sid of Some b \<Rightarrow> b | None \<Rightarrow> \<lparr>bs_failures = 0, bs_openedAt = None\<rparr>);
            b1 = b\<lparr>bs_failures := bs_failures b + 1\<rparr> in
        if bs_openedAt b1 = None \<and> bs_failures b1 \<ge> sc_threshold cfg
        then s\<lparr>breakers := jm_set (breakers s) sid (b1\<lparr>bs_openedAt := Some now\<rparr>), trips := trips s @ [(sid, bs_failures b1)]\<rparr>
        else s\<lparr>breakers := jm_set (breakers s) sid b1\<rparr>)"

definition recordSendSuccess :: "send_config \<Rightarrow> string \<Rightarrow> pacing \<Rightarrow> pacing" where
  "recordSendSuccess cfg sid s =
     (if \<not> sc_enabled cfg then s
      else case jm_get (breakers s) sid of
          None \<Rightarrow> s
        | Some _ \<Rightarrow> s\<lparr>breakers := jm_del (breakers s) sid\<rparr>)"

text \<open>The errors of a send, as far as the classification looks at them.\<close>

datatype send_error = EngineRefused | SsrfBlocked | Http int | OtherError

fun countsTowardSendBreaker :: "send_error \<Rightarrow> bool" where
  "countsTowardSendBreaker EngineRefused = True"
| "countsTowardSendBreaker SsrfBlocked = False"
| "countsTowardSendBreaker (Http status) = (\<not> ((status \<ge> 400 \<and> status < 500) \<or> status = 501 \<or> status = 503))"
| "countsTowardSendBreaker OtherError = True"

section \<open>The policy is never degenerate\<close>

lemma bad_cap_floor: "\<not> bad_cap n \<Longrightarrow> 1 \<le> num_floor n \<and> num_floor n \<le> 100000"
  unfolding bad_cap_def using num_floor_ge [of n 1] num_floor_le [of n 100000] by auto

lemma parseSchedule_cases:
  "parseSchedule raw fallback \<in> {fallback, []}
   \<or> (\<exists>parts. parseSchedule raw fallback = map num_floor parts \<and> (\<forall>n \<in> set parts. \<not> bad_cap n))"
proof (cases raw)
  case (Some r)
  let ?parts = "map (\<lambda>p. js_Number (js_trim p)) (split_on CHR '','' r)"
  have "parseSchedule raw fallback \<in> {fallback, []} \<or>
      (parseSchedule raw fallback = map num_floor ?parts \<and> \<not> list_ex bad_cap ?parts)"
    unfolding parseSchedule_def Some Let_def by simp
  then show ?thesis unfolding list_ex_iff by blast
qed (simp add: parseSchedule_def)

lemma parseSchedule_range:
  assumes "\<forall>k \<in> set fallback. 1 \<le> k \<and> k \<le> 100000"
  shows "\<forall>k \<in> set (parseSchedule raw fallback). 1 \<le> k \<and> k \<le> 100000"
  using parseSchedule_cases [of raw fallback]
proof
  assume "\<exists>parts. parseSchedule raw fallback = map num_floor parts \<and> (\<forall>n \<in> set parts. \<not> bad_cap n)"
  then show ?thesis using bad_cap_floor by auto
qed (use assms in auto)

lemma parseSchedule_not_Nil: "fallback \<noteq> [] \<Longrightarrow> fallback \<noteq> default_cold \<Longrightarrow> parseSchedule raw fallback \<noteq> []"
  by (auto simp: parseSchedule_def Let_def split: option.splits)

lemma parsePositiveInt_min: "mn \<le> fallback \<Longrightarrow> mn \<le> parsePositiveInt raw fallback mn"
  using num_floor_ge by (auto simp: parsePositiveInt_def Let_def)

text \<open>
  Whatever the environment says, the policy is usable: the warm-up schedule has at least one
  entry, every daily cap lies between 1 and 100000, the breaker needs at least one failure to trip
  and its cooldown lasts at least a second.
\<close>

theorem policy_is_usable:
  "let cfg = computeSendPacingConfig env in
     sc_warmup cfg \<noteq> [] \<and> list_all (\<lambda>k. 1 \<le> k \<and> k \<le> 100000) (sc_warmup cfg @ sc_cold cfg)
     \<and> 1 \<le> sc_threshold cfg \<and> 1000 \<le> sc_cooldown cfg"
proof -
  have "sc_warmup (computeSendPacingConfig env) \<noteq> []"
    unfolding computeSendPacingConfig_def send_config.simps
    by (rule parseSchedule_not_Nil) (simp_all add: default_warmup_def default_cold_def)
  moreover have "\<forall>k \<in> set (parseSchedule raw default_warmup). 1 \<le> k \<and> k \<le> 100000"
    and "\<forall>k \<in> set (parseSchedule raw default_cold). 1 \<le> k \<and> k \<le> 100000" for raw
    by (intro parseSchedule_range; simp add: default_warmup_def default_cold_def)+
  ultimately show ?thesis
    using parsePositiveInt_min [of 1 5] parsePositiveInt_min [of 1000 "15 * 60000"]
    by (auto simp: computeSendPacingConfig_def Let_def list_all_iff)
qed

section \<open>The breaker\<close>

lemma failures_state:
  assumes "sc_enabled cfg" and "1 \<le> sc_threshold cfg" and "jm_get (breakers s) sid = None" and "ts \<noteq> []"
  shows "jm_get (breakers (fold (\<lambda>t. recordSendFailure cfg t sid) ts s)) sid =
    Some \<lparr>bs_failures = int (length ts),
      bs_openedAt = (if sc_threshold cfg \<le> int (length ts) then Some (ts ! nat (sc_threshold cfg - 1)) else None)\<rparr>"
  using assms(4)
proof (induction ts rule: rev_nonempty_induct)
  case (single t)
  then show ?case using assms(1-3) by (auto simp: recordSendFailure_def Let_def)
next
  case (snoc t ts)
  show ?case
  proof (cases "sc_threshold cfg \<le> int (length ts)")
    case True
    then have "nat (sc_threshold cfg - 1) < length ts" using assms(2) by linarith
    with True snoc assms(1) show ?thesis by (auto simp: recordSendFailure_def Let_def nth_append)
  next
    case False
    then show ?thesis using snoc assms(1,2)
      by (auto simp: recordSendFailure_def Let_def nth_append)
  qed
qed

lemma ceil_seconds_bounds: "x \<le> 1000 * ceil_seconds x \<and> 1000 * ceil_seconds x < x + 1000"
  unfolding ceil_seconds_def using div_mult_mod_eq [of "- x" 1000] pos_mod_bound [of 1000 "- x"] pos_mod_sign [of 1000 "- x"]
  by linarith

lemma fst_refuse [simp]: "fst (refuse s now reason sid retry) = Inl \<lparr>pe_reason = reason, pe_retryAfter = retry\<rparr>"
  by (simp add: refuse_def)

text \<open>
  C32. The breaker trips on exactly the threshold-th consecutive failure and holds for the cooldown
  counted from that failure: inside it every send of the session is refused, and the announced wait
  is the smallest whole number of seconds after which the breaker lets traffic through; before the
  threshold, and once the cooldown is over, the breaker refuses nothing.
\<close>

theorem breaker_opens_exactly:
  assumes "sc_enabled cfg" and "1 \<le> sc_threshold cfg" and "jm_get (breakers s) sid = None"
    and "ts \<noteq> []" and "list_all (\<lambda>t. 0 < t) ts"
  shows "let s' = fold (\<lambda>t. recordSendFailure cfg t sid) ts s; reopen = ts ! nat (sc_threshold cfg - 1) + sc_cooldown cfg in
    if sc_threshold cfg \<le> int (length ts) \<and> now < reopen
    then \<exists>retry. fst (assertSendAllowed cfg db now sid chat s') = Inl \<lparr>pe_reason = BreakerOpen, pe_retryAfter = retry\<rparr>
           \<and> reopen \<le> now + 1000 * retry \<and> now + 1000 * retry < reopen + 1000
    else fst (assertBreakerClosed cfg now sid s') = Inr ()"
proof -
  let ?s = "fold (\<lambda>t. recordSendFailure cfg t sid) ts s"
  let ?open = "ts ! nat (sc_threshold cfg - 1)"
  show ?thesis
  proof (cases "sc_threshold cfg \<le> int (length ts)")
    case True
    then have "nat (sc_threshold cfg - 1) < length ts" using assms(2) by linarith
    then have nz: "?open \<noteq> 0" using assms(5) by (auto simp: list_all_length)
    then show ?thesis
      using failures_state [OF assms(1-4)] True assms(1) ceil_seconds_bounds [of "sc_cooldown cfg - (now - ?open)"]
      by (auto simp: Let_def assertSendAllowed_def assertBreakerClosed_def refuse_def)
  next
    case False
    then show ?thesis
      using failures_state [OF assms(1-4)] by (simp add: Let_def assertBreakerClosed_def)
  qed
qed

definition sample_config :: send_config where
  "sample_config = \<lparr>sc_enabled = True, sc_warmup = [20, 40], sc_cold = [5], sc_threshold = 3, sc_cooldown = 60000\<rparr>"

theorem breaker_opens_exactly_witness:
  "let s' = fold (\<lambda>t. recordSendFailure sample_config t ''s'') [1000, 2000, 3000, 4000] pacing_init in
    \<exists>retry. fst (assertSendAllowed sample_config \<lparr>db_messages = [], db_sessions = []\<rparr> 5000 ''s'' None s')
        = Inl \<lparr>pe_reason = BreakerOpen, pe_retryAfter = retry\<rparr>
      \<and> 63000 \<le> 5000 + 1000 * retry \<and> 5000 + 1000 * retry < 63000 + (1000 :: int)"
  using breaker_opens_exactly [of sample_config pacing_init "''s''" "[1000, 2000, 3000, 4000]" 5000
      "\<lparr>db_messages = [], db_sessions = []\<rparr>" None]
  by (simp add: sample_config_def pacing_init_def Let_def)

section \<open>The daily caps\<close>

lemma allowance_in_schedule: "schedule \<noteq> [] \<Longrightarrow> allowanceForAge schedule d \<in> set schedule"
  unfolding allowanceForAge_def by (intro nth_mem) (cases schedule; auto)

lemma startOfUtcDay_bounds: "startOfUtcDay t \<le> t \<and> t < startOfUtcDay t + DAY_MS"
  by (simp add: startOfUtcDay_def DAY_MS_def)

lemma startOfUtcDay_multiple: "startOfUtcDay t = DAY_MS * (t div DAY_MS)"
  by (simp add: startOfUtcDay_def DAY_MS_def minus_mod_eq_mult_div)

lemma next_day_start: "startOfUtcDay (now + 1000 * secondsUntilNextUtcDay now) = startOfUtcDay now + DAY_MS"
proof -
  let ?next = "startOfUtcDay now + DAY_MS"
  have pos: "0 < ?next - now" using startOfUtcDay_bounds [of now] by linarith
  then have "1 \<le> ceil_seconds (?next - now)" using ceil_seconds_bounds [of "?next - now"] by linarith
  then have r: "?next \<le> now + 1000 * secondsUntilNextUtcDay now" "now + 1000 * secondsUntilNextUtcDay now < ?next + 1000"
    using ceil_seconds_bounds [of "?next - now"] by (auto simp: secondsUntilNextUtcDay_def)
  have "?next = DAY_MS * (now div DAY_MS + 1)" by (simp add: startOfUtcDay_multiple algebra_simps)
  moreover have "(now + 1000 * secondsUntilNextUtcDay now) div DAY_MS = now div DAY_MS + 1"
    using r unfolding calculation
    by (intro int_div_pos_eq [where r = "now + 1000 * secondsUntilNextUtcDay now - DAY_MS * (now div DAY_MS + 1)"])
      (simp_all add: DAY_MS_def)
  ultimately show ?thesis by (simp add: startOfUtcDay_multiple)
qed

definition usable_policy :: "send_config \<Rightarrow> bool" where
  "usable_policy cfg \<longleftrightarrow> sc_warmup cfg \<noteq> [] \<and> list_all (\<lambda>k. 1 \<le> k) (sc_warmup cfg @ sc_cold cfg)"

text \<open>
  The wait announced by a daily-cap refusal is exact: it ends in the first second of the next UTC
  day, and if nothing has been sent in that day yet, the cap then lets the session send again,
  whatever its age and schedule.
\<close>

theorem daily_cap_lifts_after_wait:
  assumes "usable_policy cfg" and "fst (assertUnderDailyCap cfg db now sid s) = Inl e"
    and "list_all (\<lambda>m. mr_createdAt m < startOfUtcDay now + DAY_MS) (db_messages db)"
  shows "let later = now + 1000 * pe_retryAfter e in
    pe_reason e = DailyCap \<and> startOfUtcDay later = startOfUtcDay now + DAY_MS \<and> later < startOfUtcDay later + 1000
    \<and> fst (assertUnderDailyCap cfg db later sid s') = Inr ()"
proof -
  have e: "pe_reason e = DailyCap" "pe_retryAfter e = secondsUntilNextUtcDay now"
    using assms(2) by (auto simp: assertUnderDailyCap_def Let_def split: option.splits if_splits)
  let ?later = "now + 1000 * secondsUntilNextUtcDay now"
  have later: "startOfUtcDay ?later = startOfUtcDay now + DAY_MS" by (rule next_day_start)
  have "filter (\<lambda>m. mr_session m = sid \<and> mr_outgoing m \<and> startOfUtcDay now + DAY_MS \<le> mr_createdAt m) (db_messages db) = []"
    using assms(3) by (auto simp: filter_empty_conv list_all_iff)
  then have "sentToday db sid (startOfUtcDay ?later) = 0" unfolding later by (simp add: sentToday_def)
  moreover have "0 < allowanceForAge (sc_warmup cfg) d" for d
    using assms(1) allowance_in_schedule [of "sc_warmup cfg" d]
    by (auto simp: usable_policy_def list_all_iff intro: order_less_le_trans [OF zero_less_one])
  ultimately have "fst (assertUnderDailyCap cfg db ?later sid s') = Inr ()"
    by (simp add: assertUnderDailyCap_def Let_def split: option.splits)
  moreover have "?later < startOfUtcDay now + DAY_MS + 1000"
    using ceil_seconds_bounds [of "startOfUtcDay now + DAY_MS - now"] startOfUtcDay_bounds [of now]
    by (auto simp: secondsUntilNextUtcDay_def max_def)
  ultimately show ?thesis using e later by (simp add: Let_def)
qed

definition sample_db :: pacing_db where
  "sample_db = \<lparr>db_messages = replicate 20 \<lparr>mr_session = ''s'', mr_chat = ''628111@c.us'', mr_outgoing = True, mr_createdAt = 5000\<rparr>,
     db_sessions = [(''s'', 1000)]\<rparr>"

theorem daily_cap_lifts_after_wait_witness:
  "fst (assertUnderDailyCap sample_config sample_db 86399500 ''s'' pacing_init) = Inl \<lparr>pe_reason = DailyCap, pe_retryAfter = 1\<rparr>
   \<and> fst (assertUnderDailyCap sample_config sample_db (86399500 + 1000 * 1) ''s'' pacing_init) = Inr ()"
proof -
  have r: "fst (assertUnderDailyCap sample_config sample_db 86399500 ''s'' pacing_init) = Inl \<lparr>pe_reason = DailyCap, pe_retryAfter = 1\<rparr>"
    by (simp add: assertUnderDailyCap_def sample_db_def sample_config_def Let_def jm_get_def sentToday_def
        startOfUtcDay_def DAY_MS_def ageDays_def allowanceForAge_def secondsUntilNextUtcDay_def ceil_seconds_def)
  have "usable_policy sample_config" by (simp add: usable_policy_def sample_config_def)
  moreover have "list_all (\<lambda>m. mr_createdAt m < startOfUtcDay 86399500 + DAY_MS) (db_messages sample_db)"
    by (simp add: sample_db_def startOfUtcDay_def DAY_MS_def list_all_iff)
  ultimately show ?thesis
    using daily_cap_lifts_after_wait [OF _ r, of pacing_init] r by (simp add: Let_def)
qed

section \<open>The audit trail of refusals\<close>

interpretation sampling: recency_store samples "\<lambda>_. MAX_REFUSAL_KEYS" put_sample
  by unfold_locales (simp_all add: put_sample_def evict_over_def MAX_REFUSAL_KEYS_def)

type_synonym refusal_event = "millis \<times> string \<times> refusal_reason"

definition audit_all :: "refusal_event list \<Rightarrow> pacing \<Rightarrow> pacing" where
  "audit_all evs s = fold (\<lambda>(now, sid, rule) s. auditRefusal s now sid rule) evs s"

definition rows_of :: "pacing \<Rightarrow> string \<Rightarrow> refusal_audit list" where
  "rows_of s sid = filter (\<lambda>a. ra_session a = sid) (audits s)"

definition pending_refusals :: "pacing \<Rightarrow> string \<Rightarrow> int" where
  "pending_refusals s sid = (case jm_get (samples s) sid of Some p \<Rightarrow> rs_count p | None \<Rightarrow> 0)"

definition sampled :: "pacing \<Rightarrow> refusal_event list \<Rightarrow> string \<Rightarrow> bool" where
  "sampled s evs sid \<longleftrightarrow>
     int (length (filter (\<lambda>e. fst (snd e) = sid) evs))
        = sum_list (map (\<lambda>a. 1 + ra_suppressed a) (rows_of s sid)) + pending_refusals s sid
     \<and> successively (\<lambda>a b. REFUSAL_AUDIT_WINDOW_MS \<le> ra_at b - ra_at a) (rows_of s sid)
     \<and> map_option rs_since (jm_get (samples s) sid) = (if rows_of s sid = [] then None else Some (ra_at (last (rows_of s sid))))"

definition sampling_inv :: "pacing \<Rightarrow> refusal_event list \<Rightarrow> bool" where
  "sampling_inv s evs \<longleftrightarrow> jm_wf (samples s) \<and> fst ` set (samples s) \<subseteq> (\<lambda>e. fst (snd e)) ` set evs
     \<and> (\<forall>sid. sampled s evs sid)"

lemma put_sample_no_evict:
  assumes "jm_wf (samples s)" and "fst ` set (samples s) \<subseteq> K" and "sid \<in> K" and "finite K" and "card K \<le> MAX_REFUSAL_KEYS"
  shows "samples (put_sample s sid v) = jm_touch (samples s) sid v"
proof -
  have "jm_wf (jm_touch (samples s) sid v)" using assms(1) by simp
  then have "length (jm_touch (samples s) sid v) = card (fst ` set (jm_touch (samples s) sid v))" by (rule jm_wf_length)
  also have "\<dots> \<le> card K" using assms(2-4) by (intro card_mono) auto
  finally show ?thesis using assms(5) by (simp add: put_sample_def)
qed

lemma successively_snoc:
  "successively P (xs @ [x]) \<longleftrightarrow> successively P xs \<and> (xs = [] \<or> P (last xs) x)"
  by (auto simp: successively_append_iff)

lemma audit_step:
  assumes inv: "sampling_inv s evs" and card: "card ((\<lambda>e. fst (snd e)) ` set (evs @ [(now, sid, rule)])) \<le> MAX_REFUSAL_KEYS"
  shows "sampling_inv (auditRefusal s now sid rule) (evs @ [(now, sid, rule)])"
proof -
  let ?K = "(\<lambda>e. fst (snd e)) ` set (evs @ [(now, sid, rule)])"
  have wf: "jm_wf (samples s)" and sub: "fst ` set (samples s) \<subseteq> ?K"
    using inv by (auto simp: sampling_inv_def)
  have put: "samples (put_sample s sid v) = jm_touch (samples s) sid v" for v
    by (rule put_sample_no_evict [OF wf sub _ _ card]) auto
  show ?thesis
  proof (cases "\<exists>p. jm_get (samples s) sid = Some p \<and> now - rs_since p < REFUSAL_AUDIT_WINDOW_MS")
    case True
    then obtain p where p: "jm_get (samples s) sid = Some p" "now - rs_since p < REFUSAL_AUDIT_WINDOW_MS" by blast
    then have a: "auditRefusal s now sid rule = s\<lparr>samples := jm_set (samples s) sid (p\<lparr>rs_count := rs_count p + 1\<rparr>)\<rparr>"
      by (simp add: auditRefusal_def Let_def)
    have "sampled (auditRefusal s now sid rule) (evs @ [(now, sid, rule)]) q" for q
      using inv p unfolding a sampling_inv_def
      by (cases "q = sid") (auto simp: sampled_def rows_of_def pending_refusals_def dest!: spec [of _ q])
    then show ?thesis using wf sub p by (auto simp: a sampling_inv_def keys_set_jm_set)
  next
    case False
    let ?row = "\<lparr>ra_session = sid, ra_rule = rule, ra_at = now,
      ra_suppressed = (case jm_get (samples s) sid of Some p \<Rightarrow> rs_count p | None \<Rightarrow> 0)\<rparr>"
    from False have a: "auditRefusal s now sid rule =
        (put_sample s sid \<lparr>rs_count = 0, rs_since = now\<rparr>)\<lparr>audits := audits s @ [?row]\<rparr>"
      by (auto simp: auditRefusal_def Let_def put_sample_def split: option.splits)
    have rows: "rows_of (auditRefusal s now sid rule) q = rows_of s q @ (if q = sid then [?row] else [])" for q
      unfolding a by (simp add: rows_of_def)
    have samp: "samples (auditRefusal s now sid rule) = jm_touch (samples s) sid \<lparr>rs_count = 0, rs_since = now\<rparr>"
      unfolding a by (simp add: put)
    have at_sid: "sampled s evs sid" using inv by (simp add: sampling_inv_def)
    then have gap: "rows_of s sid = [] \<or> REFUSAL_AUDIT_WINDOW_MS \<le> now - ra_at (last (rows_of s sid))"
      using False by (cases "jm_get (samples s) sid") (auto simp: sampled_def split: if_splits)
    have "sampled (auditRefusal s now sid rule) (evs @ [(now, sid, rule)]) q" for q
    proof (cases "q = sid")
      case True
      then show ?thesis using at_sid gap
        by (auto simp: sampled_def rows pending_refusals_def samp successively_snoc split: option.splits)
    next
      case False
      moreover have "sampled s evs q" using inv by (simp add: sampling_inv_def)
      ultimately show ?thesis by (simp add: sampled_def rows pending_refusals_def samp)
    qed
    then show ?thesis using wf sub by (auto simp: sampling_inv_def samp)
  qed
qed

lemma audit_all_inv:
  "card ((\<lambda>e. fst (snd e)) ` set evs) \<le> MAX_REFUSAL_KEYS \<Longrightarrow> sampling_inv (audit_all evs pacing_init) evs"
proof (induction evs rule: rev_induct)
  case Nil
  show ?case by (simp add: audit_all_def sampling_inv_def sampled_def pacing_init_def rows_of_def pending_refusals_def)
next
  case (snoc e evs)
  obtain now sid rule where e: "e = (now, sid, rule)" by (cases e) auto
  have "card ((\<lambda>e. fst (snd e)) ` set evs) \<le> card ((\<lambda>e. fst (snd e)) ` set (evs @ [e]))"
    by (rule card_mono) auto
  with snoc have "sampling_inv (audit_all evs pacing_init) evs" by linarith
  from audit_step [OF this] snoc.prems show ?case by (simp add: audit_all_def e)
qed

text \<open>
  Sampling loses nothing: while at most a thousand sessions are being refused, the refusals of a
  session are exactly those accounted for by its audit rows (each counting itself and the ones it
  reports as suppressed) plus those still pending, and two of its rows are at least a window apart.
\<close>

theorem audit_accounts_for_every_refusal:
  assumes "card ((\<lambda>e. fst (snd e)) ` set evs) \<le> MAX_REFUSAL_KEYS"
  shows "let s = audit_all evs pacing_init in
     int (length (filter (\<lambda>e. fst (snd e) = sid) evs))
        = sum_list (map (\<lambda>a. 1 + ra_suppressed a) (rows_of s sid)) + pending_refusals s sid
     \<and> successively (\<lambda>a b. 60000 \<le> ra_at b - ra_at a) (rows_of s sid)"
  using audit_all_inv [OF assms] by (simp add: sampling_inv_def sampled_def REFUSAL_AUDIT_WINDOW_MS_def Let_def)

theorem audit_accounts_for_every_refusal_witness:
  "let s = audit_all [(0, ''a'', DailyCap), (5, ''a'', DailyCap), (9, ''b'', BreakerOpen), (70000, ''a'', DailyCap)] pacing_init in
     3 = sum_list (map (\<lambda>a. 1 + ra_suppressed a) (rows_of s ''a'')) + pending_refusals s ''a''
     \<and> successively (\<lambda>a b. 60000 \<le> ra_at b - ra_at a) (rows_of s ''a'')"
proof -
  let ?evs = "[(0, ''a'', DailyCap), (5, ''a'', DailyCap), (9, ''b'', BreakerOpen), (70000, ''a'', DailyCap)] :: refusal_event list"
  have "card ((\<lambda>e. fst (snd e)) ` set ?evs) \<le> MAX_REFUSAL_KEYS"
    by (simp add: MAX_REFUSAL_KEYS_def card_insert_if)
  from audit_accounts_for_every_refusal [OF this, of "''a''"] show ?thesis by (simp add: Let_def)
qed

section \<open>The budget of group adds\<close>

text \<open>The group endpoints: check the batch, add the participants, charge what was cold.\<close>

definition reach_out :: "send_config \<Rightarrow> pacing_db \<Rightarrow> millis \<Rightarrow> string \<Rightarrow> string list \<Rightarrow> pacing \<Rightarrow> pacing" where
  "reach_out cfg db now sid ids s =
     (case assertReachoutAllowed cfg db now sid ids s of
        (Inr cold, s1) \<Rightarrow> chargeGroupReachouts now sid cold s1
      | (Inl _, s1) \<Rightarrow> s1)"

lemma refuse_tally [simp]: "groupTally (snd (refuse s now reason sid retry)) = groupTally s"
  by (auto simp: refuse_def auditRefusal_def put_sample_def Let_def split: option.splits)

lemma refuse_eq: "refuse s now reason sid retry = (res, s1) \<Longrightarrow> (\<exists>e. res = Inl e) \<and> groupTally s1 = groupTally s"
  using refuse_tally [of s now reason sid retry] by (auto simp: refuse_def)

lemma breaker_check_tally: "groupTally (snd (assertBreakerClosed cfg now sid s)) = groupTally s"
  by (auto simp: assertBreakerClosed_def Let_def split: option.splits)

lemma charge_tally:
  "groupReachoutsToday (chargeGroupReachouts now sid n s) sid (startOfUtcDay now)
     = groupReachoutsToday s sid (startOfUtcDay now) + max 0 n"
  by (auto simp: chargeGroupReachouts_def addGroupReachouts_def groupReachoutsToday_def split: option.splits prod.splits)

lemma tally_cong: "groupTally s = groupTally t \<Longrightarrow> groupReachoutsToday s sid d = groupReachoutsToday t sid d"
  by (simp add: groupReachoutsToday_def)

lemma reachout_answer:
  assumes "assertReachoutAllowed cfg db now sid ids s = (res, s1)" and "jm_get (db_sessions db) sid = Some createdAt"
  shows "groupTally s1 = groupTally s
    \<and> (case res of Inl _ \<Rightarrow> True | Inr k \<Rightarrow> k = 0 \<or> (0 < k \<and>
        countColdReachoutsToday db sid (startOfUtcDay now) + groupReachoutsToday s sid (startOfUtcDay now) + k
          \<le> allowanceForAge (sc_cold cfg) (ageDays (startOfUtcDay now) createdAt)))"
proof (cases "assertBreakerClosed cfg now sid s")
  case (Pair r s0)
  then have t: "groupTally s0 = groupTally s" using breaker_check_tally [of cfg now sid s] by simp
  show ?thesis
    using assms Pair t tally_cong [OF t]
    by (auto simp: assertReachoutAllowed_def Let_def split: sum.splits if_splits dest!: refuse_eq)
qed

text \<open>
  Batches of group adds made one after the other never overdraw the day's cold budget: starting
  within the allowance, the cold chats counted in the database plus everything charged stay within
  it, whatever the batches.
\<close>

theorem sequential_batches_within_budget:
  assumes "jm_get (db_sessions db) sid = Some createdAt"
    and "d = startOfUtcDay now" and "cap = allowanceForAge (sc_cold cfg) (ageDays d createdAt)"
    and "countColdReachoutsToday db sid d + groupReachoutsToday s sid d \<le> cap"
  shows "countColdReachoutsToday db sid d + groupReachoutsToday (fold (reach_out cfg db now sid) batches s) sid d \<le> cap"
  using assms(4)
proof (induction batches arbitrary: s)
  case (Cons ids batches)
  obtain res s1 where r: "assertReachoutAllowed cfg db now sid ids s = (res, s1)" by fastforce
  note ans = reachout_answer [OF r assms(1)]
  then have same: "groupReachoutsToday s1 sid d = groupReachoutsToday s sid d" by (blast intro: tally_cong)
  have "countColdReachoutsToday db sid d + groupReachoutsToday (reach_out cfg db now sid ids s) sid d \<le> cap"
  proof (cases res)
    case (Inl e)
    then show ?thesis using r same Cons.prems by (simp add: reach_out_def)
  next
    case (Inr k)
    then show ?thesis using r same ans Cons.prems assms(2,3) charge_tally [of now sid k s1]
      by (auto simp: reach_out_def)
  qed
  from Cons.IH [OF this] show ?case by simp
qed simp

definition two_batches :: "pacing_db" where
  "two_batches = \<lparr>db_messages = [], db_sessions = [(''s'', 0)]\<rparr>"

lemmas pacing_eval =
  two_batches_def sample_config_def pacing_init_def reach_out_def assertReachoutAllowed_def assertBreakerClosed_def
  cold_contacts_def js_unique_def js_insert_def chat_known_def countColdReachoutsToday_def groupReachoutsToday_def
  allowanceForAge_def ageDays_def startOfUtcDay_def DAY_MS_def chargeGroupReachouts_def addGroupReachouts_def
  jm_get_def Let_def

theorem sequential_batches_within_budget_witness:
  "countColdReachoutsToday two_batches ''s'' 0
     + groupReachoutsToday (fold (reach_out sample_config two_batches 7 ''s'') [[''1'', ''2'', ''3''], [''4'', ''5'', ''6''], [''7'']] pacing_init) ''s'' 0 \<le> 5"
  by (rule sequential_batches_within_budget [of _ _ 0]) (simp_all add: pacing_eval)

text \<open>
  The charge comes after the engine call, so two overlapping group adds are both checked against
  the same tally and both pass: with an allowance of five, ten strangers are added.
\<close>

theorem overlapping_batches_overdraw:
  "let (first, s1) = assertReachoutAllowed sample_config two_batches 7 ''s'' [''1'', ''2'', ''3'', ''4'', ''5''] pacing_init;
       (second, s2) = assertReachoutAllowed sample_config two_batches 7 ''s'' [''6'', ''7'', ''8'', ''9'', ''10''] s1;
       s3 = chargeGroupReachouts 7 ''s'' 5 (chargeGroupReachouts 7 ''s'' 5 s2)
   in first = Inr 5 \<and> second = Inr 5 \<and> allowanceForAge (sc_cold sample_config) 0 = 5 \<and> groupReachoutsToday s3 ''s'' 0 = 10"
  by (simp add: pacing_eval)

text \<open>
  One contact named under both user-id dialects in one batch is charged twice: the batch is
  deduplicated by the raw id, the dialects only serve the history probe.
\<close>

theorem dialects_charged_twice:
  "fst (assertReachoutAllowed sample_config two_batches 7 ''s'' [''628111@c.us'', ''628111@s.whatsapp.net''] pacing_init) = Inr 2
   \<and> set (dialectVariants ''628111@c.us'') = set (dialectVariants ''628111@s.whatsapp.net'')"
proof
  show "fst (assertReachoutAllowed sample_config two_batches 7 ''s'' [''628111@c.us'', ''628111@s.whatsapp.net''] pacing_init) = Inr 2"
    by (simp add: pacing_eval)
  show "set (dialectVariants ''628111@c.us'') = set (dialectVariants ''628111@s.whatsapp.net'')"
    by code_simp
qed

end
