(* ===== verification/Api_Keys.thy ===== *)
theory Api_Keys
  imports Ip_Match "HOL-Library.List_Lexorder" "HOL-Library.Char_ord" "HOL-Library.Multiset"
begin

text \<open>
  API keys (src/src/modules/auth): validation of a presented key, the guard of the routes, the key
  lifecycle with the guard that protects the last administrator, and the fingerprint of what a key
  may do. A lifecycle method reads the row and then runs one conditional statement; the read and the
  statement are separate definitions, so other requests can run in between. The hash of a raw key is
  the parameter \<open>hash\<close>; usage statistics and the bootstrap key file are left out.
\<close>

section \<open>Roles\<close>

datatype api_key_role = VIEWER | OPERATOR | ADMIN

fun role_level :: "api_key_role \<Rightarrow> nat" where
  "role_level VIEWER = 1"
| "role_level OPERATOR = 2"
| "role_level ADMIN = 3"

lemma role_level_inj: "role_level a = role_level b \<longleftrightarrow> a = b"
  by (cases a; cases b) simp_all

instantiation api_key_role :: linorder
begin

definition less_eq_api_key_role :: "api_key_role \<Rightarrow> api_key_role \<Rightarrow> bool" where
  "a \<le> b \<longleftrightarrow> role_level a \<le> role_level b"

definition less_api_key_role :: "api_key_role \<Rightarrow> api_key_role \<Rightarrow> bool" where
  "a < b \<longleftrightarrow> role_level a < role_level b"

instance
  by standard (auto simp: less_eq_api_key_role_def less_api_key_role_def role_level_inj)

end

section \<open>Rows\<close>

record api_key =
  ak_id :: string
  ak_name :: string
  ak_hash :: string
  ak_role :: api_key_role
  ak_ips :: "string list option"
  ak_sessions :: "string list option"
  ak_active :: bool
  ak_expires :: "millis option"

datatype key_error =
    InvalidKey | Revoked | Expired | IpUnknown | IpNotAllowed | SessionNotAllowed
  | KeyRequired | Insufficient api_key_role | ScopedKey | NotFound string | LastAdmin

definition normalizeScopeList :: "string list option \<Rightarrow> string list option" where
  "normalizeScopeList list =
     (case list of
        None \<Rightarrow> None
      | Some es \<Rightarrow>
          let cleaned = filter (\<lambda>e. length e > 0) (map js_trim es) in
          if length cleaned > 0 then Some cleaned else None)"

text \<open>The serialised tuple is injective in its parts, so the tuple itself stands for it.\<close>

definition apiKeyAuthorizationFingerprint ::
    "api_key \<Rightarrow> api_key_role \<times> string list option \<times> string list option \<times> millis option" where
  "apiKeyAuthorizationFingerprint k =
     (let scope = (\<lambda>l. map_option sort (normalizeScopeList l))
      in (ak_role k, scope (ak_ips k), scope (ak_sessions k), ak_expires k))"

definition list_nonempty :: "'a list option \<Rightarrow> bool" where
  "list_nonempty l = (case l of Some es \<Rightarrow> length es > 0 | None \<Rightarrow> False)"

section \<open>Validation and the guard\<close>

definition isIpAllowed :: "string \<Rightarrow> string list \<Rightarrow> bool" where
  "isIpAllowed clientIp allowedIps = list_ex (\<lambda>entry. ipMatches clientIp entry) allowedIps"

text \<open>The checks on the row a hash resolved to.\<close>

definition check_key :: "millis \<Rightarrow> string option \<Rightarrow> string option \<Rightarrow> api_key \<Rightarrow> key_error + api_key" where
  "check_key now clientIp sessionId k =
     (let given = (\<lambda>x. case x of Some s \<Rightarrow> s \<noteq> [] | None \<Rightarrow> False) in
      if \<not> ak_active k then Inl Revoked
      else if (case ak_expires k of Some e \<Rightarrow> e < now | None \<Rightarrow> False) then Inl Expired
      else if list_nonempty (ak_ips k) \<and> \<not> given clientIp then Inl IpUnknown
      else if list_nonempty (ak_ips k) \<and> \<not> isIpAllowed (the clientIp) (the (ak_ips k)) then Inl IpNotAllowed
      else if list_nonempty (ak_sessions k) \<and> given sessionId \<and> the sessionId \<notin> set (the (ak_sessions k))
        then Inl SessionNotAllowed
      else Inr k)"

definition validateApiKey :: "(string \<Rightarrow> string) \<Rightarrow> api_key list \<Rightarrow> millis \<Rightarrow> string \<Rightarrow> string option \<Rightarrow> string option
    \<Rightarrow> key_error + api_key" where
  "validateApiKey hash keys now rawKey clientIp sessionId =
     (case find (\<lambda>k. ak_hash k = hash (js_trim rawKey)) keys of
        None \<Rightarrow> Inl InvalidKey
      | Some k \<Rightarrow> check_key now clientIp sessionId k)"

definition hasPermission :: "api_key \<Rightarrow> api_key_role \<Rightarrow> bool" where
  "hasPermission k required \<longleftrightarrow> role_level (ak_role k) \<ge> role_level required"

text \<open>What the guard reads of a request and of the route it reaches.\<close>

record key_request =
  kr_xApiKey :: "string option"
  kr_authorization :: "string option"
  kr_sessionId :: "string option"
  kr_id :: "string option"
  kr_client :: request_like

record key_route =
  rt_requiredRole :: "api_key_role option"
  rt_sessionScoped :: bool
  rt_requireUnscoped :: bool

definition extractApiKey :: "key_request \<Rightarrow> string option" where
  "extractApiKey req =
     (case kr_xApiKey req of
        Some x \<Rightarrow> if x \<noteq> [] then Some x else
          (case kr_authorization req of Some a \<Rightarrow> if starts_with ''Bearer '' a then Some (drop 7 a) else None | None \<Rightarrow> None)
      | None \<Rightarrow>
          (case kr_authorization req of Some a \<Rightarrow> if starts_with ''Bearer '' a then Some (drop 7 a) else None | None \<Rightarrow> None))"

definition route_session :: "key_request \<Rightarrow> key_route \<Rightarrow> string option" where
  "route_session req rt =
     (case kr_sessionId req of
        Some s \<Rightarrow> if s \<noteq> [] then Some s else if rt_sessionScoped rt then kr_id req else None
      | None \<Rightarrow> if rt_sessionScoped rt then kr_id req else None)"

definition authorize :: "(string \<Rightarrow> string) \<Rightarrow> api_key list \<Rightarrow> millis \<Rightarrow> string list \<Rightarrow> key_request \<Rightarrow> key_route
    \<Rightarrow> key_error + api_key" where
  "authorize hash keys now trustedProxies req rt =
     (case extractApiKey req of
        None \<Rightarrow> Inl KeyRequired
      | Some raw \<Rightarrow>
          if raw = [] then Inl KeyRequired
          else case validateApiKey hash keys now raw (Some (resolveClientIp (kr_client req) trustedProxies)) (route_session req rt) of
              Inl e \<Rightarrow> Inl e
            | Inr k \<Rightarrow>
                (case rt_requiredRole rt of
                   Some required \<Rightarrow>
                     if \<not> hasPermission k required then Inl (Insufficient required)
                     else if rt_requireUnscoped rt \<and> list_nonempty (ak_sessions k) then Inl ScopedKey
                     else Inr k
                 | None \<Rightarrow>
                     if rt_requireUnscoped rt \<and> list_nonempty (ak_sessions k) then Inl ScopedKey else Inr k))"

section \<open>The lifecycle\<close>

definition usableAdmin :: "millis \<Rightarrow> api_key \<Rightarrow> bool" where
  "usableAdmin now k \<longleftrightarrow> ak_role k = ADMIN \<and> ak_active k
     \<and> (case ak_expires k of None \<Rightarrow> True | Some e \<Rightarrow> e > now)
     \<and> (ak_sessions k = Some [] \<or> ak_sessions k = None)"

text \<open>The rows a guarded statement may touch.\<close>

definition lastAdminGuard :: "millis \<Rightarrow> string \<Rightarrow> api_key list \<Rightarrow> api_key \<Rightarrow> bool" where
  "lastAdminGuard now i keys k \<longleftrightarrow> ak_id k = i
     \<and> (\<not> usableAdmin now k \<or> list_ex (\<lambda>other. ak_id other \<noteq> i \<and> usableAdmin now other) keys)"

text \<open>\<open>None\<close> is a field the body leaves out; \<open>Some None\<close> is \<open>null\<close>.\<close>

record update_dto =
  ud_name :: "string option"
  ud_role :: "api_key_role option"
  ud_ips :: "string list option option"
  ud_sessions :: "string list option option"
  ud_expires :: "millis option option"

definition strips_admin :: "update_dto \<Rightarrow> bool" where
  "strips_admin d \<longleftrightarrow>
     (case ud_role d of Some r \<Rightarrow> r \<noteq> ADMIN | None \<Rightarrow> False)
     \<or> (case ud_expires d of Some (Some _) \<Rightarrow> True | _ \<Rightarrow> False)
     \<or> list_nonempty (normalizeScopeList (case ud_sessions d of Some l \<Rightarrow> l | None \<Rightarrow> None))"

definition apply_patch :: "update_dto \<Rightarrow> api_key \<Rightarrow> api_key" where
  "apply_patch d k =
     k\<lparr>ak_name := (case ud_name d of Some n \<Rightarrow> if n \<noteq> [] then n else ak_name k | None \<Rightarrow> ak_name k),
       ak_role := (case ud_role d of Some r \<Rightarrow> r | None \<Rightarrow> ak_role k),
       ak_ips := (case ud_ips d of Some l \<Rightarrow> l | None \<Rightarrow> ak_ips k),
       ak_sessions := (case ud_sessions d of Some l \<Rightarrow> normalizeScopeList l | None \<Rightarrow> ak_sessions k),
       ak_expires := (case ud_expires d of Some e \<Rightarrow> e | None \<Rightarrow> ak_expires k)\<rparr>"

datatype evict_reason = AuthorizationChanged | DeletedKey | RevokedKey

record key_store =
  ks_keys :: "api_key list"
  ks_evicted :: "(string \<times> evict_reason) list"

definition find_key :: "key_store \<Rightarrow> string \<Rightarrow> api_key option" where
  "find_key s i = find (\<lambda>k. ak_id k = i) (ks_keys s)"

definition update_where :: "(api_key \<Rightarrow> bool) \<Rightarrow> (api_key \<Rightarrow> api_key) \<Rightarrow> key_store \<Rightarrow> key_store" where
  "update_where P f s = s\<lparr>ks_keys := map (\<lambda>k. if P k then f k else k) (ks_keys s)\<rparr>"

definition delete_where :: "(api_key \<Rightarrow> bool) \<Rightarrow> key_store \<Rightarrow> key_store" where
  "delete_where P s = s\<lparr>ks_keys := filter (\<lambda>k. \<not> P k) (ks_keys s)\<rparr>"

text \<open>\<open>assertMutationApplied\<close>: no row was affected, so the row is gone or the guard refused it.\<close>

definition refused_by :: "key_store \<Rightarrow> string \<Rightarrow> key_error" where
  "refused_by s i = (case find_key s i of None \<Rightarrow> NotFound i | Some _ \<Rightarrow> LastAdmin)"

definition evict :: "string \<Rightarrow> evict_reason \<Rightarrow> key_store \<Rightarrow> key_store" where
  "evict i reason s = s\<lparr>ks_evicted := ks_evicted s @ [(i, reason)]\<rparr>"

text \<open>The statement of \<open>update\<close>, given the row the method has read.\<close>

definition update_write :: "millis \<Rightarrow> string \<Rightarrow> update_dto \<Rightarrow> api_key \<Rightarrow> key_store \<Rightarrow> (key_error + api_key) \<times> key_store" where
  "update_write now i d before s =
     (let guarded = strips_admin d \<and> ak_role before = ADMIN;
          P = (if guarded then lastAdminGuard now i (ks_keys s) else (\<lambda>k. ak_id k = i)) in
      if \<not> list_ex P (ks_keys s) then (Inl (refused_by s i), s)
      else let s1 = update_where P (apply_patch d) s in
        case find_key s1 i of
          None \<Rightarrow> (Inl (NotFound i), s1)
        | Some saved \<Rightarrow>
            (Inr saved, if apiKeyAuthorizationFingerprint saved \<noteq> apiKeyAuthorizationFingerprint before
               then evict i AuthorizationChanged s1 else s1))"

definition delete_write :: "millis \<Rightarrow> string \<Rightarrow> api_key \<Rightarrow> key_store \<Rightarrow> (key_error + unit) \<times> key_store" where
  "delete_write now i before s =
     (if ak_role before = ADMIN then
        (if \<not> list_ex (lastAdminGuard now i (ks_keys s)) (ks_keys s) then (Inl (refused_by s i), s)
         else (Inr (), evict i DeletedKey (delete_where (lastAdminGuard now i (ks_keys s)) s)))
      else (Inr (), evict i DeletedKey (delete_where (\<lambda>k. ak_id k = i) s)))"

definition revoke_write :: "millis \<Rightarrow> string \<Rightarrow> api_key \<Rightarrow> key_store \<Rightarrow> (key_error + api_key) \<times> key_store" where
  "revoke_write now i before s =
     (let P = (if ak_role before = ADMIN then lastAdminGuard now i (ks_keys s) else (\<lambda>k. ak_id k = i)) in
      if \<not> list_ex P (ks_keys s) then (Inl (refused_by s i), s)
      else let s1 = update_where P (\<lambda>k. k\<lparr>ak_active := False\<rparr>) s in
        case find_key s1 i of
          None \<Rightarrow> (Inl (NotFound i), s1)
        | Some saved \<Rightarrow> (Inr saved, evict i RevokedKey s1))"

text \<open>The methods with nothing in between the read and the statement.\<close>

datatype key_op = Create api_key | Update string update_dto | Delete string | Revoke string

fun key_exec :: "millis \<Rightarrow> key_op \<Rightarrow> key_store \<Rightarrow> key_store" where
  "key_exec now (Create k) s =
     (if ak_id k \<in> ak_id ` set (ks_keys s) then s else s\<lparr>ks_keys := ks_keys s @ [k]\<rparr>)"
| "key_exec now (Update i d) s =
     (case find_key s i of None \<Rightarrow> s | Some k \<Rightarrow> snd (update_write now i d k s))"
| "key_exec now (Delete i) s =
     (case find_key s i of None \<Rightarrow> s | Some k \<Rightarrow> snd (delete_write now i k s))"
| "key_exec now (Revoke i) s =
     (case find_key s i of None \<Rightarrow> s | Some k \<Rightarrow> snd (revoke_write now i k s))"

section \<open>The last administrator\<close>

definition has_admin :: "millis \<Rightarrow> key_store \<Rightarrow> bool" where
  "has_admin now s \<longleftrightarrow> list_ex (usableAdmin now) (ks_keys s)"

definition keys_wf :: "key_store \<Rightarrow> bool" where
  "keys_wf s \<longleftrightarrow> distinct (map ak_id (ks_keys s))"

lemma apply_patch_id [simp]: "ak_id (apply_patch d k) = ak_id k"
  by (simp add: apply_patch_def)

lemma evict_keys [simp]: "ks_keys (evict i r s) = ks_keys s"
  by (simp add: evict_def)

lemma update_where_ids:
  "(\<And>k. ak_id (f k) = ak_id k) \<Longrightarrow> map ak_id (ks_keys (update_where P f s)) = map ak_id (ks_keys s)"
  by (simp add: update_where_def)

text \<open>A statement under the guard: either the touched row is no usable admin, or another one stays.\<close>

lemma guarded_update_keeps:
  assumes "has_admin now s"
  shows "has_admin now (update_where (lastAdminGuard now i (ks_keys s)) f s)"
proof -
  obtain a where a: "a \<in> set (ks_keys s)" "usableAdmin now a" using assms by (auto simp: has_admin_def list_ex_iff)
  show ?thesis
  proof (cases "lastAdminGuard now i (ks_keys s) a")
    case True
    then obtain b where b: "b \<in> set (ks_keys s)" "ak_id b \<noteq> i" "usableAdmin now b"
      using a by (auto simp: lastAdminGuard_def list_ex_iff)
    then have "\<not> lastAdminGuard now i (ks_keys s) b" by (simp add: lastAdminGuard_def)
    with b show ?thesis by (force simp: has_admin_def list_ex_iff update_where_def)
  next
    case False
    with a show ?thesis by (force simp: has_admin_def list_ex_iff update_where_def)
  qed
qed

lemma guarded_delete_keeps:
  assumes "has_admin now s"
  shows "has_admin now (delete_where (lastAdminGuard now i (ks_keys s)) s)"
proof -
  obtain a where a: "a \<in> set (ks_keys s)" "usableAdmin now a" using assms by (auto simp: has_admin_def list_ex_iff)
  show ?thesis
  proof (cases "lastAdminGuard now i (ks_keys s) a")
    case True
    then obtain b where "b \<in> set (ks_keys s)" "ak_id b \<noteq> i" "usableAdmin now b"
      using a by (auto simp: lastAdminGuard_def list_ex_iff)
    then show ?thesis by (auto simp: has_admin_def list_ex_iff delete_where_def lastAdminGuard_def)
  qed (use a in \<open>auto simp: has_admin_def list_ex_iff delete_where_def\<close>)
qed

lemma find_key_in: "find_key s i = Some k \<Longrightarrow> k \<in> set (ks_keys s) \<and> ak_id k = i"
  by (auto simp: find_key_def find_Some_iff)

lemma find_key_unique:
  "keys_wf s \<Longrightarrow> find_key s i = Some k \<Longrightarrow> k' \<in> set (ks_keys s) \<Longrightarrow> ak_id k' = i \<Longrightarrow> k' = k"
  using find_key_in [of s i k] by (auto simp: keys_wf_def distinct_map dest: inj_onD)

text \<open>An unguarded patch of an administrator leaves it as usable as it was.\<close>

lemma harmless_patch:
  assumes "\<not> strips_admin d" and "usableAdmin now k"
  shows "usableAdmin now (apply_patch d k)"
proof -
  have "normalizeScopeList l = None \<or> list_nonempty (normalizeScopeList l)" for l
    by (auto simp: normalizeScopeList_def list_nonempty_def Let_def split: option.splits)
  then have "(case ud_sessions d of Some l \<Rightarrow> normalizeScopeList l | None \<Rightarrow> None) = None"
    using assms(1) by (cases "ud_sessions d") (auto simp: strips_admin_def)
  then show ?thesis
    using assms by (auto simp: usableAdmin_def apply_patch_def strips_admin_def split: option.splits)
qed

lemma unguarded_update_keeps:
  assumes "keys_wf s" and "has_admin now s" and "find_key s i = Some before"
    and "\<And>k. usableAdmin now k \<Longrightarrow> ak_role before = ADMIN \<Longrightarrow> usableAdmin now (f k)"
  shows "has_admin now (update_where (\<lambda>k. ak_id k = i) f s)"
proof -
  obtain a where a: "a \<in> set (ks_keys s)" "usableAdmin now a" using assms by (auto simp: has_admin_def list_ex_iff)
  show ?thesis
  proof (cases "ak_id a = i")
    case True
    then have "a = before" using find_key_unique [OF assms(1,3) a(1)] by simp
    then have "usableAdmin now (f a)" using assms(4) [OF a(2)] a(2) by (simp add: usableAdmin_def)
    then show ?thesis using a(1) True by (force simp: has_admin_def list_ex_iff update_where_def)
  next
    case False
    then show ?thesis using a by (force simp: has_admin_def list_ex_iff update_where_def)
  qed
qed

lemma unguarded_delete_keeps:
  assumes "keys_wf s" and "has_admin now s" and "find_key s i = Some before" and "ak_role before \<noteq> ADMIN"
  shows "has_admin now (delete_where (\<lambda>k. ak_id k = i) s)"
proof -
  obtain a where a: "a \<in> set (ks_keys s)" "usableAdmin now a" using assms by (auto simp: has_admin_def list_ex_iff)
  then have "ak_id a \<noteq> i" using find_key_unique [OF assms(1,3) a(1)] assms(4) by (auto simp: usableAdmin_def)
  then show ?thesis using a by (auto simp: has_admin_def list_ex_iff delete_where_def)
qed

definition admin_inv :: "millis \<Rightarrow> key_store \<Rightarrow> bool" where
  "admin_inv now s \<longleftrightarrow> keys_wf s \<and> has_admin now s"

lemma admin_inv_evict [simp]: "admin_inv now (evict i r s) = admin_inv now s"
  by (simp add: admin_inv_def keys_wf_def has_admin_def)

lemma admin_inv_update:
  "admin_inv now s \<Longrightarrow> (\<And>k. ak_id (f k) = ak_id k) \<Longrightarrow> has_admin now (update_where P f s) \<Longrightarrow> admin_inv now (update_where P f s)"
  by (simp add: admin_inv_def keys_wf_def update_where_ids)

lemma admin_inv_delete: "admin_inv now s \<Longrightarrow> has_admin now (delete_where P s) \<Longrightarrow> admin_inv now (delete_where P s)"
  by (simp add: admin_inv_def keys_wf_def delete_where_def distinct_map_filter)

lemma key_exec_admin: "admin_inv now s \<Longrightarrow> admin_inv now (key_exec now e s)"
proof (cases e)
  case (Create k)
  assume "admin_inv now s"
  then show ?thesis using Create by (auto simp: admin_inv_def keys_wf_def has_admin_def)
next
  case (Update i d)
  assume inv: "admin_inv now s"
  show ?thesis
  proof (cases "find_key s i")
    case (Some before)
    have "has_admin now (update_where (lastAdminGuard now i (ks_keys s)) (apply_patch d) s)"
      using inv by (simp add: admin_inv_def guarded_update_keeps)
    moreover have "has_admin now (update_where (\<lambda>k. ak_id k = i) (apply_patch d) s)"
      if "\<not> (strips_admin d \<and> ak_role before = ADMIN)"
      using inv Some that by (intro unguarded_update_keeps) (auto simp: admin_inv_def harmless_patch)
    ultimately show ?thesis using Update Some inv
      by (auto simp: update_write_def Let_def admin_inv_update split: option.splits)
  qed (use Update inv in simp)
next
  case (Delete i)
  assume inv: "admin_inv now s"
  show ?thesis
  proof (cases "find_key s i")
    case (Some before)
    then show ?thesis using Delete inv
      by (auto simp: delete_write_def admin_inv_def [of now s] intro!: admin_inv_delete
          intro: guarded_delete_keeps unguarded_delete_keeps)
  qed (use Delete inv in simp)
next
  case (Revoke i)
  assume inv: "admin_inv now s"
  show ?thesis
  proof (cases "find_key s i")
    case (Some before)
    have "has_admin now (update_where (lastAdminGuard now i (ks_keys s)) (\<lambda>k. k\<lparr>ak_active := False\<rparr>) s)"
      using inv by (simp add: admin_inv_def guarded_update_keeps)
    moreover have "has_admin now (update_where (\<lambda>k. ak_id k = i) (\<lambda>k. k\<lparr>ak_active := False\<rparr>) s)" if "ak_role before \<noteq> ADMIN"
      using inv Some that by (intro unguarded_update_keeps) (auto simp: admin_inv_def)
    ultimately show ?thesis using Revoke Some inv
      by (auto simp: revoke_write_def Let_def admin_inv_update split: option.splits)
  qed (use Revoke inv in simp)
qed

interpretation lifecycle: event_machine "key_exec now" "admin_inv now" for now :: millis
  by unfold_locales (rule key_exec_admin)

section \<open>Properties\<close>


definition key_of :: "string \<Rightarrow> api_key_role \<Rightarrow> api_key" where
  "key_of i r = \<lparr>ak_id = i, ak_name = i, ak_hash = i, ak_role = r, ak_ips = None, ak_sessions = None,
     ak_active = True, ak_expires = None\<rparr>"

definition no_change :: update_dto where
  "no_change = \<lparr>ud_name = None, ud_role = None, ud_ips = None, ud_sessions = None, ud_expires = None\<rparr>"


text \<open>
  The guard refuses exactly the removal of the last usable administrator: deleting a key that was
  just read fails with that error if and only if the key is a usable administrator and no other one
  exists, and a refused deletion changes nothing and evicts nobody.
\<close>

theorem last_admin_refused_exactly:
  assumes "keys_wf s" and "find_key s i = Some k"
  shows "(fst (delete_write now i k s) = Inl LastAdmin) =
       (usableAdmin now k \<and> \<not> (\<exists>other \<in> set (ks_keys s). ak_id other \<noteq> i \<and> usableAdmin now other))
     \<and> (fst (delete_write now i k s) \<noteq> Inr () \<longrightarrow> snd (delete_write now i k s) = s)"
proof -
  have k: "k \<in> set (ks_keys s)" "ak_id k = i" using find_key_in [OF assms(2)] by auto
  have only: "k' = k" if "k' \<in> set (ks_keys s)" "ak_id k' = i" for k'
    using find_key_unique [OF assms that] .
  have "list_ex (lastAdminGuard now i (ks_keys s)) (ks_keys s) = lastAdminGuard now i (ks_keys s) k"
  proof
    assume "list_ex (lastAdminGuard now i (ks_keys s)) (ks_keys s)"
    then obtain x where x: "x \<in> set (ks_keys s)" "lastAdminGuard now i (ks_keys s) x" by (auto simp: list_ex_iff)
    then have "x = k" by (intro only) (simp_all add: lastAdminGuard_def)
    with x show "lastAdminGuard now i (ks_keys s) k" by simp
  qed (use k in \<open>auto simp: list_ex_iff\<close>)
  then have g: "list_ex (lastAdminGuard now i (ks_keys s)) (ks_keys s) \<longleftrightarrow>
      \<not> (usableAdmin now k \<and> \<not> (\<exists>other \<in> set (ks_keys s). ak_id other \<noteq> i \<and> usableAdmin now other))"
    using k(2) by (auto simp: lastAdminGuard_def list_ex_iff)
  have r: "refused_by s i = LastAdmin" using assms(2) by (simp add: refused_by_def)
  show ?thesis
  proof (cases "ak_role k = ADMIN")
    case True
    then show ?thesis unfolding delete_write_def g r by simp
  next
    case False
    then have "\<not> usableAdmin now k" by (simp add: usableAdmin_def)
    with False show ?thesis by (simp add: delete_write_def)
  qed
qed

theorem last_admin_refused_exactly_witness:
  "let s = \<lparr>ks_keys = [key_of ''a'' ADMIN, key_of ''b'' OPERATOR], ks_evicted = []\<rparr>
   in fst (delete_write 5 ''a'' (key_of ''a'' ADMIN) s) = Inl LastAdmin \<and> snd (delete_write 5 ''a'' (key_of ''a'' ADMIN) s) = s"
proof -
  let ?s = "\<lparr>ks_keys = [key_of ''a'' ADMIN, key_of ''b'' OPERATOR], ks_evicted = []\<rparr>"
  have "keys_wf ?s" "find_key ?s ''a'' = Some (key_of ''a'' ADMIN)" by (simp_all add: keys_wf_def key_of_def find_key_def)
  from last_admin_refused_exactly [OF this, of 5] show ?thesis
    by (simp add: usableAdmin_def key_of_def Let_def)
qed

lemmas lifecycle_eval =
  key_of_def no_change_def find_key_def update_write_def delete_write_def strips_admin_def
  normalizeScopeList_def list_nonempty_def apply_patch_def update_where_def delete_where_def evict_def
  lastAdminGuard_def usableAdmin_def apiKeyAuthorizationFingerprint_def Let_def

text \<open>
  The read that decides whether the guard is needed is not part of the guarded statement: a key
  that was no administrator when it was read, was then promoted, and outlived the deletion of the
  other administrator, is demoted without the guard, and no usable administrator is left.
\<close>

theorem stale_read_bypasses_guard:
  "let s0 = \<lparr>ks_keys = [key_of ''a'' ADMIN, key_of ''b'' OPERATOR], ks_evicted = []\<rparr>;
       before = key_of ''b'' OPERATOR;
       s1 = key_exec 0 (Update ''b'' (no_change\<lparr>ud_role := Some ADMIN\<rparr>)) s0;
       s2 = key_exec 0 (Delete ''a'') s1;
       s3 = snd (update_write 0 ''b'' (no_change\<lparr>ud_role := Some VIEWER\<rparr>) before s2)
   in find_key s0 ''b'' = Some before \<and> has_admin 0 s2 \<and> \<not> has_admin 0 s3"
  by (simp add: lifecycle_eval has_admin_def)

text \<open>
  A surviving administrator counts although its own expiry is already scheduled: giving each of
  two administrators an expiry passes the guard twice, and once both have expired no usable
  administrator is left.
\<close>

theorem scheduled_expiries_lock_out:
  "let s0 = \<lparr>ks_keys = [key_of ''a'' ADMIN, key_of ''b'' ADMIN], ks_evicted = []\<rparr>;
       s1 = fold (key_exec 0) [Update ''a'' (no_change\<lparr>ud_expires := Some (Some 1000)\<rparr>),
              Update ''b'' (no_change\<lparr>ud_expires := Some (Some 1000)\<rparr>)] s0
   in has_admin 0 s1 \<and> \<not> has_admin 1000 s1"
  by (simp add: lifecycle_eval has_admin_def)

lemma check_key_Inr: "check_key now ip sid k = Inr k' \<Longrightarrow> k' = k"
  by (auto simp: check_key_def Let_def split: if_splits)

lemma find_Some_in: "find P xs = Some x \<Longrightarrow> x \<in> set xs \<and> P x"
  by (auto simp: find_Some_iff)

lemma authorize_Inr:
  assumes "authorize hash keys now proxies req rt = Inr k"
  shows "\<exists>raw. extractApiKey req = Some raw
    \<and> validateApiKey hash keys now raw (Some (resolveClientIp (kr_client req) proxies)) (route_session req rt) = Inr k
    \<and> (case rt_requiredRole rt of Some r \<Rightarrow> hasPermission k r | None \<Rightarrow> True)
    \<and> \<not> (rt_requireUnscoped rt \<and> list_nonempty (ak_sessions k))"
  using assms by (auto simp: authorize_def split: option.splits sum.splits if_splits)

lemma hasPermission_order: "hasPermission k r \<longleftrightarrow> r \<le> ak_role k"
  by (simp add: hasPermission_def less_eq_api_key_role_def)

text \<open>
  C19. What passing the guard means: the key is an active, unexpired row whose hash is that of the
  presented credential; its role is at least the one the route asks for; with an address allowlist
  the resolved client address matches one of its entries; and a session-scoped key neither
  passes a route that needs an unscoped key nor one that names a session outside its scope.
\<close>

theorem guard_confines_keys:
  assumes "authorize hash keys now proxies req rt = Inr k"
  shows "k \<in> set keys \<and> ak_active k \<and> (case ak_expires k of Some e \<Rightarrow> now \<le> e | None \<Rightarrow> True)
    \<and> (\<exists>raw. extractApiKey req = Some raw \<and> ak_hash k = hash (js_trim raw))
    \<and> (case rt_requiredRole rt of Some r \<Rightarrow> r \<le> ak_role k | None \<Rightarrow> True)
    \<and> (if list_nonempty (ak_ips k)
       then \<exists>entry \<in> set (the (ak_ips k)). ipMatches (resolveClientIp (kr_client req) proxies) entry else True)
    \<and> (if list_nonempty (ak_sessions k)
       then \<not> rt_requireUnscoped rt \<and> (case route_session req rt of
          Some s \<Rightarrow> s = [] \<or> s \<in> set (the (ak_sessions k)) | None \<Rightarrow> True) else True)"
proof -
  obtain raw where raw: "extractApiKey req = Some raw"
      "validateApiKey hash keys now raw (Some (resolveClientIp (kr_client req) proxies)) (route_session req rt) = Inr k"
      and rt: "case rt_requiredRole rt of Some r \<Rightarrow> hasPermission k r | None \<Rightarrow> True"
      "\<not> (rt_requireUnscoped rt \<and> list_nonempty (ak_sessions k))"
    using authorize_Inr [OF assms] by blast
  then obtain k0 where k0: "find (\<lambda>k. ak_hash k = hash (js_trim raw)) keys = Some k0"
      "check_key now (Some (resolveClientIp (kr_client req) proxies)) (route_session req rt) k0 = Inr k"
    by (auto simp: validateApiKey_def split: option.splits)
  have k: "k = k0" using check_key_Inr [OF k0(2)] .
  have row: "k \<in> set keys" "ak_hash k = hash (js_trim raw)" using find_Some_in [OF k0(1)] k by simp_all
  have ck: "check_key now (Some (resolveClientIp (kr_client req) proxies)) (route_session req rt) k = Inr k"
    using k0(2) k by simp
  then have "ak_active k" "case ak_expires k of Some e \<Rightarrow> now \<le> e | None \<Rightarrow> True"
    by (auto simp: check_key_def Let_def split: if_splits option.splits)
  moreover have "if list_nonempty (ak_ips k)
       then \<exists>entry \<in> set (the (ak_ips k)). ipMatches (resolveClientIp (kr_client req) proxies) entry else True"
    using ck by (auto simp: check_key_def Let_def isIpAllowed_def list_ex_iff split: if_splits)
  moreover have "list_nonempty (ak_sessions k) \<Longrightarrow>
      (case route_session req rt of Some s \<Rightarrow> s = [] \<or> s \<in> set (the (ak_sessions k)) | None \<Rightarrow> True)"
    using ck by (auto simp: check_key_def Let_def split: if_splits option.splits)
  ultimately show ?thesis
    using row raw(1) rt by (auto simp: hasPermission_order split: option.splits)
qed

definition sample_request :: key_request where
  "sample_request = \<lparr>kr_xApiKey = None, kr_authorization = Some ''Bearer k1 '', kr_sessionId = Some ''s1'', kr_id = None,
     kr_client = \<lparr>rq_ip = None, rq_remoteAddress = Some ''10.0.0.9'', rq_xff = None\<rparr>\<rparr>"

definition sample_key :: api_key where
  "sample_key = (key_of ''k1'' OPERATOR)\<lparr>ak_sessions := Some [''s1'', ''s2'']\<rparr>"

theorem guard_confines_keys_witness:
  "sample_key \<in> set [sample_key] \<and> ak_active sample_key
    \<and> (\<exists>raw. extractApiKey sample_request = Some raw \<and> ak_hash sample_key = id (js_trim raw)) \<and> VIEWER \<le> ak_role sample_key"
proof -
  have "authorize id [sample_key] 7 [] sample_request
      \<lparr>rt_requiredRole = Some VIEWER, rt_sessionScoped = False, rt_requireUnscoped = False\<rparr> = Inr sample_key"
    by code_simp
  from guard_confines_keys [OF this] show ?thesis by auto
qed

text \<open>Two keys that differ at most in what the fingerprint ignores.\<close>

definition normalized_scope :: "string list option \<Rightarrow> bool" where
  "normalized_scope l \<longleftrightarrow> (case l of None \<Rightarrow> True | Some es \<Rightarrow> list_all (\<lambda>e. e \<noteq> [] \<and> js_trim e = e) es)"

lemma sort_eq_set: "sort xs = sort ys \<Longrightarrow> set xs = set ys" for xs ys :: "string list"
  by (metis set_sort)

lemma scope_same_members:
  assumes "normalized_scope l" and "normalized_scope l'"
    and "map_option sort (normalizeScopeList l) = map_option sort (normalizeScopeList l')"
  shows "list_nonempty l = list_nonempty l' \<and> (list_nonempty l \<longrightarrow> set (the l) = set (the l'))"
proof -
  have n: "normalizeScopeList m = (if list_nonempty m then m else None)" if "normalized_scope m" for m
  proof (cases m)
    case (Some es)
    with that have "map js_trim es = es" and "filter (\<lambda>e. length e > 0) es = es"
      by (auto simp: normalized_scope_def list_all_iff intro: map_idI)
    then show ?thesis using Some by (simp add: normalizeScopeList_def list_nonempty_def)
  qed (simp add: normalizeScopeList_def)
  show ?thesis
    using assms(3) unfolding n [OF assms(1)] n [OF assms(2)]
    by (cases l; cases l') (auto simp: list_nonempty_def split: if_splits dest: sort_eq_set)
qed



end
