(* ===== verification/Wa_Id.thy ===== *)
theory Wa_Id
  imports Prelude
begin

text \<open>
  Engine-neutral WhatsApp identities (src/src/engine/identity/wa-id.ts): the parser of a JID, the
  predicates on individual ids and the reduction of every dialect to the neutral one. The locale
  \<open>phone_resolver\<close> is the interface the reduction and the webhook filters use to learn the phone
  behind a privacy id; Lid_Store provides it.
\<close>

section \<open>The model\<close>

datatype wa_kind = KUser | KGroup | KLid | KStatus | KNewsletter | KBroadcast | KUnknown

text \<open>\<open>DOMAIN_KINDS\<close>, in the order of the source.\<close>

definition domain_kinds :: "(string, wa_kind) jsmap" where
  "domain_kinds =
     [(''c.us'', KUser), (''s.whatsapp.net'', KUser), (''lid'', KLid), (''hosted'', KUser),
      (''hosted.lid'', KLid), (''g.us'', KGroup), (''newsletter'', KNewsletter),
      (''broadcast'', KBroadcast)]"

record parsed_wa_id =
  wa_kind :: wa_kind
  wa_user :: string
  wa_device :: "string option"
  wa_raw :: string

definition userPart :: "string \<Rightarrow> string" where
  "userPart jid = hd (split_on CHR '':'' (hd (split_on CHR ''@'' jid)))"

definition parseWaId :: "string \<Rightarrow> parsed_wa_id" where
  "parseWaId jid =
     (let lower = js_lower (js_trim jid) in
      if lower = ''status@broadcast'' then
        \<lparr>wa_kind = KStatus, wa_user = ''status'', wa_device = None, wa_raw = jid\<rparr>
      else case last_index_of CHR ''@'' lower of
          None \<Rightarrow> \<lparr>wa_kind = KUnknown, wa_user = lower, wa_device = None, wa_raw = jid\<rparr>
        | Some at \<Rightarrow>
            let domain = drop (at + 1) lower;
                parts = split_on CHR '':'' (take at lower);
                kind = (case jm_get domain_kinds domain of Some k \<Rightarrow> k | None \<Rightarrow> KUnknown)
            in \<lparr>wa_kind = kind, wa_user = hd parts,
                wa_device = (case tl parts of [] \<Rightarrow> None | d # _ \<Rightarrow> Some d), wa_raw = jid\<rparr>)"

text \<open>\<open>NUMERIC_ID\<close>: at least five decimal digits and nothing else.\<close>

definition numeric_id :: "string \<Rightarrow> bool" where
  "numeric_id s \<longleftrightarrow> 5 \<le> length s \<and> list_all is_digit s"

definition isIndividualWid :: "string \<Rightarrow> bool" where
  "isIndividualWid v =
     (let p = parseWaId (js_trim v)
      in (wa_kind p = KUser \<or> wa_kind p = KLid) \<and> numeric_id (wa_user p))"

definition isAddressableParticipant :: "string \<Rightarrow> bool" where
  "isAddressableParticipant v =
     (let trimmed = js_trim v in isIndividualWid trimmed \<or> numeric_id trimmed)"

definition toParticipantWid :: "string \<Rightarrow> string" where
  "toParticipantWid v =
     (let trimmed = js_trim v in if numeric_id trimmed then trimmed @ ''@c.us'' else trimmed)"

text \<open>
  \<open>toNeutralJid\<close>: the resolver is optional, its answer \<open>null\<close> is \<open>None\<close>, and an empty phone
  counts as no answer, as the truth test of the code has it.
\<close>

definition toNeutralJid :: "string \<Rightarrow> (string \<Rightarrow> string option) option \<Rightarrow> string" where
  "toNeutralJid jid resolvePhone =
     (if jid = [] then jid
      else let parsed = parseWaId jid in
        case wa_kind parsed of
          KUser \<Rightarrow> wa_user parsed @ ''@c.us''
        | KGroup \<Rightarrow> wa_user parsed @ ''@g.us''
        | KLid \<Rightarrow>
            (case (case resolvePhone of None \<Rightarrow> None | Some f \<Rightarrow> f jid) of
               Some phone \<Rightarrow> if phone \<noteq> [] then phone @ ''@c.us'' else wa_user parsed @ ''@lid''
             | None \<Rightarrow> wa_user parsed @ ''@lid'')
        | KStatus \<Rightarrow> ''status@broadcast''
        | KNewsletter \<Rightarrow> wa_user parsed @ ''@newsletter''
        | KBroadcast \<Rightarrow> wa_user parsed @ ''@broadcast''
        | KUnknown \<Rightarrow> jid)"

definition isChannelJid :: "string \<Rightarrow> bool" where
  "isChannelJid jid \<longleftrightarrow> wa_kind (parseWaId jid) = KNewsletter"

datatype chat_kind = CIndividual | CGroup | CChannel | CStatus | CBroadcast | CUnknown

definition chatKind :: "string \<Rightarrow> chat_kind" where
  "chatKind jid =
     (case wa_kind (parseWaId jid) of
        KUser \<Rightarrow> CIndividual
      | KLid \<Rightarrow> CIndividual
      | KGroup \<Rightarrow> CGroup
      | KNewsletter \<Rightarrow> CChannel
      | KStatus \<Rightarrow> CStatus
      | KBroadcast \<Rightarrow> CBroadcast
      | KUnknown \<Rightarrow> CUnknown)"

section \<open>Parsing\<close>

text \<open>
  A local part the parser reads back as it is: lower case, no device separator, and nothing a trim
  of the whole id would remove.
\<close>

definition clean_local :: "string \<Rightarrow> bool" where
  "clean_local l \<longleftrightarrow> js_lower l = l \<and> CHR '':'' \<notin> set l \<and> (l = [] \<or> \<not> ws_char (hd l))"

text \<open>The neutral dialect of the module contract: its five domains and a clean local part.\<close>

definition neutral_domains :: "string list" where
  "neutral_domains = [''c.us'', ''g.us'', ''lid'', ''newsletter'', ''broadcast'']"

definition neutral_jid :: "string \<Rightarrow> bool" where
  "neutral_jid s \<longleftrightarrow> (\<exists>l d. s = l @ CHR ''@'' # d \<and> clean_local l \<and> d \<in> set neutral_domains)"

lemma userPart_eq: "userPart jid = takeWhile (\<lambda>c. c \<noteq> CHR '':'') (takeWhile (\<lambda>c. c \<noteq> CHR ''@'') jid)"
  by (simp add: userPart_def hd_split_on)

lemma colon_in_js_lower [simp]: "CHR '':'' \<in> set (js_lower s) \<longleftrightarrow> CHR '':'' \<in> set s"
  unfolding js_lower_def by (force simp: image_iff eq_commute [of "CHR '':''"])

lemma clean_local_digits [simp]: "list_all is_digit s \<Longrightarrow> clean_local s"
  by (cases s) (auto simp: clean_local_def list_all_iff js_lower_digits is_digit_def)

lemma takeWhile_hd: "takeWhile P xs \<noteq> [] \<Longrightarrow> hd (takeWhile P xs) = hd xs"
  by (cases xs) auto

lemma js_lower_takeWhile: "js_lower s = s \<Longrightarrow> js_lower (takeWhile P s) = takeWhile P s"
  by (metis append_eq_append_conv js_lower_append js_lower_def length_map takeWhile_dropWhile_id)

lemma js_lower_take: "js_lower s = s \<Longrightarrow> js_lower (take n s) = take n s"
  by (simp add: js_lower_def take_map flip: take_map)

text \<open>The user part of anything the parser recognises is clean.\<close>

lemma parseWaId_user_clean: "clean_local (wa_user (parseWaId jid)) \<or> wa_kind (parseWaId jid) = KUnknown"
proof -
  let ?l = "js_lower (js_trim jid)"
  have "clean_local (takeWhile (\<lambda>x. x \<noteq> CHR '':'') (take at ?l))" for at
  proof -
    let ?u = "takeWhile (\<lambda>x. x \<noteq> CHR '':'') (take at ?l)"
    have "js_lower ?u = ?u" by (intro js_lower_takeWhile js_lower_take) simp
    moreover have "CHR '':'' \<notin> set ?u" by (auto dest: set_takeWhileD)
    moreover have "\<not> ws_char (hd ?u)" if "?u \<noteq> []"
    proof -
      have ne: "?l \<noteq> []" and "hd ?u = hd (take at ?l)" using that by (auto simp: takeWhile_hd)
      moreover have "hd (take at ?l) = hd ?l" using that by (cases at; cases ?l) auto
      ultimately show ?thesis using hd_js_trim [of jid] by (simp add: hd_js_lower)
    qed
    ultimately show ?thesis by (auto simp: clean_local_def)
  qed
  then show ?thesis
    by (auto simp: parseWaId_def Let_def hd_split_on clean_local_def js_lower_def lower_char_def
          upper_code_def ws_char_def split: option.splits)
qed

lemma domain_not_at: "d \<in> fst ` set domain_kinds \<Longrightarrow> CHR ''@'' \<notin> set d"
  by (auto simp: domain_kinds_def)

lemma domain_lower: "d \<in> fst ` set domain_kinds \<Longrightarrow> js_lower d = d"
  by (auto simp: domain_kinds_def js_lower_def lower_char_def upper_code_def)

lemma domain_last: "d \<in> fst ` set domain_kinds \<Longrightarrow> d \<noteq> [] \<and> \<not> ws_char (last d)"
  by (auto simp: domain_kinds_def ws_char_def)

lemma ws_at [simp]: "\<not> ws_char CHR ''@''"
  by (simp add: ws_char_def)

lemma js_lower_at [simp]: "js_lower (CHR ''@'' # d) = CHR ''@'' # js_lower d"
  by (simp add: js_lower_def)

text \<open>A clean local part and a known domain are read back exactly.\<close>

lemma lower_trim_clean:
  assumes "clean_local l" and "d \<in> fst ` set domain_kinds"
  shows "js_lower (js_trim (l @ CHR ''@'' # d)) = l @ CHR ''@'' # d"
proof -
  have "js_trim (l @ CHR ''@'' # d) = l @ CHR ''@'' # d"
    using assms domain_last [OF assms(2)] by (intro js_trim_id) (cases l, auto simp: clean_local_def)
  then show ?thesis using assms by (simp add: clean_local_def domain_lower)
qed

lemma parseWaId_clean:
  assumes l: "clean_local l" and d: "jm_get domain_kinds d = Some k"
    and not_status: "l @ CHR ''@'' # d \<noteq> ''status@broadcast''"
  shows "parseWaId (l @ CHR ''@'' # d) =
    \<lparr>wa_kind = k, wa_user = l, wa_device = None, wa_raw = l @ CHR ''@'' # d\<rparr>"
proof -
  have dom: "d \<in> fst ` set domain_kinds" using d by (force dest: jm_get_in_set)
  have "last_index_of CHR ''@'' (l @ CHR ''@'' # d) = Some (length l)"
    using domain_not_at [OF dom] by (rule last_index_of_append)
  moreover have "split_on CHR '':'' l = [l]" using l by (intro split_on_absent) (simp add: clean_local_def)
  ultimately show ?thesis
    using not_status d by (simp add: parseWaId_def Let_def lower_trim_clean [OF l dom])
qed

lemma parseWaId_status [simp]: "wa_kind (parseWaId ''status@broadcast'') = KStatus"
  by (simp add: parseWaId_def Let_def js_trim_def js_lower_def ws_char_def lower_char_def upper_code_def)

lemmas domain_lookup = domain_kinds_def jm_get_def

section \<open>The neutral dialect\<close>

lemma neutral_jidI: "clean_local l \<Longrightarrow> d \<in> set neutral_domains \<Longrightarrow> neutral_jid (l @ CHR ''@'' # d)"
  unfolding neutral_jid_def by blast

text \<open>Reducing a neutral id again changes nothing, as long as no privacy id gets resolved.\<close>

lemma toNeutralJid_neutral:
  assumes "neutral_jid s"
  shows "toNeutralJid s None = s"
proof -
  from assms obtain l d where s: "s = l @ CHR ''@'' # d" and l: "clean_local l"
    and d: "d \<in> set neutral_domains" by (auto simp: neutral_jid_def)
  show ?thesis
  proof (cases "s = ''status@broadcast''")
    case False
    from d obtain k where k: "jm_get domain_kinds d = Some k" by (auto simp: neutral_domains_def domain_lookup)
    from False s have "l @ CHR ''@'' # d \<noteq> ''status@broadcast''" by simp
    from parseWaId_clean [OF l k this] k d show ?thesis
      by (auto simp: s toNeutralJid_def Let_def neutral_domains_def domain_lookup split: if_splits)
  qed (simp add: toNeutralJid_def)
qed

text \<open>Everything the parser recognises is reduced to a neutral id, whatever phone comes back.\<close>

lemma toNeutralJid_is_neutral:
  assumes "wa_kind (parseWaId jid) \<noteq> KUnknown" and "jid \<noteq> []"
    and "\<And>f phone. resolve = Some f \<Longrightarrow> f jid = Some phone \<Longrightarrow> list_all is_digit phone"
  shows "neutral_jid (toNeutralJid jid resolve)"
proof -
  have clean: "clean_local (wa_user (parseWaId jid))" using parseWaId_user_clean assms(1) by blast
  have status: "neutral_jid ''status@broadcast''"
    using neutral_jidI [of "''status''" "''broadcast''"]
    by (simp add: clean_local_def neutral_domains_def js_lower_def lower_char_def upper_code_def ws_char_def)
  have dom: "neutral_jid (u @ ''@c.us'')" "neutral_jid (u @ ''@g.us'')" "neutral_jid (u @ ''@lid'')"
    "neutral_jid (u @ ''@newsletter'')" "neutral_jid (u @ ''@broadcast'')" if "clean_local u" for u
    using that by (auto intro!: neutral_jidI simp: neutral_domains_def)
  show ?thesis
    using assms clean status
    by (auto simp: toNeutralJid_def Let_def dom split: wa_kind.splits option.splits)
qed

lemma toNeutralJid_unknown: "wa_kind (parseWaId jid) = KUnknown \<Longrightarrow> toNeutralJid jid r = jid"
  by (simp add: toNeutralJid_def Let_def)

text \<open>
  The interface of a privacy-id resolver: whatever the state of the store behind it, an answer is a
  phone number. Under it the reduction never leaves the neutral dialect.
\<close>

locale phone_resolver =
  fixes rinv :: "'s \<Rightarrow> bool" and resolve :: "'s \<Rightarrow> string \<Rightarrow> string option"
  assumes resolve_digits: "rinv s \<Longrightarrow> resolve s jid = Some phone \<Longrightarrow> list_all is_digit phone"
    and resolve_user: "userPart i = userPart j \<Longrightarrow> resolve s i = resolve s j"
begin

lemma reduce_neutral:
  assumes "rinv s" and "wa_kind (parseWaId jid) \<noteq> KUnknown" and "jid \<noteq> []"
  shows "neutral_jid (toNeutralJid jid (Some (resolve s)))"
  using assms by (intro toNeutralJid_is_neutral) (auto dest: resolve_digits)

text \<open>An id whose phone is known reduces to that phone, in whichever privacy dialect it comes.\<close>

lemma reduce_known_lid:
  assumes "wa_kind (parseWaId jid) = KLid" and "resolve s jid = Some phone" and "phone \<noteq> []"
  shows "toNeutralJid jid (Some (resolve s)) = phone @ ''@c.us''"
proof -
  have "jid \<noteq> []" using assms(1) by (auto simp: parseWaId_def js_lower_def)
  then show ?thesis using assms by (simp add: toNeutralJid_def Let_def)
qed

lemma reduce_same_user:
  assumes "wa_kind (parseWaId i) = KLid" and "wa_kind (parseWaId j) = KLid"
    and "userPart i = userPart j" and "resolve s i = Some phone" and "phone \<noteq> []"
  shows "toNeutralJid i (Some (resolve s)) = toNeutralJid j (Some (resolve s))"
  using assms resolve_user [of i j s] by (simp add: reduce_known_lid)

end

section \<open>Properties\<close>

lemma neq_by_rev: "rev s \<noteq> rev t \<Longrightarrow> s \<noteq> t"
  by blast

text \<open>
  Reducing a JID to the neutral dialect is idempotent on every input, recognised or not: a
  second pass through the engine boundary never changes an id again.
\<close>

theorem toNeutralJid_idempotent: "toNeutralJid (toNeutralJid jid None) None = toNeutralJid jid None"
proof (cases "jid = [] \<or> wa_kind (parseWaId jid) = KUnknown")
  case True
  then show ?thesis by (auto simp: toNeutralJid_def Let_def)
next
  case False
  then show ?thesis by (intro toNeutralJid_neutral toNeutralJid_is_neutral) auto
qed

lemma parseWaId_device:
  assumes l: "clean_local l" and dev: "js_lower dev = dev" "CHR ''@'' \<notin> set dev"
    and d: "jm_get domain_kinds d = Some k"
  shows "wa_kind (parseWaId (l @ CHR '':'' # dev @ CHR ''@'' # d)) = k
    \<and> wa_user (parseWaId (l @ CHR '':'' # dev @ CHR ''@'' # d)) = l"
proof -
  let ?s = "l @ CHR '':'' # dev @ CHR ''@'' # d"
  have dom: "d \<in> fst ` set domain_kinds" using d by (force dest: jm_get_in_set)
  have colon: "\<not> ws_char CHR '':''" "lower_char CHR '':'' = CHR '':''" by (simp_all add: ws_char_def)
  have "js_trim ?s = ?s"
    using l domain_last [OF dom] colon by (intro js_trim_id) (cases l, auto simp: clean_local_def)
  then have low: "js_lower (js_trim ?s) = ?s"
    using l dev domain_lower [OF dom] colon by (simp add: clean_local_def js_lower_def)
  have at: "last_index_of CHR ''@'' ?s = Some (length (l @ CHR '':'' # dev))"
    using last_index_of_append [OF domain_not_at [OF dom], of "l @ CHR '':'' # dev"] by simp
  have "CHR '':'' \<notin> set l" using l by (simp add: clean_local_def)
  then have "hd (split_on CHR '':'' (l @ CHR '':'' # dev)) = l" by (simp add: split_on_append)
  moreover have "?s \<noteq> ''status@broadcast''"
  proof
    assume "?s = ''status@broadcast''"
    then have "CHR '':'' \<in> set ''status@broadcast''" by (metis in_set_conv_decomp)
    then show False by simp
  qed
  ultimately show ?thesis using d low at by (simp add: parseWaId_def Let_def)
qed

lemma user_dialects_fold:
  assumes "clean_local n" and "d \<in> {''c.us'', ''s.whatsapp.net'', ''hosted''}"
    and "js_lower dev = dev" and "CHR ''@'' \<notin> set dev"
  shows "toNeutralJid (n @ CHR ''@'' # d) r = n @ ''@c.us''
    \<and> toNeutralJid (n @ CHR '':'' # dev @ CHR ''@'' # d) r = n @ ''@c.us''"
proof -
  have k: "jm_get domain_kinds d = Some KUser" using assms(2) by (auto simp: domain_lookup)
  have "n @ CHR ''@'' # d \<noteq> ''status@broadcast''"
    by (rule neq_by_rev) (use assms(2) in auto)
  from parseWaId_clean [OF assms(1) k this]
  have plain: "toNeutralJid (n @ CHR ''@'' # d) r = n @ ''@c.us''" by (simp add: toNeutralJid_def Let_def)
  from parseWaId_device [OF assms(1,3,4) k]
  have "toNeutralJid (n @ CHR '':'' # dev @ CHR ''@'' # d) r = n @ ''@c.us''"
    by (simp add: toNeutralJid_def Let_def)
  with plain show ?thesis by (rule conjI)
qed

text \<open>
  Dialect folding: the phone dialect of whatsapp-web.js, the raw protocol dialect of Baileys and
  the Meta-hosted one, with or without a device suffix, all reduce to the same neutral user id.
\<close>

theorem toNeutralJid_folds_user_dialects:
  assumes "clean_local n" and "d \<in> {''c.us'', ''s.whatsapp.net'', ''hosted''}"
    and "js_lower dev = dev" and "CHR ''@'' \<notin> set dev"
  shows "toNeutralJid (n @ CHR ''@'' # d) r = n @ ''@c.us''
    \<and> toNeutralJid (n @ CHR '':'' # dev @ CHR ''@'' # d) r = n @ ''@c.us''"
  using assms by (rule user_dialects_fold)

theorem toNeutralJid_folds_user_dialects_witness:
  "toNeutralJid ''628123@s.whatsapp.net'' None = ''628123@c.us''
    \<and> toNeutralJid ''628123:12@s.whatsapp.net'' None = ''628123@c.us''"
proof -
  have "clean_local ''628123''" by (rule clean_local_digits) (simp add: is_digit_def)
  moreover have "js_lower ''12'' = ''12''" by (rule js_lower_digits) (simp add: is_digit_def)
  ultimately show ?thesis
    using toNeutralJid_folds_user_dialects [of "''628123''" "''s.whatsapp.net''" "''12''" None] by simp
qed

text \<open>
  A participant accepted by the group endpoints is exactly one whose qualified form names an
  individual: qualifying never mints an id that the individual check would reject, and never
  rescues a value the participant check refuses.
\<close>

theorem participant_qualifies: "isIndividualWid (toParticipantWid v) \<longleftrightarrow> isAddressableParticipant v"
proof (cases "numeric_id (js_trim v)")
  case True
  let ?n = "js_trim v"
  from True have "clean_local ?n" by (simp add: numeric_id_def)
  moreover have "?n @ ''@c.us'' \<noteq> ''status@broadcast''" by (rule neq_by_rev) simp
  moreover have "js_trim (?n @ ''@c.us'') = ?n @ ''@c.us''"
    using True by (intro js_trim_id) (cases ?n, auto simp: numeric_id_def ws_char_def [of "CHR ''s''"])
  ultimately show ?thesis
    using True parseWaId_clean [of ?n "''c.us''" KUser]
    by (simp add: isIndividualWid_def toParticipantWid_def isAddressableParticipant_def Let_def domain_lookup)
next
  case False
  then show ?thesis by (simp add: toParticipantWid_def isAddressableParticipant_def Let_def)
qed

end
