(* ===== verification/Lid_Store.thy ===== *)
theory Lid_Store
  imports Wa_Id
begin

text \<open>
  The mirror of the lid-to-phone table (src/src/engine/identity/lid-mapping-store.service.ts). The
  forward map is a least-recently-used cache, the reverse map serves the sender filter, and the table
  itself is outside: its answers are arguments of the events. A method that awaits the table is split
  at the await: \<open>remember_start\<close> is what runs synchronously, \<open>remember_settle\<close> its \<open>finally\<close>;
  \<open>warmFromTable\<close> starts a query and \<open>warm_answer\<close> is its continuation.
\<close>

section \<open>The model\<close>

record lid_store =
  maxCachedLids :: nat
  lidToPhone :: "(string, string option) jsmap"
  phoneToLids :: "(string, string list) jsmap"
  pendingLookups :: "string list"
  absentFromTable :: "string list"
  unsettledWrites :: "string list"
  queries :: "(string \<times> bool) list"   \<comment> \<open>queries in flight, with the captured \<open>writeInFlight\<close>\<close>
  writes :: "string list"            \<comment> \<open>upserts in flight\<close>

definition lid_init :: "nat \<Rightarrow> lid_store" where
  "lid_init cap = \<lparr>maxCachedLids = cap, lidToPhone = [], phoneToLids = [], pendingLookups = [],
     absentFromTable = [], unsettledWrites = [], queries = [], writes = []\<rparr>"

text \<open>The truth test \<open>if (phone)\<close>: neither \<open>null\<close> nor the empty string.\<close>

definition truthy :: "string option \<Rightarrow> bool" where
  "truthy phone \<longleftrightarrow> phone \<noteq> None \<and> phone \<noteq> Some []"

definition set_delete :: "'a \<Rightarrow> 'a list \<Rightarrow> 'a list" where
  "set_delete x xs = filter (\<lambda>y. y \<noteq> x) xs"

text \<open>\<open>this.phoneToLids.get(phone)?.delete(lid)\<close>, when the phone is truthy.\<close>

definition drop_reverse :: "(string, string list) jsmap \<Rightarrow> string option \<Rightarrow> string \<Rightarrow> (string, string list) jsmap" where
  "drop_reverse m phone lid =
     (if truthy phone then
        (case jm_get m (the phone) of
           Some lids \<Rightarrow> jm_set m (the phone) (set_delete lid lids)
         | None \<Rightarrow> m)
      else m)"

fun evict_loop :: "nat \<Rightarrow> (string, string option) jsmap \<Rightarrow> (string, string list) jsmap
    \<Rightarrow> (string, string option) jsmap \<times> (string, string list) jsmap" where
  "evict_loop cap [] bk = ([], bk)"
| "evict_loop cap ((oldest, phone) # m) bk =
     (if length ((oldest, phone) # m) > cap then evict_loop cap m (drop_reverse bk phone oldest)
      else ((oldest, phone) # m, bk))"

definition evictIfOverCap :: "lid_store \<Rightarrow> lid_store" where
  "evictIfOverCap s =
     (if maxCachedLids s = 0 then s
      else case evict_loop (maxCachedLids s) (lidToPhone s) (phoneToLids s) of
          (fwd, bk) \<Rightarrow> s\<lparr>lidToPhone := fwd, phoneToLids := bk\<rparr>)"

text \<open>The stale reverse entry of a lid that had another phone.\<close>

definition drop_previous :: "(string, string option) jsmap \<Rightarrow> (string, string list) jsmap \<Rightarrow> string \<Rightarrow> string option
    \<Rightarrow> (string, string list) jsmap" where
  "drop_previous fwd bk lid phone =
     (case jm_get fwd lid of
        Some prev \<Rightarrow> if truthy prev \<and> prev \<noteq> phone then drop_reverse bk prev lid else bk
      | None \<Rightarrow> bk)"

definition index_lid :: "lid_store \<Rightarrow> string \<Rightarrow> string option \<Rightarrow> lid_store" where
  "index_lid s lid phone =
     (let back1 = drop_previous (lidToPhone s) (phoneToLids s) lid phone;
          back2 = (if truthy phone
              then let lids = (case jm_get back1 (the phone) of Some l \<Rightarrow> l | None \<Rightarrow> [])
                in jm_set back1 (the phone) (js_insert lids lid)
              else back1)
      in evictIfOverCap (s\<lparr>lidToPhone := jm_touch (lidToPhone s) lid phone, phoneToLids := back2,
           absentFromTable := set_delete lid (absentFromTable s)\<rparr>))"

definition noteAbsent :: "lid_store \<Rightarrow> string \<Rightarrow> lid_store" where
  "noteAbsent s lid =
     (if maxCachedLids s = 0 then s
      else s\<lparr>absentFromTable := evict_oldest (maxCachedLids s) (js_insert (absentFromTable s) lid)\<rparr>)"

definition warmFromTable :: "lid_store \<Rightarrow> string \<Rightarrow> lid_store" where
  "warmFromTable s lid =
     (if lid = [] \<or> lid \<in> set (pendingLookups s) \<or> lid \<in> set (absentFromTable s) then s
      else s\<lparr>pendingLookups := js_insert (pendingLookups s) lid,
             queries := queries s @ [(lid, lid \<in> set (unsettledWrites s))]\<rparr>)"

text \<open>What the table answers: a row with its phone, no row, or an error.\<close>

datatype table_answer = Row "string option" | NoRow | Failed

definition warm_answer :: "lid_store \<Rightarrow> string \<Rightarrow> bool \<Rightarrow> table_answer \<Rightarrow> lid_store" where
  "warm_answer s lid writeInFlight answer =
     (let held = jm_has (lidToPhone s) lid;
          s1 = (case answer of
              Row phone \<Rightarrow> if \<not> held then index_lid s lid phone else s
            | NoRow \<Rightarrow> if \<not> held \<and> \<not> writeInFlight then noteAbsent s lid else s
            | Failed \<Rightarrow> s)
      in s1\<lparr>pendingLookups := set_delete lid (pendingLookups s1)\<rparr>)"

text \<open>\<open>getCached\<close>: \<open>None\<close> is \<open>undefined\<close>, \<open>Some None\<close> is \<open>null\<close>.\<close>

definition getCached :: "lid_store \<Rightarrow> string \<Rightarrow> string option option \<times> lid_store" where
  "getCached s lid =
     (case jm_get (lidToPhone s) lid of
        Some phone \<Rightarrow> (Some phone, s\<lparr>lidToPhone := jm_touch (lidToPhone s) lid phone\<rparr>)
      | None \<Rightarrow> (None, warmFromTable s lid))"

definition resolveLid :: "lid_store \<Rightarrow> string \<Rightarrow> string option \<times> lid_store" where
  "resolveLid s jid =
     (case getCached s (userPart jid) of
        (cached, s') \<Rightarrow> (case cached of Some phone \<Rightarrow> phone | None \<Rightarrow> None, s'))"

definition lidsForPhone :: "lid_store \<Rightarrow> string \<Rightarrow> string list" where
  "lidsForPhone s phone = (case jm_get (phoneToLids s) phone of Some lids \<Rightarrow> lids | None \<Rightarrow> [])"

definition remember_start :: "lid_store \<Rightarrow> string \<Rightarrow> string option \<Rightarrow> lid_store" where
  "remember_start s lid phone =
     (if lid = [] \<or> jm_get (lidToPhone s) lid = Some phone then s
      else let s1 = index_lid s lid phone
        in s1\<lparr>unsettledWrites := js_insert (unsettledWrites s1) lid, writes := writes s1 @ [lid]\<rparr>)"

definition remember_settle :: "lid_store \<Rightarrow> string \<Rightarrow> lid_store" where
  "remember_settle s lid = s\<lparr>unsettledWrites := set_delete lid (unsettledWrites s)\<rparr>"

text \<open>\<open>reload\<close>: a read error leaves everything as it was.\<close>

definition reload :: "lid_store \<Rightarrow> (string \<times> string option) list option \<Rightarrow> lid_store" where
  "reload s rows =
     (case rows of
        None \<Rightarrow> s
      | Some rs \<Rightarrow>
          fold (\<lambda>r s. index_lid s (fst r) (snd r))
            (if maxCachedLids s > 0 then take (maxCachedLids s) rs else rs)
            (s\<lparr>lidToPhone := [], phoneToLids := [], absentFromTable := []\<rparr>))"

text \<open>
  The store driven by its callers and by the table. A settlement or an answer happens for an upsert or
  a query that is in flight.
\<close>

datatype lid_event =
    Get string
  | Resolve string
  | Remember string "string option"
  | Settle string
  | Answer string bool table_answer
  | Reload "(string \<times> string option) list option"

fun lid_exec :: "lid_event \<Rightarrow> lid_store \<Rightarrow> lid_store" where
  "lid_exec (Get lid) s = snd (getCached s lid)"
| "lid_exec (Resolve jid) s = snd (resolveLid s jid)"
| "lid_exec (Remember lid phone) s = remember_start s lid phone"
| "lid_exec (Settle lid) s =
     (if lid \<in> set (writes s) then remember_settle (s\<lparr>writes := remove1 lid (writes s)\<rparr>) lid else s)"
| "lid_exec (Answer lid w answer) s =
     (if (lid, w) \<in> set (queries s)
      then warm_answer (s\<lparr>queries := remove1 (lid, w) (queries s)\<rparr>) lid w answer else s)"
| "lid_exec (Reload rows) s = reload s rows"

section \<open>The reverse map follows the forward map\<close>

definition rget :: "(string, string list) jsmap \<Rightarrow> string \<Rightarrow> string list" where
  "rget bk p = (case jm_get bk p of Some lids \<Rightarrow> lids | None \<Rightarrow> [])"

definition rev_ok :: "(string, string option) jsmap \<Rightarrow> (string, string list) jsmap \<Rightarrow> bool" where
  "rev_ok fwd bk \<longleftrightarrow> jm_wf bk \<and> (\<forall>p. distinct (rget bk p)
     \<and> (\<forall>l. l \<in> set (rget bk p) \<longleftrightarrow> p \<noteq> [] \<and> jm_get fwd l = Some (Some p)))"

lemma set_delete_simps [simp]:
  "set (set_delete x xs) = set xs - {x}" "distinct xs \<Longrightarrow> distinct (set_delete x xs)"
  by (auto simp: set_delete_def)

lemma set_delete_id [simp]: "x \<notin> set xs \<Longrightarrow> set_delete x xs = xs"
  unfolding set_delete_def by (rule filter_True) auto

lemma rget_jm_set [simp]: "rget (jm_set m p ls) q = (if q = p then ls else rget m q)"
  by (simp add: rget_def)

lemma jm_set_get_id: "jm_get m k = Some v \<Longrightarrow> jm_set m k v = m"
  by (induction m k v rule: jm_set.induct) (auto simp: jm_get_def split: if_splits)

lemma rget_drop_reverse [simp]:
  "rget (drop_reverse bk phone lid) q = (if truthy phone \<and> q = the phone then set_delete lid (rget bk q) else rget bk q)"
  by (auto simp: drop_reverse_def rget_def set_delete_def split: option.splits)

lemma jm_wf_drop_reverse [simp]: "jm_wf bk \<Longrightarrow> jm_wf (drop_reverse bk phone lid)"
  by (auto simp: drop_reverse_def split: option.splits)

lemma truthy_Some [simp]: "truthy (Some p) \<longleftrightarrow> p \<noteq> []" "\<not> truthy None"
  by (simp_all add: truthy_def)

lemma jm_get_Cons: "jm_get ((a, b) # m) k = (if k = a then Some b else jm_get m k)"
  by (simp add: jm_get_def)

lemma jm_wf_Cons: "jm_wf ((a, b) # m) \<longleftrightarrow> jm_get m a = None \<and> jm_wf m"
  by (auto simp: jm_wf_def jm_get_def map_of_eq_None_iff)

lemma evict_loop_fwd: "fst (evict_loop cap fwd bk) = evict_oldest cap fwd"
  by (induct cap fwd bk rule: evict_loop.induct) auto

lemma evict_loop_ok: "jm_wf fwd \<Longrightarrow> rev_ok fwd bk \<Longrightarrow> rev_ok (fst (evict_loop cap fwd bk)) (snd (evict_loop cap fwd bk))"
proof (induction cap fwd bk rule: evict_loop.induct)
  case (2 cap oldest phone m bk)
  from "2.prems" have old: "jm_get m oldest = None" and wf: "jm_wf bk" and d: "distinct (rget bk p)"
    and r: "l \<in> set (rget bk p) \<longleftrightarrow> p \<noteq> [] \<and> (if l = oldest then Some phone else jm_get m l) = Some (Some p)" for l p
    by (auto simp: jm_wf_Cons rev_ok_def jm_get_Cons)
  have "l \<in> set (rget (drop_reverse bk phone oldest) p) \<longleftrightarrow> p \<noteq> [] \<and> jm_get m l = Some (Some p)" for l p
  proof (cases "l = oldest")
    case True
    then show ?thesis using old r [of l p] by (cases phone) (auto simp: truthy_def)
  next
    case False
    then show ?thesis using r [of l p] by auto
  qed
  then have "rev_ok m (drop_reverse bk phone oldest)" using wf d by (simp add: rev_ok_def)
  with 2 show ?case by (auto simp: jm_wf_Cons)
qed simp

lemma rev_ok_step:
  fixes lid phone
  assumes "jm_wf fwd" and "rev_ok fwd bk"
  defines "back1 \<equiv> drop_previous fwd bk lid phone"
  shows "rev_ok (jm_touch fwd lid phone)
    (if truthy phone then jm_set back1 (the phone) (js_insert (rget back1 (the phone)) lid) else back1)"
proof -
  have wf: "jm_wf back1" and d: "distinct (rget back1 p)" for p
    using assms unfolding back1_def rev_ok_def drop_previous_def by (auto split: option.splits)
  have *: "l \<in> set (rget back1 p) \<longleftrightarrow> p \<noteq> [] \<and> jm_get fwd l = Some (Some p) \<and> (l = lid \<longrightarrow> phone = Some p)" for l p
    using assms(2) unfolding back1_def rev_ok_def drop_previous_def
    by (cases "jm_get fwd lid"; cases "the (jm_get fwd lid)") (auto simp: truthy_def)
  show ?thesis
  proof (cases "truthy phone")
    case True
    then obtain q where q: "phone = Some q" "q \<noteq> []" by (auto simp: truthy_def)
    then show ?thesis using wf d * by (auto simp: rev_ok_def)
  next
    case False
    then show ?thesis using wf d * by (auto simp: rev_ok_def truthy_def)
  qed
qed

section \<open>The store as a bounded recency store\<close>

lemma evict_fields [simp]:
  "maxCachedLids (evictIfOverCap s) = maxCachedLids s" "pendingLookups (evictIfOverCap s) = pendingLookups s"
  "absentFromTable (evictIfOverCap s) = absentFromTable s" "unsettledWrites (evictIfOverCap s) = unsettledWrites s"
  "queries (evictIfOverCap s) = queries s" "writes (evictIfOverCap s) = writes s"
  by (simp_all add: evictIfOverCap_def split: prod.splits)

lemma index_fields [simp]:
  "maxCachedLids (index_lid s lid phone) = maxCachedLids s" "pendingLookups (index_lid s lid phone) = pendingLookups s"
  "absentFromTable (index_lid s lid phone) = set_delete lid (absentFromTable s)"
  "unsettledWrites (index_lid s lid phone) = unsettledWrites s"
  "queries (index_lid s lid phone) = queries s" "writes (index_lid s lid phone) = writes s"
  by (simp_all add: index_lid_def Let_def)

lemma evictIfOverCap_fwd: "lidToPhone (evictIfOverCap s) = evict_over (maxCachedLids s) (lidToPhone s)"
  using evict_loop_fwd [of "maxCachedLids s" "lidToPhone s" "phoneToLids s"]
  by (auto simp: evictIfOverCap_def evict_over_def split: prod.splits)

lemma index_fwd: "lidToPhone (index_lid s lid phone) = evict_over (maxCachedLids s) (jm_touch (lidToPhone s) lid phone)"
  by (simp add: index_lid_def evictIfOverCap_fwd Let_def)

lemma index_rev_ok:
  assumes "jm_wf (lidToPhone s)" and "rev_ok (lidToPhone s) (phoneToLids s)"
  shows "rev_ok (lidToPhone (index_lid s lid phone)) (phoneToLids (index_lid s lid phone))"
proof -
  have ev: "rev_ok (lidToPhone (evictIfOverCap t)) (phoneToLids (evictIfOverCap t))"
    if "jm_wf (lidToPhone t)" "rev_ok (lidToPhone t) (phoneToLids t)" for t
    using that evict_loop_ok [OF that, of "maxCachedLids t"] by (auto simp: evictIfOverCap_def split: prod.splits)
  show ?thesis
    unfolding index_lid_def Let_def
    using assms rev_ok_step [OF assms, of lid phone] by (intro ev) (auto simp: rget_def)
qed

interpretation lru: recency_store lidToPhone maxCachedLids index_lid
  by unfold_locales (simp_all add: index_fwd)

definition cache_inv :: "lid_store \<Rightarrow> bool" where
  "cache_inv s \<longleftrightarrow> jm_wf (lidToPhone s) \<and> rev_ok (lidToPhone s) (phoneToLids s)
     \<and> (0 < maxCachedLids s \<longrightarrow> length (lidToPhone s) \<le> maxCachedLids s)
     \<and> length (absentFromTable s) \<le> maxCachedLids s \<and> distinct (absentFromTable s)
     \<and> set (absentFromTable s) \<inter> fst ` set (lidToPhone s) = {}"

definition pending_inv :: "lid_store \<Rightarrow> bool" where
  "pending_inv s \<longleftrightarrow> pendingLookups s = map fst (queries s) \<and> distinct (map fst (queries s))"

definition lid_inv :: "lid_store \<Rightarrow> bool" where
  "lid_inv s \<longleftrightarrow> cache_inv s \<and> pending_inv s"

lemma keys_evict_touch: "fst ` set (evict_over cap (jm_touch m k v)) \<subseteq> insert k (fst ` set m)"
  using set_evict_over [of cap "jm_touch m k v"] by (force simp: jm_touch_eq jm_del_def)

lemma cache_inv_index: "cache_inv s \<Longrightarrow> cache_inv (index_lid s lid phone)"
proof -
  assume inv: "cache_inv s"
  have "set (set_delete lid (absentFromTable s)) \<inter> fst ` set (lidToPhone (index_lid s lid phone)) = {}"
    using inv keys_evict_touch [of "maxCachedLids s" "lidToPhone s" lid phone]
    unfolding cache_inv_def index_fwd by auto
  moreover have "length (set_delete lid (absentFromTable s)) \<le> maxCachedLids s"
    using inv unfolding cache_inv_def set_delete_def by (meson le_trans length_filter_le)
  moreover have "rev_ok (lidToPhone (index_lid s lid phone)) (phoneToLids (index_lid s lid phone))"
    and "jm_wf (lidToPhone (index_lid s lid phone))"
    using inv by (auto simp: cache_inv_def index_rev_ok lru.put_wf)
  ultimately show ?thesis using inv by (simp add: cache_inv_def lru.put_bounded)
qed

lemma cache_inv_noteAbsent: "cache_inv s \<Longrightarrow> \<not> jm_has (lidToPhone s) lid \<Longrightarrow> cache_inv (noteAbsent s lid)"
  using set_evict_oldest [of "maxCachedLids s" "js_insert (absentFromTable s) lid"]
  by (auto simp: cache_inv_def noteAbsent_def jm_has_def evict_oldest_drop)

lemma rev_ok_touch_same: "rev_ok fwd bk \<Longrightarrow> jm_get fwd lid = Some phone \<Longrightarrow> rev_ok (jm_touch fwd lid phone) bk"
  by (auto simp: rev_ok_def)

lemma cache_inv_touch:
  "cache_inv s \<Longrightarrow> jm_get (lidToPhone s) lid = Some phone \<Longrightarrow> cache_inv (s\<lparr>lidToPhone := jm_touch (lidToPhone s) lid phone\<rparr>)"
  using jm_get_in_set [of "lidToPhone s" lid phone]
  by (force simp: cache_inv_def rev_ok_touch_same length_jm_touch_held)

lemma cache_inv_frame [simp]:
  "cache_inv (s\<lparr>unsettledWrites := u\<rparr>) = cache_inv s" "cache_inv (s\<lparr>writes := w\<rparr>) = cache_inv s"
  "cache_inv (s\<lparr>pendingLookups := p\<rparr>) = cache_inv s" "cache_inv (s\<lparr>queries := q\<rparr>) = cache_inv s"
  by (simp_all add: cache_inv_def)

lemma pending_frame [simp]:
  "pending_inv (s\<lparr>unsettledWrites := u\<rparr>) = pending_inv s" "pending_inv (s\<lparr>writes := w\<rparr>) = pending_inv s"
  "pending_inv (s\<lparr>lidToPhone := f\<rparr>) = pending_inv s" "pending_inv (index_lid s lid phone) = pending_inv s"
  "pending_inv (noteAbsent s lid) = pending_inv s"
  by (simp_all add: pending_inv_def noteAbsent_def)

lemma noteAbsent_fields [simp]:
  "pendingLookups (noteAbsent s lid) = pendingLookups s" "queries (noteAbsent s lid) = queries s"
  by (simp_all add: noteAbsent_def)

lemma get_inv: "lid_inv s \<Longrightarrow> lid_inv (snd (getCached s lid))"
  by (auto simp: getCached_def lid_inv_def cache_inv_touch warmFromTable_def pending_inv_def js_insert_def
      split: option.splits)

lemma map_fst_remove1:
  "(k, w) \<in> set qs \<Longrightarrow> distinct (map fst qs) \<Longrightarrow> map fst (remove1 (k, w) qs) = set_delete k (map fst qs)"
proof (induction qs)
  case (Cons q qs)
  show ?case
  proof (cases "q = (k, w)")
    case True
    with Cons.prems have "set_delete k (map fst qs) = map fst qs" by simp
    with True show ?thesis by (simp add: set_delete_def)
  next
    case False
    with Cons.prems have "(k, w) \<in> set qs" "fst q \<noteq> k" by (auto simp: image_iff)
    with False Cons show ?thesis by (simp add: set_delete_def)
  qed
qed simp

lemma warm_answer_inv:
  assumes "lid_inv s" and "(lid, w) \<in> set (queries s)"
  shows "lid_inv (warm_answer (s\<lparr>queries := remove1 (lid, w) (queries s)\<rparr>) lid w answer)"
proof -
  let ?t = "s\<lparr>queries := remove1 (lid, w) (queries s)\<rparr>"
  have "cache_inv ?t" and d: "distinct (map fst (queries s))"
    using assms(1) by (simp_all add: lid_inv_def pending_inv_def)
  then have "cache_inv (warm_answer ?t lid w answer)"
    by (auto simp: warm_answer_def Let_def cache_inv_index cache_inv_noteAbsent split: table_answer.splits)
  moreover have "queries (warm_answer ?t lid w answer) = remove1 (lid, w) (queries s)"
    and "pendingLookups (warm_answer ?t lid w answer) = set_delete lid (pendingLookups s)"
    by (auto simp: warm_answer_def Let_def split: table_answer.splits)
  ultimately show ?thesis
    using assms(1) map_fst_remove1 [OF assms(2) d] d
    by (simp add: lid_inv_def pending_inv_def)
qed

lemma reload_inv: "lid_inv s \<Longrightarrow> lid_inv (reload s rows)"
proof (cases rows)
  case (Some rs)
  assume inv: "lid_inv s"
  have "lid_inv t \<Longrightarrow> lid_inv (fold (\<lambda>r s. index_lid s (fst r) (snd r)) rs' t)" for rs' t
    by (induction rs' arbitrary: t) (simp_all add: lid_inv_def cache_inv_index)
  moreover have "lid_inv (s\<lparr>lidToPhone := [], phoneToLids := [], absentFromTable := []\<rparr>)"
    using inv by (simp add: lid_inv_def cache_inv_def pending_inv_def rev_ok_def rget_def)
  ultimately show ?thesis using Some by (simp add: reload_def)
qed (simp add: reload_def)

lemma remember_inv: "lid_inv s \<Longrightarrow> lid_inv (remember_start s lid phone)"
  by (simp add: remember_start_def Let_def lid_inv_def cache_inv_index)

lemma lid_exec_inv: "lid_inv s \<Longrightarrow> lid_inv (lid_exec e s)"
proof (cases e)
  case (Resolve jid)
  moreover assume "lid_inv s"
  ultimately show ?thesis using get_inv [of s "userPart jid"] by (auto simp: resolveLid_def split: prod.splits)
next
  case (Settle lid)
  moreover assume "lid_inv s"
  ultimately show ?thesis by (simp add: remember_settle_def lid_inv_def)
qed (simp_all add: get_inv remember_inv warm_answer_inv reload_inv)

interpretation mirror: event_machine lid_exec lid_inv
  by unfold_locales (rule lid_exec_inv)

lemma init_inv: "lid_inv (lid_init cap)"
  by (simp add: lid_init_def lid_inv_def cache_inv_def pending_inv_def rev_ok_def rget_def)

section \<open>Properties\<close>

lemma index_fold_cap: "maxCachedLids (fold (\<lambda>r s. index_lid s (fst r) (snd r)) rs s) = maxCachedLids s"
  by (induction rs arbitrary: s) simp_all

lemma exec_cap [simp]: "maxCachedLids (lid_exec e s) = maxCachedLids s"
  by (cases e) (auto simp: getCached_def warmFromTable_def resolveLid_def remember_start_def Let_def
      remember_settle_def warm_answer_def noteAbsent_def reload_def index_fold_cap
      split: option.splits prod.splits table_answer.splits)

lemma run_cap [simp]: "maxCachedLids (fold lid_exec es s) = maxCachedLids s"
  by (induction es arbitrary: s) simp_all

lemma init_cap [simp]: "maxCachedLids (lid_init cap) = cap"
  by (simp add: lid_init_def)

lemma reachable_inv: "lid_inv (fold lid_exec es (lid_init cap))"
  by (rule mirror.run_inv [OF init_inv])

lemma lidsForPhone_rget: "lidsForPhone s p = rget (phoneToLids s) p"
  by (simp add: lidsForPhone_def rget_def)

text \<open>
  C12. The mirror under every sequence of reads, writes, table answers and reloads, in any order: the
  reverse lookup of a phone returns exactly the lids the forward map sends to it, each once; the
  forward map and the recorded absences stay within the cap (no absence is recorded when the cap
  is off); and a lid that is held is never also recorded as absent.
\<close>

theorem lid_mirror_consistent:
  "let s = fold lid_exec es (lid_init cap) in
     (\<forall>lid phone. lid \<in> set (lidsForPhone s phone) \<longleftrightarrow> phone \<noteq> [] \<and> jm_get (lidToPhone s) lid = Some (Some phone))
     \<and> (\<forall>phone. distinct (lidsForPhone s phone))
     \<and> (if cap = 0 then absentFromTable s = []
        else length (lidToPhone s) \<le> cap \<and> length (absentFromTable s) \<le> cap)
     \<and> set (absentFromTable s) \<inter> fst ` set (lidToPhone s) = {}"
  using reachable_inv [of es cap] run_cap [of es "lid_init cap"]
  by (auto simp: lid_inv_def cache_inv_def rev_ok_def lidsForPhone_rget Let_def)

abbreviation remember_all :: "(string \<times> string option) list \<Rightarrow> lid_event list" where
  "remember_all ms \<equiv> map (\<lambda>m. Remember (fst m) (snd m)) ms"

lemma remember_fwd:
  "lid \<noteq> [] \<Longrightarrow> jm_get (lidToPhone s) lid = None \<Longrightarrow> lidToPhone (remember_start s lid phone) = lidToPhone (index_lid s lid phone)"
  by (simp add: remember_start_def Let_def)

lemma index_fwd_cong:
  "lidToPhone s = lidToPhone t \<Longrightarrow> maxCachedLids s = maxCachedLids t \<Longrightarrow>
   lidToPhone (index_lid s lid phone) = lidToPhone (index_lid t lid phone)"
  by (simp add: index_fwd)

lemma disjoint_insert_step: "A \<subseteq> insert x B \<Longrightarrow> x \<notin> C \<Longrightarrow> C \<inter> B = {} \<Longrightarrow> C \<inter> A = {}"
  by blast

lemma remember_all_fwd:
  assumes "distinct (map fst ms)" and "[] \<notin> fst ` set ms" and "fst ` set ms \<inter> fst ` set (lidToPhone s) = {}"
    and "lidToPhone s = lidToPhone t" and "maxCachedLids s = maxCachedLids t"
  shows "lidToPhone (fold lid_exec (remember_all ms) s) = lidToPhone (lru.put_all t ms)"
  using assms
proof (induction ms arbitrary: s t)
  case (Cons m ms)
  let ?s = "remember_start s (fst m) (snd m)" and ?t = "index_lid t (fst m) (snd m)"
  have none: "jm_get (lidToPhone s) (fst m) = None" using Cons.prems(3) by (auto simp: jm_get_def map_of_eq_None_iff)
  have eq: "lidToPhone ?s = lidToPhone ?t"
    using remember_fwd [OF _ none] index_fwd_cong [OF Cons.prems(4,5)] Cons.prems(2) by auto
  have "fst ` set (lidToPhone ?s) \<subseteq> insert (fst m) (fst ` set (lidToPhone s))"
    unfolding eq index_fwd using Cons.prems(4) keys_evict_touch by metis
  moreover have "fst m \<notin> fst ` set ms" "fst ` set ms \<inter> fst ` set (lidToPhone s) = {}" using Cons.prems(1,3) by auto
  ultimately have "fst ` set ms \<inter> fst ` set (lidToPhone ?s) = {}" by (rule disjoint_insert_step)
  moreover have "maxCachedLids ?s = maxCachedLids ?t"
    using Cons.prems(5) exec_cap [of "Remember (fst m) (snd m)" s] by simp
  ultimately show ?case using Cons.IH [of ?s ?t] Cons.prems(1,2) eq by simp
qed simp

text \<open>
  Eviction takes the least recently written first: after any history, up to \<open>cap\<close> new mappings
  learned one after the other are all still resolvable from the cache.
\<close>

theorem recent_mappings_resolvable:
  assumes "distinct (map fst ms)" and "[] \<notin> fst ` set ms" and "cap = 0 \<or> length ms \<le> cap"
    and "fst ` set ms \<inter> fst ` set (lidToPhone (fold lid_exec es (lid_init cap))) = {}" and "(lid, phone) \<in> set ms"
  shows "fst (getCached (fold lid_exec (es @ remember_all ms) (lid_init cap)) lid) = Some phone"
proof -
  let ?s = "fold lid_exec es (lid_init cap)"
  have "jm_wf (lidToPhone ?s)" using reachable_inv [of es cap] by (simp add: lid_inv_def cache_inv_def)
  then have "jm_get (lidToPhone (lru.put_all ?s ms)) lid = Some phone"
    using lru.put_all_get [of ?s ms lid phone] assms by simp
  then have "jm_get (lidToPhone (fold lid_exec (remember_all ms) ?s)) lid = Some phone"
    using remember_all_fwd [OF assms(1,2,4), of ?s] by simp
  then show ?thesis by (simp add: getCached_def)
qed

theorem recent_mappings_resolvable_witness:
  "fst (getCached (fold lid_exec ([Remember ''1'' None] @ remember_all [(''2'', Some ''62''), (''3'', None)]) (lid_init 2)) ''2'')
     = Some (Some ''62'')"
  by (rule recent_mappings_resolvable) (simp_all add: lid_init_def remember_start_def index_lid_def
      drop_previous_def evictIfOverCap_def jm_get_def jm_touch_def jm_del_def truthy_def)

text \<open>
  An absence can be recorded for a lid that is being written: the flag that guards against it
  is captured when the query starts, so a write that starts after the query and is evicted before
  the answer goes unnoticed. In the run below (cap 1) the table answers the query for lid 1 before
  its row is committed; after the commit the lid is still taken for absent, its lookup is
  \<open>undefined\<close> and no query is issued any more, although the row exists.
\<close>

theorem absence_recorded_during_write:
  "let s = fold lid_exec [Get ''1'', Remember ''1'' (Some ''62''), Remember ''2'' (Some ''63''), Answer ''1'' False NoRow]
        (lid_init 1)
   in ''1'' \<in> set (unsettledWrites s) \<and> ''1'' \<in> set (absentFromTable s)
     \<and> getCached (lid_exec (Settle ''1'') s) ''1'' = (None, lid_exec (Settle ''1'') s)"
  by code_simp

lemma rev_keys_drop [simp]: "fst ` set (drop_reverse bk phone lid) = fst ` set bk"
proof -
  have "jm_get bk p = Some ls \<Longrightarrow> p \<in> fst ` set bk" for p ls by (force dest: jm_get_in_set)
  then show ?thesis by (auto simp: drop_reverse_def keys_set_jm_set insert_absorb split: option.splits)
qed

lemma rev_keys_evict [simp]: "fst ` set (phoneToLids (evictIfOverCap s)) = fst ` set (phoneToLids s)"
proof -
  have "fst ` set (snd (evict_loop cap fwd bk)) = fst ` set bk" for cap fwd bk
    by (induction cap fwd bk rule: evict_loop.induct) simp_all
  then show ?thesis by (simp add: evictIfOverCap_def split: prod.splits) (metis snd_conv)
qed

lemma rev_keys_index:
  "fst ` set (phoneToLids (index_lid s lid phone)) =
     (if truthy phone then insert (the phone) (fst ` set (phoneToLids s)) else fst ` set (phoneToLids s))"
  by (auto simp: index_lid_def Let_def drop_previous_def keys_set_jm_set split: option.splits)

lemma rev_keys_remember:
  assumes "lid_inv s" and "lid \<noteq> []" and "p \<noteq> []"
  shows "fst ` set (phoneToLids (remember_start s lid (Some p))) = insert p (fst ` set (phoneToLids s))"
proof (cases "jm_get (lidToPhone s) lid = Some (Some p)")
  case True
  then have "lid \<in> set (rget (phoneToLids s) p)" using assms by (auto simp: lid_inv_def cache_inv_def rev_ok_def)
  then have "p \<in> fst ` set (phoneToLids s)"
    using jm_has_iff [of "phoneToLids s" p] by (auto simp: rget_def jm_has_def split: option.splits)
  with True show ?thesis by (simp add: remember_start_def insert_absorb)
next
  case False
  then show ?thesis using assms(2,3) by (simp add: remember_start_def Let_def rev_keys_index)
qed

text \<open>
  The cap does not bound the reverse map: eviction empties a phone's set but keeps the key, so
  whatever the cap, every phone ever learned keeps an entry until the next reload.
\<close>

theorem reverse_map_keeps_every_phone:
  assumes "\<forall>m \<in> set ms. fst m \<noteq> [] \<and> snd m \<noteq> []"
  shows "fst ` set (phoneToLids (fold lid_exec (remember_all (map (\<lambda>m. (fst m, Some (snd m))) ms)) (lid_init cap)))
    = snd ` set ms"
  using assms
proof (induction ms rule: rev_induct)
  case (snoc m ms)
  let ?s = "fold lid_exec (remember_all (map (\<lambda>m. (fst m, Some (snd m))) ms)) (lid_init cap)"
  show ?case using snoc rev_keys_remember [of ?s "fst m" "snd m"] reachable_inv by simp
qed (simp add: lid_init_def)

theorem reverse_map_keeps_every_phone_witness:
  "fst ` set (phoneToLids (fold lid_exec (remember_all [(''1'', Some ''61''), (''2'', Some ''62''), (''3'', Some ''63'')]) (lid_init 1)))
    = {''61'', ''62'', ''63''}"
  using reverse_map_keeps_every_phone [of "[(''1'', ''61''), (''2'', ''62''), (''3'', ''63'')]" 1] by simp

text \<open>
  The preload reads the table newest first and indexes in that order, so the newest row becomes
  the oldest cache entry: with a full preload the first new mapping learned evicts the most recently
  written row and keeps the least recently written one.
\<close>

theorem preload_evicts_newest_first:
  assumes "distinct (map fst (newest # rows @ [oldest]))" and "cap = length rows + 2"
    and "lid \<noteq> []" and "lid \<notin> fst ` set (newest # rows @ [oldest])"
  shows "let s = fold lid_exec [Reload (Some (newest # rows @ [oldest])), Remember lid phone] (lid_init cap) in
     jm_get (lidToPhone s) (fst newest) = None \<and> jm_get (lidToPhone s) (fst oldest) = Some (snd oldest)"
proof -
  let ?all = "newest # rows @ [oldest]"
  let ?r = "reload (lid_init cap) (Some ?all)"
  have fold_eq: "fold (\<lambda>r s. index_lid s (fst r) (snd r)) rs s = lru.put_all s rs" for rs s
    by (induction rs arbitrary: s) simp_all
  have "(lid_init cap)\<lparr>lidToPhone := [], phoneToLids := [], absentFromTable := []\<rparr> = lid_init cap"
    by (simp add: lid_init_def)
  moreover have "take cap ?all = ?all" using assms(2) by simp
  ultimately have r: "?r = lru.put_all (lid_init cap) ?all"
    using assms(2) by (simp only: reload_def option.case init_cap fold_eq if_cancel)
  have "\<exists>old. lidToPhone (lru.put_all (lid_init cap) ?all) = old @ [] @ ?all"
    using assms(1,2) by (intro lru.put_all_recent) (simp_all add: lid_init_def)
  moreover have "length (lidToPhone ?r) \<le> cap"
    using lid_exec_inv [OF init_inv [of cap], of "Reload (Some ?all)"] exec_cap [of "Reload (Some ?all)" "lid_init cap"] assms(2)
    by (simp add: lid_inv_def cache_inv_def)
  ultimately have fwd: "lidToPhone ?r = ?all" unfolding r using assms(2) by auto
  have mx: "maxCachedLids ?r = cap" using exec_cap [of "Reload (Some ?all)" "lid_init cap"] by simp
  have none: "jm_get (lidToPhone ?r) lid = None" unfolding fwd using assms(4) by (auto simp: jm_get_def map_of_eq_None_iff)
  have "jm_del ?all lid = ?all" using assms(4) unfolding jm_del_def by (intro filter_True) force
  then have "lidToPhone (remember_start ?r lid phone) = rows @ [oldest, (lid, phone)]"
    using remember_fwd [OF assms(3) none, of phone] fwd mx assms(2)
    by (simp add: index_fwd jm_touch_eq evict_over_def)
  moreover have "map_of rows (fst oldest) = None" "map_of rows (fst newest) = None"
    using assms(1) by (auto simp: map_of_eq_None_iff)
  ultimately show ?thesis using assms(1,4) by (auto simp: Let_def jm_get_def map_add_def)
qed

theorem preload_evicts_newest_first_witness:
  "let s = fold lid_exec [Reload (Some [(''3'', Some ''63''), (''2'', None), (''1'', Some ''61'')]), Remember ''9'' None] (lid_init 3) in
     jm_get (lidToPhone s) ''3'' = None \<and> jm_get (lidToPhone s) ''1'' = Some (Some ''61'')"
  using preload_evicts_newest_first [of "(''3'', Some ''63'')" "[(''2'', None)]" "(''1'', Some ''61'')" 3 "''9''" None] by simp

section \<open>The store as a resolver\<close>

definition digits_inv :: "lid_store \<Rightarrow> bool" where
  "digits_inv s \<longleftrightarrow> (\<forall>lid phone. jm_get (lidToPhone s) lid = Some (Some phone) \<longrightarrow> list_all is_digit phone)"

lemma resolveLid_fst: "fst (resolveLid s jid) = (case jm_get (lidToPhone s) (userPart jid) of Some p \<Rightarrow> p | None \<Rightarrow> None)"
  by (simp add: resolveLid_def getCached_def split: option.splits)

interpretation resolver: phone_resolver digits_inv "\<lambda>s jid. fst (resolveLid s jid)"
  by unfold_locales (auto simp: digits_inv_def resolveLid_fst split: option.splits)

text \<open>
  Learning a mapping is enough for the whole engine boundary: after any history, a lid that was
  just learned reduces to its phone in every dialect it is written in, with or without a device.
\<close>

theorem learned_lid_reduces_to_phone:
  assumes "wa_kind (parseWaId jid) = KLid" and "userPart jid = lid" and "lid \<noteq> []" and "phone \<noteq> []"
  shows "let s = fold lid_exec (es @ [Remember lid (Some phone)]) (lid_init cap)
    in toNeutralJid jid (Some (\<lambda>j. fst (resolveLid s j))) = phone @ ''@c.us''"
proof -
  let ?s = "fold lid_exec es (lid_init cap)"
  have "jm_wf (lidToPhone ?s)" using reachable_inv [of es cap] by (simp add: lid_inv_def cache_inv_def)
  then have "jm_get (lidToPhone (remember_start ?s lid (Some phone))) lid = Some (Some phone)"
    using assms(3) lru.put_get [of ?s lid "Some phone"] by (simp add: remember_start_def Let_def)
  then have "fst (resolveLid (remember_start ?s lid (Some phone)) jid) = Some phone"
    using assms(2) by (simp add: resolveLid_fst)
  from resolver.reduce_known_lid [OF assms(1) this assms(4)] show ?thesis by (simp add: Let_def)
qed

theorem learned_lid_reduces_to_phone_witness:
  "let s = fold lid_exec ([Get ''77'', Remember ''78'' None] @ [Remember ''77'' (Some ''62811'')]) (lid_init 2)
    in toNeutralJid ''77:3@hosted.lid'' (Some (\<lambda>j. fst (resolveLid s j))) = ''62811'' @ ''@c.us''"
  by (rule learned_lid_reduces_to_phone) code_simp+

end
