(* ===== verification/Filters.thy ===== *)
theory Filters
  imports Lid_Store
begin

text \<open>
  Webhook filters (src/src/modules/webhook/filters): the registry of fields, the evaluator that decides
  whether a webhook fires for an event, and the validator of a stored filter. Payloads and stored
  filters are JSON values; an error of the validator is a constructor in place of its text.
\<close>

section \<open>JSON values\<close>

datatype jsval =
    JUndefined
  | JNull
  | JBool bool
  | JNum int
  | JStr string
  | JArr "jsval list"
  | JObj "(string \<times> jsval) list"

type_synonym payload = "(string \<times> jsval) list"

definition field_of :: "payload \<Rightarrow> string \<Rightarrow> jsval" where
  "field_of d f = (case map_of d f of Some v \<Rightarrow> v | None \<Rightarrow> JUndefined)"

fun str_of :: "jsval \<Rightarrow> string option" where
  "str_of (JStr s) = Some s"
| "str_of _ = None"

fun or_else :: "'a option \<Rightarrow> 'a option \<Rightarrow> 'a option" where
  "or_else (Some x) _ = Some x"
| "or_else None y = y"

section \<open>The registry\<close>

datatype filter_operator = OpIs | OpIsNot | OpContains | OpEquals

datatype field_kind = KId | KIdArray | KText | KEnum | KBoolean

record field_definition =
  fd_field :: string
  fd_kind :: field_kind
  fd_operators :: "filter_operator list"
  fd_enumValues :: "string list option"
  fd_resolve :: "payload \<Rightarrow> jsval"

definition MESSAGE_TYPES :: "string list" where
  "MESSAGE_TYPES = [''text'', ''image'', ''video'', ''audio'', ''voice'', ''document'', ''sticker'', ''location'',
     ''contact'', ''poll'', ''call'', ''revoked'', ''order'', ''product'', ''masked'', ''unknown'']"

definition CHAT_KINDS :: "string list" where
  "CHAT_KINDS = [''individual'', ''group'', ''channel'', ''status'', ''broadcast'', ''unknown'']"

fun kind_name :: "chat_kind \<Rightarrow> string" where
  "kind_name CIndividual = ''individual''"
| "kind_name CGroup = ''group''"
| "kind_name CChannel = ''channel''"
| "kind_name CStatus = ''status''"
| "kind_name CBroadcast = ''broadcast''"
| "kind_name CUnknown = ''unknown''"

definition opt_str :: "string option \<Rightarrow> jsval" where
  "opt_str x = (case x of Some s \<Rightarrow> JStr s | None \<Rightarrow> JUndefined)"

definition resolve_kind :: "payload \<Rightarrow> jsval" where
  "resolve_kind d =
     (case str_of (field_of d ''kind'') of
        Some k \<Rightarrow> if k \<noteq> [] then JStr k else
          (case str_of (field_of d ''chatId'') of Some c \<Rightarrow> if c \<noteq> [] then JStr (kind_name (chatKind c)) else JUndefined | None \<Rightarrow> JUndefined)
      | None \<Rightarrow>
          (case str_of (field_of d ''chatId'') of Some c \<Rightarrow> if c \<noteq> [] then JStr (kind_name (chatKind c)) else JUndefined | None \<Rightarrow> JUndefined))"

definition message_fields :: "field_definition list" where
  "message_fields =
     [\<lparr>fd_field = ''sender'', fd_kind = KId, fd_operators = [OpIs, OpIsNot], fd_enumValues = None,
       fd_resolve = (\<lambda>d. opt_str (or_else (str_of (field_of d ''author'')) (str_of (field_of d ''from''))))\<rparr>,
      \<lparr>fd_field = ''recipient'', fd_kind = KId, fd_operators = [OpIs, OpIsNot], fd_enumValues = None,
       fd_resolve = (\<lambda>d. opt_str (str_of (field_of d ''to'')))\<rparr>,
      \<lparr>fd_field = ''chatId'', fd_kind = KId, fd_operators = [OpIs, OpIsNot], fd_enumValues = None,
       fd_resolve = (\<lambda>d. opt_str (str_of (field_of d ''chatId'')))\<rparr>,
      \<lparr>fd_field = ''body'', fd_kind = KText, fd_operators = [OpContains, OpEquals], fd_enumValues = None,
       fd_resolve = (\<lambda>d. JStr (case str_of (field_of d ''body'') of Some s \<Rightarrow> s | None \<Rightarrow> []))\<rparr>,
      \<lparr>fd_field = ''type'', fd_kind = KEnum, fd_operators = [OpIs, OpIsNot], fd_enumValues = Some MESSAGE_TYPES,
       fd_resolve = (\<lambda>d. opt_str (str_of (field_of d ''type'')))\<rparr>,
      \<lparr>fd_field = ''isGroup'', fd_kind = KBoolean, fd_operators = [OpIs], fd_enumValues = None,
       fd_resolve = (\<lambda>d. JBool (field_of d ''isGroup'' = JBool True))\<rparr>,
      \<lparr>fd_field = ''kind'', fd_kind = KEnum, fd_operators = [OpIs, OpIsNot], fd_enumValues = Some CHAT_KINDS,
       fd_resolve = resolve_kind\<rparr>,
      \<lparr>fd_field = ''fromMe'', fd_kind = KBoolean, fd_operators = [OpIs], fd_enumValues = None,
       fd_resolve = (\<lambda>d. JBool (field_of d ''fromMe'' = JBool True))\<rparr>,
      \<lparr>fd_field = ''hasMedia'', fd_kind = KBoolean, fd_operators = [OpIs], fd_enumValues = None,
       fd_resolve = (\<lambda>d. JBool (field_of d ''hasMedia'' = JBool True \<or> (field_of d ''media'' \<noteq> JUndefined \<and> field_of d ''media'' \<noteq> JNull)))\<rparr>,
      \<lparr>fd_field = ''mentions'', fd_kind = KIdArray, fd_operators = [OpIs, OpIsNot], fd_enumValues = None,
       fd_resolve = (\<lambda>d. case field_of d ''mentionedIds'' of JArr xs \<Rightarrow> JArr xs | _ \<Rightarrow> JArr [])\<rparr>]"

definition FILTER_FIELDS :: "(string, field_definition list) jsmap" where
  "FILTER_FIELDS = [(''message'', message_fields)]"

definition eventFamily :: "string \<Rightarrow> string" where
  "eventFamily event = (case index_of CHR ''.'' event of None \<Rightarrow> event | Some dot \<Rightarrow> take dot event)"

definition getFieldDefinition :: "string \<Rightarrow> string \<Rightarrow> field_definition option" where
  "getFieldDefinition family field =
     (case jm_get FILTER_FIELDS family of Some defs \<Rightarrow> find (\<lambda>f. fd_field f = field) defs | None \<Rightarrow> None)"

fun findField_in :: "field_definition list list \<Rightarrow> string \<Rightarrow> field_definition option" where
  "findField_in [] field = None"
| "findField_in (defs # rest) field =
     (case find (\<lambda>f. fd_field f = field) defs of Some d \<Rightarrow> Some d | None \<Rightarrow> findField_in rest field)"

definition findFieldDefinition :: "string \<Rightarrow> field_definition option" where
  "findFieldDefinition field = findField_in (map snd FILTER_FIELDS) field"

section \<open>The evaluator\<close>

record filter_condition =
  fc_field :: string
  fc_operator :: filter_operator
  fc_value :: jsval
  fc_caseSensitive :: "bool option"

type_synonym lid_resolver = "(string \<Rightarrow> string option) option"

definition canonicalActor :: "string \<Rightarrow> lid_resolver \<Rightarrow> string" where
  "canonicalActor jid resolve = js_lower (toNeutralJid jid resolve)"

definition canonicalInput :: "string \<Rightarrow> lid_resolver \<Rightarrow> string" where
  "canonicalInput v resolve =
     (let trimmed = js_trim v in
      if trimmed \<noteq> [] \<and> CHR ''@'' \<notin> set trimmed
      then let digits = filter is_digit trimmed in js_lower ((if digits \<noteq> [] then digits else trimmed) @ ''@c.us'')
      else js_lower (toNeutralJid trimmed resolve))"

fun toStringArray :: "jsval \<Rightarrow> string list" where
  "toStringArray (JArr xs) = List.map_filter str_of xs"
| "toStringArray _ = []"

definition evaluateCondition :: "field_definition \<Rightarrow> filter_condition \<Rightarrow> payload \<Rightarrow> lid_resolver \<Rightarrow> bool" where
  "evaluateCondition def c d resolve =
     (let resolved = fd_resolve def d;
          caseSensitive = (case fc_caseSensitive c of Some b \<Rightarrow> b | None \<Rightarrow> False) in
      case fd_kind def of
        KId \<Rightarrow>
          let candidates = map (\<lambda>v. canonicalInput v resolve) (toStringArray (fc_value c));
              isMatch = (case str_of resolved of Some a \<Rightarrow> canonicalActor a resolve \<in> set candidates | None \<Rightarrow> False)
          in if fc_operator c = OpIsNot then \<not> isMatch else isMatch
      | KEnum \<Rightarrow>
          let isMatch = (case str_of resolved of Some a \<Rightarrow> a \<in> set (toStringArray (fc_value c)) | None \<Rightarrow> False)
          in if fc_operator c = OpIsNot then \<not> isMatch else isMatch
      | KIdArray \<Rightarrow>
          let candidates = map (\<lambda>v. canonicalInput v resolve) (toStringArray (fc_value c));
              intersects = list_ex (\<lambda>jid. canonicalActor jid resolve \<in> set candidates) (toStringArray resolved)
          in if fc_operator c = OpIsNot then \<not> intersects else intersects
      | KBoolean \<Rightarrow> resolved = JBool (fc_value c = JBool True)
      | KText \<Rightarrow>
          (case str_of (fc_value c) of
             None \<Rightarrow> True
           | Some needleRaw \<Rightarrow>
               let haystackRaw = (case str_of resolved of Some s \<Rightarrow> s | None \<Rightarrow> []);
                   haystack = (if caseSensitive then haystackRaw else js_lower haystackRaw);
                   needle = (if caseSensitive then needleRaw else js_lower needleRaw)
               in if fc_operator c = OpEquals then haystack = needle else includes_str needle haystack))"

fun all_conditions :: "string \<Rightarrow> filter_condition list \<Rightarrow> payload \<Rightarrow> lid_resolver \<Rightarrow> bool" where
  "all_conditions family [] d resolve = True"
| "all_conditions family (c # cs) d resolve =
     (case getFieldDefinition family (fc_field c) of
        None \<Rightarrow> all_conditions family cs d resolve
      | Some def \<Rightarrow> if \<not> evaluateCondition def c d resolve then False else all_conditions family cs d resolve)"

definition evaluateFilters :: "filter_condition list option \<Rightarrow> string \<Rightarrow> payload \<Rightarrow> lid_resolver \<Rightarrow> bool" where
  "evaluateFilters filters event d resolve =
     (case filters of
        None \<Rightarrow> True
      | Some cs \<Rightarrow> if cs = [] then True else all_conditions (eventFamily event) cs d resolve)"

section \<open>The validator\<close>

definition MAX_CONDITIONS :: nat where "MAX_CONDITIONS = 20"
definition MAX_VALUES_PER_CONDITION :: nat where "MAX_VALUES_PER_CONDITION = 100"
definition MAX_TEXT_VALUE_LENGTH :: nat where "MAX_TEXT_VALUE_LENGTH = 1000"

datatype filter_error =
    FiltersNotObject | ConditionsNotArray | TooManyConditions
  | NotObject nat | FieldNotString nat | UnknownField nat | BadOperator nat | OperatorNotAllowed nat
  | CaseNotBoolean nat | NotBoolean nat | NotString nat | TextTooLong nat | NotNonEmptyArray nat
  | TooManyValues nat | BadEntry nat | NotInEnum nat

definition parse_operator :: "string \<Rightarrow> filter_operator option" where
  "parse_operator s =
     (if s = ''is'' then Some OpIs else if s = ''isNot'' then Some OpIsNot
      else if s = ''contains'' then Some OpContains else if s = ''equals'' then Some OpEquals else None)"

text \<open>Destructuring: an array is an object without these properties.\<close>

fun object_fields :: "jsval \<Rightarrow> payload option" where
  "object_fields (JObj fs) = Some fs"
| "object_fields (JArr xs) = Some []"
| "object_fields _ = None"

fun check_entries :: "field_definition \<Rightarrow> nat \<Rightarrow> jsval list \<Rightarrow> filter_error option" where
  "check_entries def i [] = None"
| "check_entries def i (v # vs) =
     (case str_of v of
        None \<Rightarrow> Some (BadEntry i)
      | Some s \<Rightarrow>
          if length s = 0 then Some (BadEntry i)
          else if fd_kind def = KEnum \<and> (case fd_enumValues def of Some es \<Rightarrow> s \<notin> set es | None \<Rightarrow> False) then Some (NotInEnum i)
          else check_entries def i vs)"

definition check_value :: "field_definition \<Rightarrow> nat \<Rightarrow> jsval \<Rightarrow> filter_error option" where
  "check_value def i v =
     (case fd_kind def of
        KBoolean \<Rightarrow> (case v of JBool _ \<Rightarrow> None | _ \<Rightarrow> Some (NotBoolean i))
      | KText \<Rightarrow>
          (case v of JStr s \<Rightarrow> if length s > MAX_TEXT_VALUE_LENGTH then Some (TextTooLong i) else None | _ \<Rightarrow> Some (NotString i))
      | _ \<Rightarrow>
          (case v of
             JArr vs \<Rightarrow>
               if vs = [] then Some (NotNonEmptyArray i)
               else if length vs > MAX_VALUES_PER_CONDITION then Some (TooManyValues i)
               else check_entries def i vs
           | _ \<Rightarrow> Some (NotNonEmptyArray i)))"

definition validateCondition :: "jsval \<Rightarrow> nat \<Rightarrow> filter_error option" where
  "validateCondition condition i =
     (case object_fields condition of
        None \<Rightarrow> Some (NotObject i)
      | Some fs \<Rightarrow>
          (case str_of (field_of fs ''field'') of
             None \<Rightarrow> Some (FieldNotString i)
           | Some field \<Rightarrow>
               (case findFieldDefinition field of
                  None \<Rightarrow> Some (UnknownField i)
                | Some def \<Rightarrow>
                    (case Option.bind (str_of (field_of fs ''operator'')) parse_operator of
                       None \<Rightarrow> Some (BadOperator i)
                     | Some operator \<Rightarrow>
                         if operator \<notin> set (fd_operators def) then Some (OperatorNotAllowed i)
                         else if \<not> (case field_of fs ''caseSensitive'' of JUndefined \<Rightarrow> True | JBool _ \<Rightarrow> True | _ \<Rightarrow> False)
                           then Some (CaseNotBoolean i)
                         else check_value def i (field_of fs ''value'')))))"

definition collectFilterErrors :: "jsval \<Rightarrow> filter_error list" where
  "collectFilterErrors v =
     (if v = JNull \<or> v = JUndefined then []
      else case object_fields v of
          None \<Rightarrow> [FiltersNotObject]
        | Some fs \<Rightarrow>
            (case field_of fs ''conditions'' of
               JArr conditions \<Rightarrow>
                 if length conditions > MAX_CONDITIONS then [TooManyConditions]
                 else List.map_filter (\<lambda>(i, c). validateCondition c i) (List.enumerate 0 conditions)
             | _ \<Rightarrow> [ConditionsNotArray]))"

section \<open>Stored conditions\<close>

text \<open>How a stored condition reads as the evaluator's record.\<close>

definition decode_condition :: "jsval \<Rightarrow> filter_condition option" where
  "decode_condition c =
     (case object_fields c of
        None \<Rightarrow> None
      | Some fs \<Rightarrow>
          (case (str_of (field_of fs ''field''), Option.bind (str_of (field_of fs ''operator'')) parse_operator) of
             (Some field, Some operator) \<Rightarrow>
               Some \<lparr>fc_field = field, fc_operator = operator, fc_value = field_of fs ''value'',
                 fc_caseSensitive = (case field_of fs ''caseSensitive'' of JBool b \<Rightarrow> Some b | _ \<Rightarrow> None)\<rparr>
           | _ \<Rightarrow> None))"

text \<open>What the evaluator relies on: a known field, one of its operators, a value of the field's shape within the bounds.\<close>

definition good_value :: "field_definition \<Rightarrow> jsval \<Rightarrow> bool" where
  "good_value def v \<longleftrightarrow>
     (case fd_kind def of
        KBoolean \<Rightarrow> v \<in> {JBool True, JBool False}
      | KText \<Rightarrow> (\<exists>s. v = JStr s \<and> length s \<le> 1000)
      | _ \<Rightarrow> (\<exists>ss. v = JArr (map JStr ss) \<and> ss \<noteq> [] \<and> length ss \<le> 100 \<and> [] \<notin> set ss
          \<and> (case (fd_kind def, fd_enumValues def) of (KEnum, Some es) \<Rightarrow> set ss \<subseteq> set es | _ \<Rightarrow> True)))"

definition good_condition :: "filter_condition \<Rightarrow> bool" where
  "good_condition c \<longleftrightarrow> (\<exists>def. findFieldDefinition (fc_field c) = Some def
     \<and> fc_operator c \<in> set (fd_operators def) \<and> good_value def (fc_value c))"

lemma str_of_Some: "str_of v = Some s \<longleftrightarrow> v = JStr s"
  by (cases v) auto

lemma check_entries_None:
  "check_entries def i vs = None \<Longrightarrow>
   \<exists>ss. vs = map JStr ss \<and> [] \<notin> set ss \<and> (case (fd_kind def, fd_enumValues def) of (KEnum, Some es) \<Rightarrow> set ss \<subseteq> set es | _ \<Rightarrow> True)"
proof (induction vs)
  case Nil
  then show ?case by (intro exI [of _ "[]"]) (auto split: field_kind.splits option.splits)
next
  case (Cons v vs)
  then obtain s where v: "v = JStr s" "s \<noteq> []" and rest: "check_entries def i vs = None"
    and enum: "\<not> (fd_kind def = KEnum \<and> (case fd_enumValues def of Some es \<Rightarrow> s \<notin> set es | None \<Rightarrow> False))"
    by (auto simp: str_of_Some split: option.splits if_splits)
  from Cons.IH [OF rest] obtain ss where ss: "vs = map JStr ss" "[] \<notin> set ss"
    "case (fd_kind def, fd_enumValues def) of (KEnum, Some es) \<Rightarrow> set ss \<subseteq> set es | _ \<Rightarrow> True" by blast
  show ?case
    using v ss enum by (intro exI [of _ "s # ss"]) (auto split: field_kind.splits option.splits)
qed

lemma check_value_None: "check_value def i v = None \<Longrightarrow> good_value def v"
proof -
  assume a: "check_value def i v = None"
  have arr: "\<exists>vs. v = JArr vs \<and> vs \<noteq> [] \<and> length vs \<le> 100 \<and> check_entries def i vs = None"
    if "fd_kind def \<in> {KId, KIdArray, KEnum}"
    using a that by (auto simp: check_value_def MAX_VALUES_PER_CONDITION_def split: field_kind.splits jsval.splits if_splits)
  have list: "good_value def v" if kind: "fd_kind def \<in> {KId, KIdArray, KEnum}"
  proof -
    obtain vs where vs: "v = JArr vs" "vs \<noteq> []" "length vs \<le> 100" "check_entries def i vs = None"
      using arr [OF kind] by blast
    from check_entries_None [OF vs(4)] obtain ss where ss: "vs = map JStr ss" "[] \<notin> set ss"
      "case (fd_kind def, fd_enumValues def) of (KEnum, Some es) \<Rightarrow> set ss \<subseteq> set es | _ \<Rightarrow> True" by blast
    have "\<exists>ss. v = JArr (map JStr ss) \<and> ss \<noteq> [] \<and> length ss \<le> 100 \<and> [] \<notin> set ss
        \<and> (case (fd_kind def, fd_enumValues def) of (KEnum, Some es) \<Rightarrow> set ss \<subseteq> set es | _ \<Rightarrow> True)"
      using vs ss by (intro exI [of _ ss]) simp
    then show ?thesis using kind by (auto simp: good_value_def)
  qed
  have scalar: "good_value def v" if "fd_kind def \<in> {KText, KBoolean}"
    using a that by (auto simp: good_value_def check_value_def MAX_TEXT_VALUE_LENGTH_def split: jsval.splits if_splits)
  show ?thesis using list scalar by (cases "fd_kind def") auto
qed

lemma validateCondition_None:
  "validateCondition c i = None \<Longrightarrow> \<exists>fc. decode_condition c = Some fc \<and> good_condition fc"
  by (auto simp: validateCondition_def decode_condition_def good_condition_def intro!: check_value_None
      split: option.splits if_splits)

section \<open>Properties\<close>

text \<open>
  C31. A stored filter the validator accepts has at most twenty conditions, and every one of them is
  one the evaluator handles without falling back: a known field, an operator of that field, a value
  of its shape, with at most a hundred non-empty entries or a thousand characters.
\<close>

theorem accepted_filters_are_good:
  assumes "collectFilterErrors v = []"
  shows "v = JNull \<or> v = JUndefined \<or> (\<exists>fs cs. object_fields v = Some fs \<and> field_of fs ''conditions'' = JArr cs
    \<and> length cs \<le> 20 \<and> (\<forall>c \<in> set cs. \<exists>fc. decode_condition c = Some fc \<and> good_condition fc))"
proof (cases "v = JNull \<or> v = JUndefined")
  case False
  then obtain fs cs where fs: "object_fields v = Some fs" "field_of fs ''conditions'' = JArr cs" "length cs \<le> 20"
    and none: "List.map_filter (\<lambda>(i, c). validateCondition c i) (List.enumerate 0 cs) = []"
    using assms by (auto simp: collectFilterErrors_def MAX_CONDITIONS_def split: option.splits jsval.splits if_splits)
  have "validateCondition (cs ! i) i = None" if "i < length cs" for i
  proof (rule ccontr)
    assume "validateCondition (cs ! i) i \<noteq> None"
    moreover have "(i, cs ! i) \<in> set (List.enumerate 0 cs)" using that by (simp add: in_set_enumerate_eq)
    ultimately have "List.map_filter (\<lambda>(i, c). validateCondition c i) (List.enumerate 0 cs) \<noteq> []"
      by (force simp: List.map_filter_def filter_empty_conv)
    with none show False by simp
  qed
  then have "\<forall>c \<in> set cs. \<exists>fc. decode_condition c = Some fc \<and> good_condition fc"
    by (metis in_set_conv_nth validateCondition_None)
  with fs show ?thesis by blast
qed auto

theorem accepted_filters_are_good_witness:
  "\<exists>fc. decode_condition (JObj [(''field'', JStr ''type''), (''operator'', JStr ''is''), (''value'', JArr [JStr ''image''])]) = Some fc
     \<and> good_condition fc"
proof -
  let ?c = "JObj [(''field'', JStr ''type''), (''operator'', JStr ''is''), (''value'', JArr [JStr ''image''])]"
  have "collectFilterErrors (JObj [(''conditions'', JArr [?c])]) = []" by code_simp
  from accepted_filters_are_good [OF this] show ?thesis by (auto simp: field_of_def)
qed

lemma canonical_digits:
  assumes "list_all is_digit n" and "n \<noteq> []"
  shows "canonicalInput n r = n @ ''@c.us''"
proof -
  have "CHR ''@'' \<notin> set n" using assms(1) by (auto simp: list_all_iff is_digit_def)
  moreover have "filter is_digit n = n" using assms(1) by (simp add: filter_id_conv list_all_iff)
  moreover have "js_lower ''@c.us'' = ''@c.us''" by code_simp
  ultimately show ?thesis using assms by (simp add: canonicalInput_def Let_def)
qed

text \<open>The ids under which an engine may report the person with phone number \<open>n\<close>.\<close>

definition names_phone :: "lid_resolver \<Rightarrow> string \<Rightarrow> string \<Rightarrow> bool" where
  "names_phone resolve n jid \<longleftrightarrow>
     (\<exists>d dev. d \<in> {''c.us'', ''s.whatsapp.net'', ''hosted''} \<and> js_lower dev = dev \<and> CHR ''@'' \<notin> set dev
        \<and> jid \<in> {n @ CHR ''@'' # d, n @ CHR '':'' # dev @ CHR ''@'' # d})
     \<or> (wa_kind (parseWaId jid) = KLid \<and> (case resolve of Some f \<Rightarrow> f jid = Some n | None \<Rightarrow> False))"

lemma canonical_actor_phone:
  assumes "list_all is_digit n" and "n \<noteq> []" and "names_phone r n jid"
  shows "canonicalActor jid r = n @ ''@c.us''"
proof -
  have low: "js_lower (n @ ''@c.us'') = n @ ''@c.us''"
  proof -
    have "js_lower ''@c.us'' = ''@c.us''" by code_simp
    then show ?thesis using assms(1) by simp
  qed
  have "toNeutralJid jid r = n @ ''@c.us''"
  proof (cases "wa_kind (parseWaId jid) = KLid \<and> (case r of Some f \<Rightarrow> f jid = Some n | None \<Rightarrow> False)")
    case True
    then have "jid \<noteq> []" by (auto simp: parseWaId_def js_lower_def)
    with True assms(2) show ?thesis by (auto simp: toNeutralJid_def Let_def split: option.splits)
  next
    case False
    then obtain d dev where d: "d \<in> {''c.us'', ''s.whatsapp.net'', ''hosted''}" "js_lower dev = dev" "CHR ''@'' \<notin> set dev"
      "jid \<in> {n @ CHR ''@'' # d, n @ CHR '':'' # dev @ CHR ''@'' # d}"
      using assms(3) unfolding names_phone_def by blast
    then show ?thesis using user_dialects_fold [OF clean_local_digits [OF assms(1)] d(1-3)] by auto
  qed
  then show ?thesis by (simp only: canonicalActor_def low)
qed

text \<open>
  A phone rule follows the person: a condition on an id field whose value lists a bare phone
  number matches every id the engines may report for that person, in each user dialect, with or
  without a device, and as a privacy id the resolver knows; \<open>isNot\<close> excludes all of them.
\<close>

theorem phone_rule_matches_person:
  assumes "list_all is_digit n" and "n \<noteq> []" and "names_phone resolve n jid"
    and "fd_kind def = KId" and "fd_resolve def d = JStr jid" and "n \<in> set ns"
  shows "evaluateCondition def \<lparr>fc_field = f, fc_operator = op, fc_value = JArr (map JStr ns), fc_caseSensitive = cs\<rparr> d resolve
    = (op \<noteq> OpIsNot)"
proof -
  have "toStringArray (JArr (map JStr ns)) = ns" by (induction ns) (simp_all add: List.map_filter_def)
  then show ?thesis
    using assms(4,5,6) canonical_digits [OF assms(1,2), of resolve] canonical_actor_phone [OF assms(1-3)]
    by (force simp: evaluateCondition_def Let_def)
qed

theorem phone_rule_matches_person_witness:
  "let sender = hd message_fields in
     evaluateCondition sender \<lparr>fc_field = ''sender'', fc_operator = OpIsNot, fc_value = JArr [JStr ''628123''], fc_caseSensitive = None\<rparr>
       [(''author'', JStr ''4455:2@lid'')] (Some (\<lambda>_. Some ''628123'')) = False"
proof -
  have "list_all is_digit ''628123''" by (simp add: is_digit_def)
  moreover have "wa_kind (parseWaId ''4455:2@lid'') = KLid" by code_simp
  ultimately show ?thesis
    using phone_rule_matches_person [of "''628123''" "Some (\<lambda>_. Some ''628123'')" "''4455:2@lid''" "hd message_fields"
        "[(''author'', JStr ''4455:2@lid'')]" "[''628123'']" "''sender''" OpIsNot None]
    by (simp add: names_phone_def message_fields_def field_of_def opt_str_def Let_def)
qed

text \<open>
  An exclusion by conversation does not hold back delivery receipts: their payload carries no
  \<open>chatId\<close>, an \<open>is\<close> condition suppresses them all and an \<open>isNot\<close> condition lets them all through.
\<close>

theorem chat_conditions_on_receipts:
  assumes "map_of d ''chatId'' = None"
  shows "evaluateFilters (Some [\<lparr>fc_field = ''chatId'', fc_operator = op, fc_value = v, fc_caseSensitive = None\<rparr>]) ''message.ack'' d resolve
    = (op = OpIsNot)"
  using assms
  by (simp add: evaluateFilters_def eventFamily_def getFieldDefinition_def FILTER_FIELDS_def message_fields_def jm_get_def
      evaluateCondition_def field_of_def opt_str_def Let_def)

theorem chat_conditions_on_receipts_witness:
  "evaluateFilters (Some [\<lparr>fc_field = ''chatId'', fc_operator = OpIsNot, fc_value = JArr [JStr ''1@g.us''], fc_caseSensitive = None\<rparr>])
     ''message.ack'' [(''id'', JStr ''x''), (''status'', JStr ''read'')] None = (OpIsNot = OpIsNot)"
  by (rule chat_conditions_on_receipts) simp

end
