(* ===== verification/Hooks.thy ===== *)
theory Hooks
  imports Filters
begin

text \<open>
  Plugin hooks (src/src/core/hooks): the registry of handlers by event, the chain that runs them and
  the pre-send gate. A handler is a program that may fire further events and ends in a reply; a
  chain runs over the registrations as they stand when it begins. The registry is two maps, the
  handlers of each event in priority order and the ids each plugin registered.
\<close>

section \<open>Handlers\<close>

datatype 'd hook_reply =
    HookThrows
  | HookReply (hr_continue: bool) (hr_data: "'d option") (hr_error: "string option")

text \<open>\<open>Fire e d k\<close> is a handler that awaits \<open>hookManager.execute(e, d)\<close> and goes on with its result.\<close>

datatype 'd hook_action =
    Done "'d hook_reply"
  | Fire string 'd "bool \<times> 'd \<Rightarrow> 'd hook_action"

record 'd hook_registration =
  hr_id :: string
  hr_pluginId :: string
  hr_event :: string
  hr_handler :: "'d \<Rightarrow> 'd hook_action"
  hr_priority :: int

record 'd hook_manager =
  hm_hooks :: "(string, 'd hook_registration list) jsmap"
  hm_pluginHooks :: "(string, string list) jsmap"

definition hook_manager_new :: "'d hook_manager" where
  "hook_manager_new = \<lparr>hm_hooks = [], hm_pluginHooks = []\<rparr>"

definition hooks_of :: "'d hook_manager \<Rightarrow> string \<Rightarrow> 'd hook_registration list" where
  "hooks_of hm e = (case jm_get (hm_hooks hm) e of Some rs \<Rightarrow> rs | None \<Rightarrow> [])"

definition plugin_ids :: "'d hook_manager \<Rightarrow> string \<Rightarrow> string list" where
  "plugin_ids hm p = (case jm_get (hm_pluginHooks hm) p of Some ids \<Rightarrow> ids | None \<Rightarrow> [])"

section \<open>The registry\<close>

text \<open>\<open>stamp\<close> is the text of \<open>Date.now()\<close>; the sort of the language is stable, as \<open>sort_key\<close> is.\<close>

definition register_id :: "string \<Rightarrow> string \<Rightarrow> string \<Rightarrow> string" where
  "register_id stamp p e = p @ '':'' @ e @ '':'' @ stamp"

definition register :: "string \<Rightarrow> string \<Rightarrow> string \<Rightarrow> ('d \<Rightarrow> 'd hook_action) \<Rightarrow> int \<Rightarrow> 'd hook_manager \<Rightarrow> string \<times> 'd hook_manager" where
  "register stamp p e h prio hm =
     (let i = register_id stamp p e;
          r = \<lparr>hr_id = i, hr_pluginId = p, hr_event = e, hr_handler = h, hr_priority = prio\<rparr>
      in (i, hm\<lparr>hm_hooks := jm_set (hm_hooks hm) e (sort_key hr_priority (hooks_of hm e @ [r])),
              hm_pluginHooks := jm_set (hm_pluginHooks hm) p (js_insert (plugin_ids hm p) i)\<rparr>))"

text \<open>\<open>findIndex\<close> and \<open>splice\<close>: the first registration with the id goes, together with its owner.\<close>

fun splice_id :: "string \<Rightarrow> 'd hook_registration list \<Rightarrow> (string \<times> 'd hook_registration list) option" where
  "splice_id i [] = None"
| "splice_id i (r # rs) = (if hr_id r = i then Some (hr_pluginId r, rs)
     else (case splice_id i rs of Some (p, rs') \<Rightarrow> Some (p, r # rs') | None \<Rightarrow> None))"

fun unregister_in :: "string \<Rightarrow> (string, 'd hook_registration list) jsmap
    \<Rightarrow> (string \<times> (string, 'd hook_registration list) jsmap) option" where
  "unregister_in i [] = None"
| "unregister_in i ((e, rs) # m) =
     (case splice_id i rs of
        Some (p, rs') \<Rightarrow> Some (p, (e, rs') # m)
      | None \<Rightarrow> (case unregister_in i m of Some (p, m') \<Rightarrow> Some (p, (e, rs) # m') | None \<Rightarrow> None))"

definition unregister :: "string \<Rightarrow> 'd hook_manager \<Rightarrow> 'd hook_manager" where
  "unregister i hm =
     (case unregister_in i (hm_hooks hm) of
        None \<Rightarrow> hm
      | Some (p, m) \<Rightarrow>
          (case jm_get (hm_pluginHooks hm) p of
             None \<Rightarrow> hm\<lparr>hm_hooks := m\<rparr>
           | Some ids \<Rightarrow> hm\<lparr>hm_hooks := m, hm_pluginHooks := jm_set (hm_pluginHooks hm) p (filter (\<lambda>x. x \<noteq> i) ids)\<rparr>))"

definition unregisterPlugin :: "string \<Rightarrow> 'd hook_manager \<Rightarrow> 'd hook_manager" where
  "unregisterPlugin p hm =
     (case jm_get (hm_pluginHooks hm) p of
        None \<Rightarrow> hm
      | Some _ \<Rightarrow> hm\<lparr>hm_hooks := map (\<lambda>(e, rs). (e, filter (\<lambda>r. hr_pluginId r \<noteq> p) rs)) (hm_hooks hm),
                    hm_pluginHooks := jm_del (hm_pluginHooks hm) p\<rparr>)"

definition hasHooks :: "'d hook_manager \<Rightarrow> string \<Rightarrow> bool" where
  "hasHooks hm e \<longleftrightarrow> (case jm_get (hm_hooks hm) e of None \<Rightarrow> False | Some rs \<Rightarrow> 0 < length rs)"

definition getHookCount :: "'d hook_manager \<Rightarrow> string \<Rightarrow> nat" where
  "getHookCount hm e = length (hooks_of hm e)"

definition getPluginEvents :: "'d hook_manager \<Rightarrow> string \<Rightarrow> string list" where
  "getPluginEvents hm p = map fst (filter (\<lambda>(e, rs). \<exists>r \<in> set rs. hr_pluginId r = p) (hm_hooks hm))"

section \<open>Running a chain\<close>

primrec run_action :: "(string \<Rightarrow> 'd \<Rightarrow> bool \<times> 'd) \<Rightarrow> 'd hook_action \<Rightarrow> 'd hook_reply" where
  "run_action ex (Done r) = r"
| "run_action ex (Fire e d k) = run_action ex (k (ex e d))"

text \<open>The data of a reply is applied when it reports no error, before \<open>continue\<close> is looked at; an
  error that does not stop the chain is thrown into the catch of the loop.\<close>

fun runHandlers :: "(string \<Rightarrow> 'd \<Rightarrow> bool \<times> 'd) \<Rightarrow> 'd hook_registration list \<Rightarrow> 'd \<Rightarrow> bool \<times> 'd" where
  "runHandlers ex [] cur = (True, cur)"
| "runHandlers ex (r # rs) cur =
     (case run_action ex (hr_handler r cur) of
        HookThrows \<Rightarrow> runHandlers ex rs cur
      | HookReply cont d err \<Rightarrow>
          (let cur' = (if err = None then (case d of Some x \<Rightarrow> x | None \<Rightarrow> cur) else cur)
           in if \<not> cont then (False, cur') else runHandlers ex rs cur'))"

text \<open>
  \<open>execute\<close> under the events in flight on the active context: an event in flight is not run
  again, every other chain runs with its own event added.
\<close>

function execute :: "'d hook_manager \<Rightarrow> string list \<Rightarrow> string \<Rightarrow> 'd \<Rightarrow> bool \<times> 'd" where
  "execute hm inFlight e d =
     (if e \<in> set inFlight then (True, d)
      else if hooks_of hm e = [] then (True, d)
      else runHandlers (\<lambda>e' d'. execute hm (js_insert inFlight e) e' d') (hooks_of hm e) d)"
  by pat_completeness auto

lemma hooks_of_key: "hooks_of hm e \<noteq> [] \<Longrightarrow> e \<in> set (map fst (hm_hooks hm))"
  using jm_has_iff [of "hm_hooks hm" e] by (auto simp: hooks_of_def jm_has_def split: option.splits)

termination execute
proof (relation "measure (\<lambda>(hm, inFlight, _). card (set (map fst (hm_hooks hm)) - set inFlight))")
  fix hm :: "'d hook_manager" and inFlight e d e' and d' :: 'd
  assume "e \<notin> set inFlight" and "hooks_of hm e \<noteq> []"
  then have "e \<in> set (map fst (hm_hooks hm)) - set inFlight" using hooks_of_key by blast
  then have "set (map fst (hm_hooks hm)) - set (js_insert inFlight e) \<subset> set (map fst (hm_hooks hm)) - set inFlight"
    by auto
  then show "((hm, js_insert inFlight e, e', d'), hm, inFlight, e, d)
      \<in> measure (\<lambda>(hm, inFlight, _). card (set (map fst (hm_hooks hm)) - set inFlight))"
    by (auto intro!: psubset_card_mono)
qed simp

declare execute.simps [simp del]

definition runInFlight :: "string list \<Rightarrow> string list \<Rightarrow> (string list \<Rightarrow> 'a) \<Rightarrow> 'a" where
  "runInFlight store events fn = fn (fold (\<lambda>e s. js_insert s e) events store)"

definition isInFlight :: "string list \<Rightarrow> string \<Rightarrow> bool" where
  "isInFlight store e \<longleftrightarrow> e \<in> set store"

section \<open>The pre-send gate\<close>

datatype gate_result = GateInput jsval | GateVeto | GateUnreadable

fun usable_input :: "jsval \<Rightarrow> jsval option" where
  "usable_input (JObj o1) =
     (case field_of o1 ''input'' of JObj i \<Rightarrow> Some (JObj i) | JArr i \<Rightarrow> Some (JArr i) | _ \<Rightarrow> None)"
| "usable_input _ = None"

definition gate_envelope :: "string \<Rightarrow> string \<Rightarrow> jsval \<Rightarrow> jsval" where
  "gate_envelope sessionId ty inp = JObj [(''sessionId'', JStr sessionId), (''input'', inp), (''type'', JStr ty)]"

definition applySendingGate :: "jsval hook_manager \<Rightarrow> string list \<Rightarrow> string \<Rightarrow> string \<Rightarrow> jsval \<Rightarrow> gate_result" where
  "applySendingGate hm inFlight sessionId ty inp =
     (case execute hm inFlight ''message:sending'' (gate_envelope sessionId ty inp) of
        (cont, data) \<Rightarrow>
          if \<not> cont then GateVeto
          else if data = JUndefined then GateInput inp
          else (case usable_input data of Some i \<Rightarrow> GateInput i | None \<Rightarrow> GateUnreadable))"

section \<open>The registry, looked up\<close>

definition registration :: "string \<Rightarrow> string \<Rightarrow> string \<Rightarrow> ('d \<Rightarrow> 'd hook_action) \<Rightarrow> int \<Rightarrow> 'd hook_registration" where
  "registration stamp p e h prio =
     \<lparr>hr_id = register_id stamp p e, hr_pluginId = p, hr_event = e, hr_handler = h, hr_priority = prio\<rparr>"

lemma registration_simps [simp]:
  "hr_id (registration stamp p e h prio) = register_id stamp p e"
  "hr_pluginId (registration stamp p e h prio) = p"
  "hr_event (registration stamp p e h prio) = e"
  "hr_handler (registration stamp p e h prio) = h"
  "hr_priority (registration stamp p e h prio) = prio"
  by (simp_all add: registration_def)

lemma hooks_of_new [simp]: "hooks_of hook_manager_new e = []"
  by (simp add: hooks_of_def hook_manager_new_def jm_get_def)

lemma hooks_of_register [simp]:
  "hooks_of (snd (register stamp p e h prio hm)) e' =
     (if e' = e then sort_key hr_priority (hooks_of hm e @ [registration stamp p e h prio]) else hooks_of hm e')"
  by (simp add: register_def Let_def hooks_of_def registration_def)

lemma pluginHooks_register [simp]:
  "jm_get (hm_pluginHooks (snd (register stamp p e h prio hm))) q =
     (if q = p then Some (js_insert (plugin_ids hm p) (register_id stamp p e)) else jm_get (hm_pluginHooks hm) q)"
  by (simp add: register_def Let_def)

lemma fst_register [simp]: "fst (register stamp p e h prio hm) = register_id stamp p e"
  by (simp add: register_def Let_def)

section \<open>Faulty plugins\<close>

text \<open>A handler fails when, on any data and whatever its nested chains return, it throws or reports
  an error without stopping the chain.\<close>

definition reply_fails :: "'d hook_reply \<Rightarrow> bool" where
  "reply_fails r = (case r of HookThrows \<Rightarrow> True | HookReply cont d err \<Rightarrow> cont \<and> err \<noteq> None)"

definition always_fails :: "('d \<Rightarrow> 'd hook_action) \<Rightarrow> bool" where
  "always_fails h \<longleftrightarrow> (\<forall>ex d. reply_fails (run_action ex (h d)))"

lemma runHandlers_fails:
  "reply_fails (run_action ex (hr_handler r cur)) \<Longrightarrow> runHandlers ex (r # rs) cur = runHandlers ex rs cur"
  by (auto simp: reply_fails_def split: hook_reply.splits)

lemma runHandlers_filter:
  assumes "\<And>r. r \<in> set rs \<Longrightarrow> \<not> P r \<Longrightarrow> always_fails (hr_handler r)"
  shows "runHandlers ex (filter P rs) d = runHandlers ex rs d"
  using assms
proof (induction rs arbitrary: d)
  case (Cons r rs)
  show ?case
  proof (cases "P r")
    case True
    then show ?thesis using Cons.IH Cons.prems by (auto split: hook_reply.splits simp: Let_def)
  next
    case False
    then have "reply_fails (run_action ex (hr_handler r d))"
      using Cons.prems [of r] by (simp add: always_fails_def)
    then show ?thesis using False Cons.IH Cons.prems runHandlers_fails [of ex r d rs] by simp
  qed
qed simp

lemma map_of_map_snd: "map_of (map (\<lambda>(k, v). (k, f v)) m) k = map_option f (map_of m k)"
  by (induction m) auto

lemma hooks_of_unregisterPlugin:
  "hooks_of (unregisterPlugin p hm) e =
     (if jm_get (hm_pluginHooks hm) p = None then hooks_of hm e
      else filter (\<lambda>r. hr_pluginId r \<noteq> p) (hooks_of hm e))"
  by (auto simp: unregisterPlugin_def hooks_of_def jm_get_def map_of_map_snd split: option.splits)

lemma pluginHooks_unregisterPlugin:
  "jm_get (hm_pluginHooks (unregisterPlugin p hm)) q = (if q = p then None else jm_get (hm_pluginHooks hm) q)"
  by (auto simp: unregisterPlugin_def split: option.splits)

lemma execute_in_flight: "e \<in> set inFlight \<Longrightarrow> execute hm inFlight e d = (True, d)"
  by (simp add: execute.simps)

lemma execute_unfold: "e \<notin> set inFlight \<Longrightarrow>
    execute hm inFlight e d = runHandlers (execute hm (js_insert inFlight e)) (hooks_of hm e) d"
  by (subst execute.simps) simp


definition crashing :: "jsval \<Rightarrow> jsval hook_action" where
  "crashing d = Fire ''message:sent'' d (\<lambda>r. Done HookThrows)"

definition relabel :: "jsval \<Rightarrow> jsval hook_action" where
  "relabel d = Done (HookReply True (Some (JObj [(''input'', JArr [])])) None)"

definition two_plugins :: "jsval hook_manager" where
  "two_plugins = snd (register ''1'' ''good'' ''message:sending'' relabel 100
     (snd (register ''1'' ''bad'' ''message:sending'' crashing 10 hook_manager_new)))"

lemma always_fails_crashing: "always_fails crashing"
  by (simp add: always_fails_def crashing_def reply_fails_def)

lemma two_plugins_hooks:
  "hooks_of two_plugins e = (if e = ''message:sending'' then
     [registration ''1'' ''bad'' ''message:sending'' crashing 10, registration ''1'' ''good'' ''message:sending'' relabel 100]
     else [])"
  by (simp add: two_plugins_def)


section \<open>The gate\<close>

text \<open>The gate never sends what a plugin's reply leaves unreadable: a send that passes carries an
  object that is the caller's own input when no handler answered, and the \<open>input\<close> of the last
  applied reply otherwise; a veto or an unreadable reply always refuses.\<close>

theorem gate_passes_only_readable:
  "(case applySendingGate hm inFlight sid ty (JObj inp) of
      GateInput i \<Rightarrow> fst (execute hm inFlight ''message:sending'' (gate_envelope sid ty (JObj inp))) \<and>
        (let d = snd (execute hm inFlight ''message:sending'' (gate_envelope sid ty (JObj inp)))
         in (d = JUndefined \<and> i = JObj inp) \<or>
            (\<exists>fs. d = JObj fs \<and> field_of fs ''input'' = i \<and> ((\<exists>os. i = JObj os) \<or> (\<exists>vs. i = JArr vs))))
    | GateVeto \<Rightarrow> \<not> fst (execute hm inFlight ''message:sending'' (gate_envelope sid ty (JObj inp)))
    | GateUnreadable \<Rightarrow> usable_input (snd (execute hm inFlight ''message:sending'' (gate_envelope sid ty (JObj inp)))) = None)"
  by (auto simp: applySendingGate_def Let_def split: prod.splits gate_result.splits option.splits jsval.splits
      elim!: usable_input.elims)

text \<open>The gate fails open on a crash: a moderator that throws, or that reports an error and lets
  the chain go on, has its send forwarded with the caller's input, while the same moderator
  answering with data the gate cannot read, or vetoing, has it refused.\<close>

theorem crashed_moderator_lets_send_through:
  "(let send = (\<lambda>reply. applySendingGate (snd (register ''1'' ''mod'' ''message:sending'' (\<lambda>d. Done reply) 100 hook_manager_new))
       [] sid ty (JObj inp))
    in send HookThrows = GateInput (JObj inp)
     \<and> send (HookReply True (Some redacted) (Some err)) = GateInput (JObj inp)
     \<and> send (HookReply True (Some JNull) None) = GateUnreadable
     \<and> send (HookReply False dat e2) = GateVeto)"
  by (simp add: applySendingGate_def execute_unfold Let_def gate_envelope_def field_of_def)

section \<open>Two registrations in one millisecond\<close>

text \<open>An id is the plugin, the event and the clock in milliseconds: two handlers registered by one
  plugin for one event within the same millisecond share it, and unregistering the second one
  removes the first one instead unless the second has the smaller priority.\<close>

theorem same_millisecond_ids_collide:
  "(let (i1, m1) = register now p e h1 a hook_manager_new;
        (i2, m2) = register now p e h2 b m1
    in i1 = i2 \<and> getHookCount m2 e = 2
     \<and> map hr_handler (hooks_of (unregister i2 m2) e) = (if a \<le> b then [h2] else [h1])
     \<and> plugin_ids (unregister i2 m2) p = [])"
  by (simp add: register_def Let_def hook_manager_new_def getHookCount_def hooks_of_def jm_get_def plugin_ids_def
      unregister_def js_insert_def)

section \<open>The registry over its lifetime\<close>

datatype 'd registry_op =
    OpRegister string string string "'d \<Rightarrow> 'd hook_action" int
  | OpUnregister string
  | OpUnregisterPlugin string

fun registry_exec :: "'d registry_op \<Rightarrow> 'd hook_manager \<Rightarrow> 'd hook_manager" where
  "registry_exec (OpRegister now p e h prio) hm = snd (register now p e h prio hm)"
| "registry_exec (OpUnregister i) hm = unregister i hm"
| "registry_exec (OpUnregisterPlugin p) hm = unregisterPlugin p hm"

text \<open>Every chain is in priority order and holds registrations of its own event, and a plugin with a
  registration is a key of the tracking map.\<close>

definition chain_ok :: "'d hook_manager \<Rightarrow> string \<Rightarrow> bool" where
  "chain_ok hm e \<longleftrightarrow> sorted (map hr_priority (hooks_of hm e)) \<and>
     (\<forall>r \<in> set (hooks_of hm e). hr_event r = e \<and> jm_get (hm_pluginHooks hm) (hr_pluginId r) \<noteq> None)"

definition registry_wf :: "'d hook_manager \<Rightarrow> bool" where
  "registry_wf hm \<longleftrightarrow> jm_wf (hm_hooks hm) \<and> (\<forall>e. chain_ok hm e)"

lemma splice_id_Some:
  "splice_id i rs = Some (p, rs') \<Longrightarrow> \<exists>us r vs. rs = us @ r # vs \<and> rs' = us @ vs \<and> hr_id r = i \<and> hr_pluginId r = p
     \<and> (\<forall>u \<in> set us. hr_id u \<noteq> i)"
proof (induction rs arbitrary: rs')
  case (Cons r rs)
  show ?case
  proof (cases "hr_id r = i")
    case True
    then show ?thesis using Cons.prems by (intro exI [of _ "[]"]) auto
  next
    case False
    then obtain ws where ws: "splice_id i rs = Some (p, ws)" "rs' = r # ws"
      using Cons.prems by (auto split: option.splits)
    then obtain us x vs where "rs = us @ x # vs" "ws = us @ vs" "hr_id x = i" "hr_pluginId x = p" "\<forall>u \<in> set us. hr_id u \<noteq> i"
      using Cons.IH by blast
    then show ?thesis using ws False by (intro exI [of _ "r # us"] exI [of _ x] exI [of _ vs]) auto
  qed
qed simp

lemma unregister_in_Some:
  assumes "unregister_in i m = Some (p, m')" and "jm_wf m"
  shows "map fst m' = map fst m \<and> (\<exists>e rs rs'. map_of m e = Some rs \<and> splice_id i rs = Some (p, rs')
     \<and> map_of m' = (map_of m)(e \<mapsto> rs'))"
  using assms
proof (induction m arbitrary: m')
  case (Cons x m)
  obtain e rs where x: "x = (e, rs)" by (cases x)
  show ?case
  proof (cases "splice_id i rs")
    case None
    then obtain w where w: "unregister_in i m = Some (p, w)" "m' = (e, rs) # w"
      using Cons.prems x by (auto split: option.splits)
    moreover have "jm_wf m" using Cons.prems by (simp add: jm_wf_def)
    ultimately obtain e' us us' where h: "map fst w = map fst m" "map_of m e' = Some us"
        "splice_id i us = Some (p, us')" "map_of w = (map_of m)(e' \<mapsto> us')"
      using Cons.IH by blast
    have "e \<notin> fst ` set m" using Cons.prems(2) x by (simp add: jm_wf_def)
    moreover have "e' \<in> fst ` set m" using h(2) by (metis domI dom_map_of_conv_image_fst)
    ultimately have "e' \<noteq> e" by blast
    then have "map_of (x # m) e' = Some us" and "map_of m' = (map_of (x # m))(e' \<mapsto> us')"
      using h w x by auto
    moreover have "map fst m' = map fst (x # m)" using h(1) w x by simp
    ultimately show ?thesis using h(3) by blast
  next
    case (Some a)
    then obtain rs' where "a = (p, rs')" and "m' = (e, rs') # m"
      using Cons.prems x by (cases a) auto
    then have "map_of (x # m) e = Some rs" and "map_of m' = (map_of (x # m))(e \<mapsto> rs')" and "map fst m' = map fst (x # m)"
      and "splice_id i rs = Some (p, rs')"
      using x Some by auto
    then show ?thesis by blast
  qed
qed simp

lemma hooks_of_unregister:
  assumes "jm_wf (hm_hooks hm)"
  shows "hooks_of (unregister i hm) e = hooks_of hm e \<or>
    (\<exists>us r vs. hooks_of hm e = us @ r # vs \<and> hooks_of (unregister i hm) e = us @ vs \<and> hr_id r = i)"
proof (cases "unregister_in i (hm_hooks hm)")
  case None
  then show ?thesis by (simp add: unregister_def)
next
  case (Some a)
  obtain p m where a: "a = (p, m)" by (cases a)
  from Some a assms obtain e' rs rs' where h: "map_of (hm_hooks hm) e' = Some rs" "splice_id i rs = Some (p, rs')"
      "map_of m = (map_of (hm_hooks hm))(e' \<mapsto> rs')"
    using unregister_in_Some by blast
  have "hooks_of (unregister i hm) e = (case map_of m e of Some rs \<Rightarrow> rs | None \<Rightarrow> [])"
    using Some a by (auto simp: unregister_def hooks_of_def jm_get_def split: option.splits)
  then show ?thesis using h splice_id_Some [OF h(2)] by (auto simp: hooks_of_def jm_get_def)
qed

lemma unregister_keys:
  assumes "jm_wf (hm_hooks hm)"
  shows "jm_wf (hm_hooks (unregister i hm)) \<and>
    (\<forall>q. (jm_get (hm_pluginHooks (unregister i hm)) q = None) = (jm_get (hm_pluginHooks hm) q = None))"
  using assms unregister_in_Some [of i "hm_hooks hm"]
  by (auto simp: unregister_def jm_wf_def split: option.splits prod.splits)

lemma registry_exec_wf: "registry_wf hm \<Longrightarrow> registry_wf (registry_exec op hm)"
proof (cases op)
  case (OpRegister now p e h prio)
  assume wf: "registry_wf hm"
  have "jm_wf (hm_hooks (registry_exec op hm))"
    using wf by (simp add: OpRegister registry_wf_def register_def Let_def)
  moreover have "chain_ok (registry_exec op hm) e'" for e'
    using wf by (auto simp: OpRegister registry_wf_def chain_ok_def)
  ultimately show ?thesis by (simp add: registry_wf_def)
next
  case (OpUnregister i)
  assume wf: "registry_wf hm"
  then have keys: "jm_wf (hm_hooks (unregister i hm))"
      "\<And>q. (jm_get (hm_pluginHooks (unregister i hm)) q = None) = (jm_get (hm_pluginHooks hm) q = None)"
    using unregister_keys [of hm i] by (simp_all add: registry_wf_def)
  have "chain_ok (unregister i hm) e" for e
  proof -
    have "chain_ok hm e" and "jm_wf (hm_hooks hm)" using wf by (simp_all add: registry_wf_def)
    then show ?thesis using hooks_of_unregister [of hm i e] keys(2) by (auto simp: chain_ok_def sorted_append)
  qed
  with keys(1) show ?thesis by (simp add: OpUnregister registry_wf_def)
next
  case (OpUnregisterPlugin p)
  assume wf: "registry_wf hm"
  have "jm_wf (hm_hooks (unregisterPlugin p hm))"
    using wf by (auto simp: unregisterPlugin_def registry_wf_def jm_wf_def comp_def case_prod_beta split: option.splits)
  moreover have "chain_ok (unregisterPlugin p hm) e" for e
  proof -
    have "chain_ok hm e" using wf by (simp add: registry_wf_def)
    then show ?thesis
      unfolding chain_ok_def hooks_of_unregisterPlugin pluginHooks_unregisterPlugin
      by (auto simp: sorted_filter)
  qed
  ultimately show ?thesis by (simp add: OpUnregisterPlugin registry_wf_def)
qed

interpretation registry: event_machine registry_exec registry_wf
  by unfold_locales (rule registry_exec_wf)

lemma registry_wf_new: "registry_wf hook_manager_new"
  by (simp add: registry_wf_def chain_ok_def) (simp add: hook_manager_new_def)

lemma registry_reachable_wf: "registry_wf (fold registry_exec ops hook_manager_new)"
  by (rule registry.run_inv) (rule registry_wf_new)

text \<open>After any sequence of registrations, removals and plugin unloads, every chain runs in
  priority order, and unloading a plugin removes exactly its handlers from every chain, keeping the
  order of the rest, even when its ids have collided or were removed before.\<close>

theorem unload_removes_exactly_the_plugin:
  "(let hm = fold registry_exec ops hook_manager_new
    in sorted (map hr_priority (hooks_of hm e))
     \<and> hooks_of (unregisterPlugin p hm) e = filter (\<lambda>r. hr_pluginId r \<noteq> p) (hooks_of hm e)
     \<and> p \<notin> set (map hr_pluginId (hooks_of (unregisterPlugin p hm) e)))"
proof -
  define hm where "hm = fold registry_exec ops (hook_manager_new :: 'a hook_manager)"
  have "chain_ok hm e"
    using registry_reachable_wf [of ops] by (simp add: hm_def registry_wf_def)
  then have *: "sorted (map hr_priority (hooks_of hm e))"
    and tracked: "\<And>r. r \<in> set (hooks_of hm e) \<Longrightarrow> jm_get (hm_pluginHooks hm) (hr_pluginId r) \<noteq> None"
    by (auto simp: chain_ok_def)
  have "hooks_of (unregisterPlugin p hm) e = filter (\<lambda>r. hr_pluginId r \<noteq> p) (hooks_of hm e)"
  proof (cases "jm_get (hm_pluginHooks hm) p = None")
    case True
    then have "\<forall>r \<in> set (hooks_of hm e). hr_pluginId r \<noteq> p" using tracked by blast
    then show ?thesis using True by (simp add: hooks_of_unregisterPlugin)
  next
    case False
    then show ?thesis unfolding hooks_of_unregisterPlugin by (rule if_not_P)
  qed
  with * show ?thesis by (auto simp: hm_def Let_def)
qed

end
