(* ===== verification/Json.thy ===== *)
theory Json
  imports Filters "HOL-Library.List_Lexorder" "HOL-Library.Char_ord"
begin

text \<open>
  \<open>JSON.stringify\<close>, \<open>String\<close> of an integer and the byte lengths of \<open>Buffer\<close> on the JSON values of
  the program, and the shedding of inline media built on them
  (src/src/common/utils/inline-media.ts). The members of an object are in the order in which the
  language enumerates them.
\<close>

section \<open>Numbers and strings as text\<close>

fun show_nat :: "nat \<Rightarrow> string" where
  "show_nat n = (if n < 10 then [char_of (48 + n)] else show_nat (n div 10) @ [char_of (48 + n mod 10)])"

declare show_nat.simps [simp del]

definition show_int :: "int \<Rightarrow> string" where
  "show_int i = (if i < 0 then CHR ''-'' # show_nat (nat (- i)) else show_nat (nat i))"

definition hex_char :: "nat \<Rightarrow> char" where
  "hex_char d = (if d < 10 then char_of (48 + d) else char_of (87 + d))"

definition json_escape :: "char \<Rightarrow> string" where
  "json_escape c =
     (let n = of_char c :: nat in
      if n = 34 then [char_of (92::nat), char_of (34::nat)] else if n = 92 then [char_of (92::nat), char_of (92::nat)]
      else if n = 8 then char_of (92::nat) # ''b'' else if n = 9 then char_of (92::nat) # ''t''
      else if n = 10 then char_of (92::nat) # ''n'' else if n = 12 then char_of (92::nat) # ''f''
      else if n = 13 then char_of (92::nat) # ''r''
      else if n < 32 then char_of (92::nat) # ''u00'' @ [hex_char (n div 16), hex_char (n mod 16)]
      else [c])"

definition json_quote :: "string \<Rightarrow> string" where
  "json_quote s = CHR 0x22 # concat (map json_escape s) @ [CHR 0x22]"

fun join_with :: "string \<Rightarrow> string list \<Rightarrow> string" where
  "join_with sep [] = []"
| "join_with sep [x] = x"
| "join_with sep (x # y # ys) = x @ sep @ join_with sep (y # ys)"

section \<open>\<open>JSON.stringify\<close>\<close>

text \<open>With an array of names as second argument an object is written with those of its members that
  are in the array, in the order of the array, at every depth.\<close>

definition pick_members :: "string list option \<Rightarrow> (string \<times> string) list \<Rightarrow> (string \<times> string) list" where
  "pick_members allow ms =
     (case allow of
        None \<Rightarrow> ms
      | Some ks \<Rightarrow> concat (map (\<lambda>k. case map_of ms k of Some v \<Rightarrow> [(k, v)] | None \<Rightarrow> []) ks))"

definition write_object :: "(string \<times> string) list \<Rightarrow> string" where
  "write_object ms = ''{'' @ join_with '','' (map (\<lambda>(k, v). json_quote k @ '':'' @ v) ms) @ ''}''"

fun json_val :: "string list option \<Rightarrow> jsval \<Rightarrow> string option"
  and json_elems :: "string list option \<Rightarrow> jsval list \<Rightarrow> string list"
  and json_members :: "string list option \<Rightarrow> (string \<times> jsval) list \<Rightarrow> (string \<times> string) list" where
  "json_val allow JUndefined = None"
| "json_val allow JNull = Some ''null''"
| "json_val allow (JBool b) = Some (if b then ''true'' else ''false'')"
| "json_val allow (JNum i) = Some (show_int i)"
| "json_val allow (JStr s) = Some (json_quote s)"
| "json_val allow (JArr vs) = Some (''['' @ join_with '','' (json_elems allow vs) @ '']'')"
| "json_val allow (JObj fs) = Some (write_object (pick_members allow (json_members allow fs)))"
| "json_elems allow [] = []"
| "json_elems allow (v # vs) = (case json_val allow v of Some t \<Rightarrow> t | None \<Rightarrow> ''null'') # json_elems allow vs"
| "json_members allow [] = []"
| "json_members allow ((k, v) # fs) =
     (case json_val allow v of Some t \<Rightarrow> (k, t) # json_members allow fs | None \<Rightarrow> json_members allow fs)"

definition stringify :: "jsval \<Rightarrow> string" where
  "stringify v = (case json_val None v of Some t \<Rightarrow> t | None \<Rightarrow> ''undefined'')"

text \<open>\<open>Buffer.byteLength\<close>: two bytes for a code unit above 127; and the decoded length of base64,
  where trailing padding is not counted.\<close>

definition utf8_length :: "string \<Rightarrow> nat" where
  "utf8_length s = sum_list (map (\<lambda>c. if (of_char c :: nat) < 128 then 1 else 2) s)"

definition base64_length :: "string \<Rightarrow> nat" where
  "base64_length s =
     (let n = length s;
          b1 = (if 0 < n \<and> s ! (n - 1) = CHR ''='' then n - 1 else n);
          b2 = (if 1 < b1 \<and> s ! (n - 2) = CHR ''='' then b1 - 1 else b1)
      in b2 * 3 div 4)"

section \<open>Objects\<close>

text \<open>Assignment to a member and object spread.\<close>

definition set_field :: "payload \<Rightarrow> string \<Rightarrow> jsval \<Rightarrow> payload" where
  "set_field o1 k v = jm_set o1 k v"

lemma field_of_set_field [simp]: "field_of (set_field o1 k v) k' = (if k' = k then v else field_of o1 k')"
proof -
  have "jm_get (jm_set o1 k v) = (jm_get o1)(k \<mapsto> v)" by simp
  moreover have "map_of m = jm_get m" for m :: payload by (simp add: jm_get_def fun_eq_iff)
  ultimately show ?thesis by (simp add: set_field_def field_of_def)
qed

section \<open>Inline media\<close>

definition shed_marker :: "payload \<Rightarrow> nat \<Rightarrow> jsval" where
  "shed_marker m sizeBytes =
     JObj ((''mimetype'', field_of m ''mimetype'')
       # (case field_of m ''filename'' of JStr f \<Rightarrow> [(''filename'', JStr f)] | _ \<Rightarrow> [])
       @ [(''omitted'', JBool True), (''sizeBytes'', JNum (int sizeBytes))])"

text \<open>The blob that is to be shed: \<open>media.data\<close> a non-empty string over the cap.\<close>

definition over_cap_media :: "payload \<Rightarrow> int \<Rightarrow> (payload \<times> nat) option" where
  "over_cap_media d maxBytes =
     (case field_of d ''media'' of
        JObj m \<Rightarrow>
          (case field_of m ''data'' of
             JStr blob \<Rightarrow> if blob = [] then None
               else if int (base64_length blob) \<le> maxBytes then None else Some (m, base64_length blob)
           | _ \<Rightarrow> None)
      | _ \<Rightarrow> None)"

definition shedInlineMedia :: "payload \<Rightarrow> int \<Rightarrow> payload" where
  "shedInlineMedia d maxBytes =
     (case over_cap_media d maxBytes of
        Some (m, n) \<Rightarrow> set_field d ''media'' (shed_marker m n)
      | None \<Rightarrow> d)"

lemma over_cap_shed [simp]: "over_cap_media (shedInlineMedia d maxBytes) maxBytes' = None \<or> over_cap_media d maxBytes = None"
  by (auto simp: shedInlineMedia_def over_cap_media_def shed_marker_def field_of_def [of _ "''data''"]
      split: option.splits prod.splits jsval.splits)

text \<open>Shedding keeps every other field, is idempotent, and leaves no inline blob over the cap.\<close>

lemma shed_idempotent: "shedInlineMedia (shedInlineMedia d c) c = shedInlineMedia d c"
  using over_cap_shed [of d c c] by (auto simp: shedInlineMedia_def split: option.splits)

lemma shed_other_fields: "f \<noteq> ''media'' \<Longrightarrow> field_of (shedInlineMedia d c) f = field_of d f"
  by (auto simp: shedInlineMedia_def split: option.splits)

end
