(* ===== verification/Outbox.thy ===== *)
theory Outbox
  imports Json Js_Number
begin

text \<open>
  The durable record of outbound webhook deliveries (src/src/modules/webhook/webhook-outbox.service.ts
  and its entity). The table is the list of its rows; a statement that the database refuses is the
  flag \<open>ok = False\<close>. A null state marks a row older than the column and is never equal nor unequal
  to a value in SQL.
\<close>

section \<open>The table\<close>

datatype outbox_state = ObPending | ObDispatched | ObFailed

record outbox_row =
  ob_id :: nat
  ob_webhookId :: string
  ob_sessionId :: string
  ob_event :: string
  ob_key :: string
  ob_deliveryId :: string
  ob_payload :: "payload option"
  ob_state :: "outbox_state option"
  ob_attempts :: int
  ob_lastAttemptAt :: "millis option"
  ob_createdAt :: millis

record outbox =
  ox_rows :: "outbox_row list"
  ox_next :: nat

definition outbox_new :: outbox where
  "outbox_new = \<lparr>ox_rows = [], ox_next = 0\<rparr>"

record open_request =
  op_webhookId :: string
  op_sessionId :: string
  op_event :: string
  op_key :: string
  op_deliveryId :: string
  op_payload :: payload

definition names_row :: "string \<Rightarrow> string \<Rightarrow> outbox_row \<Rightarrow> bool" where
  "names_row w k r \<longleftrightarrow> ob_webhookId r = w \<and> ob_key r = k"

section \<open>Operations\<close>

definition pending_row :: "nat \<Rightarrow> millis \<Rightarrow> open_request \<Rightarrow> outbox_row" where
  "pending_row i now q =
     \<lparr>ob_id = i, ob_webhookId = op_webhookId q, ob_sessionId = op_sessionId q, ob_event = op_event q,
      ob_key = op_key q, ob_deliveryId = op_deliveryId q, ob_payload = Some (op_payload q),
      ob_state = Some ObPending, ob_attempts = 0, ob_lastAttemptAt = None, ob_createdAt = now\<rparr>"

text \<open>\<open>open\<close>: an insert under the unique index on webhook and key; a conflict keeps the old row.\<close>

definition outbox_open :: "bool \<Rightarrow> millis \<Rightarrow> open_request \<Rightarrow> outbox \<Rightarrow> outbox" where
  "outbox_open ok now q db =
     (if \<not> ok then db
      else if list_ex (names_row (op_webhookId q) (op_key q)) (ox_rows db) then db
      else \<lparr>ox_rows = ox_rows db @ [pending_row (ox_next db) now q], ox_next = ox_next db + 1\<rparr>)"

definition close_row :: "outbox_state \<Rightarrow> millis \<Rightarrow> outbox_row \<Rightarrow> outbox_row" where
  "close_row st now r = r\<lparr>ob_state := Some st, ob_payload := None, ob_lastAttemptAt := Some now\<rparr>"

definition update_rows :: "(outbox_row \<Rightarrow> bool) \<Rightarrow> (outbox_row \<Rightarrow> outbox_row) \<Rightarrow> outbox \<Rightarrow> outbox" where
  "update_rows P f db = db\<lparr>ox_rows := map (\<lambda>r. if P r then f r else r) (ox_rows db)\<rparr>"

definition outbox_close :: "bool \<Rightarrow> millis \<Rightarrow> string \<Rightarrow> string \<Rightarrow> outbox_state \<Rightarrow> outbox \<Rightarrow> outbox" where
  "outbox_close ok now w k st db = (if ok then update_rows (names_row w k) (close_row st now) db else db)"

definition findStale :: "millis \<Rightarrow> nat \<Rightarrow> outbox \<Rightarrow> outbox_row list" where
  "findStale olderThan limit db =
     filter (\<lambda>r. ob_payload r \<noteq> None)
       (take limit (sort_key ob_createdAt
         (filter (\<lambda>r. ob_state r = Some ObPending \<and> ob_createdAt r < olderThan) (ox_rows db))))"

definition pending_id :: "nat \<Rightarrow> outbox_row \<Rightarrow> bool" where
  "pending_id i r \<longleftrightarrow> ob_id r = i \<and> ob_state r = Some ObPending"

definition countAttempt :: "bool \<Rightarrow> millis \<Rightarrow> nat \<Rightarrow> int \<Rightarrow> outbox \<Rightarrow> bool \<times> outbox" where
  "countAttempt ok now i attempts db =
     (if \<not> ok then (True, db)
      else (0 < length (filter (pending_id i) (ox_rows db)),
            update_rows (pending_id i) (\<lambda>r. r\<lparr>ob_attempts := attempts + 1, ob_lastAttemptAt := Some now\<rparr>) db))"

text \<open>\<open>state != 'pending'\<close> is not true of a null state, so a row without a state is kept.\<close>

definition settled_before :: "millis \<Rightarrow> outbox_row \<Rightarrow> bool" where
  "settled_before cutoff r \<longleftrightarrow> ob_state r \<noteq> None \<and> ob_state r \<noteq> Some ObPending \<and> ob_createdAt r < cutoff"

definition pruneSettled :: "millis \<Rightarrow> outbox \<Rightarrow> outbox \<times> nat" where
  "pruneSettled cutoff db =
     (db\<lparr>ox_rows := filter (\<lambda>r. \<not> settled_before cutoff r) (ox_rows db)\<rparr>,
      length (filter (settled_before cutoff) (ox_rows db)))"

definition DEFAULT_OUTBOX_RETENTION_DAYS :: int where "DEFAULT_OUTBOX_RETENTION_DAYS = 7"

definition retentionDays :: "string option \<Rightarrow> int" where
  "retentionDays raw =
     (let days = (case parse_int (case raw of Some s \<Rightarrow> s | None \<Rightarrow> []) of
                    Some n \<Rightarrow> n | None \<Rightarrow> DEFAULT_OUTBOX_RETENTION_DAYS)
      in if days \<le> 0 then DEFAULT_OUTBOX_RETENTION_DAYS else days)"

section \<open>Runs of the table\<close>

text \<open>What other parts of the gateway, and other nodes, may do to the table between two statements.\<close>

datatype outbox_op =
    OxOpen bool millis open_request
  | OxClose bool millis string string outbox_state
  | OxCount bool millis nat int
  | OxPrune millis

fun outbox_exec :: "outbox_op \<Rightarrow> outbox \<Rightarrow> outbox" where
  "outbox_exec (OxOpen ok now q) db = outbox_open ok now q db"
| "outbox_exec (OxClose ok now w k st) db = outbox_close ok now w k st db"
| "outbox_exec (OxCount ok now i n) db = snd (countAttempt ok now i n db)"
| "outbox_exec (OxPrune cutoff) db = fst (pruneSettled cutoff db)"

definition row_ok :: "nat \<Rightarrow> outbox_row \<Rightarrow> bool" where
  "row_ok n r \<longleftrightarrow> ob_id r < n \<and> (ob_state r = Some ObPending \<longleftrightarrow> ob_payload r \<noteq> None)"

definition outbox_inv :: "outbox \<Rightarrow> bool" where
  "outbox_inv db \<longleftrightarrow> distinct (map (\<lambda>r. (ob_webhookId r, ob_key r)) (ox_rows db))
     \<and> distinct (map ob_id (ox_rows db)) \<and> list_all (row_ok (ox_next db)) (ox_rows db)"

lemma outbox_inv_new: "outbox_inv outbox_new"
  by (simp add: outbox_inv_def outbox_new_def)

lemma close_row_simps [simp]:
  "ob_id (close_row st now r) = ob_id r" "ob_webhookId (close_row st now r) = ob_webhookId r"
  "ob_key (close_row st now r) = ob_key r" "ob_state (close_row st now r) = Some st"
  "ob_payload (close_row st now r) = None" "ob_attempts (close_row st now r) = ob_attempts r"
  "ob_createdAt (close_row st now r) = ob_createdAt r"
  by (simp_all add: close_row_def)

lemma pending_row_simps [simp]:
  "ob_id (pending_row i now q) = i" "ob_webhookId (pending_row i now q) = op_webhookId q"
  "ob_key (pending_row i now q) = op_key q" "ob_state (pending_row i now q) = Some ObPending"
  "ob_payload (pending_row i now q) = Some (op_payload q)" "ob_attempts (pending_row i now q) = 0"
  "ob_createdAt (pending_row i now q) = now" "ob_sessionId (pending_row i now q) = op_sessionId q"
  "ob_event (pending_row i now q) = op_event q"
  by (simp_all add: pending_row_def)

lemma ox_rows_update_rows [simp]: "ox_rows (update_rows P f db) = map (\<lambda>r. if P r then f r else r) (ox_rows db)"
  by (simp add: update_rows_def)

lemma ox_next_update_rows [simp]: "ox_next (update_rows P f db) = ox_next db"
  by (simp add: update_rows_def)

lemma outbox_inv_update_rows:
  assumes "outbox_inv db"
    and keep: "\<And>r. P r \<Longrightarrow> ob_id (f r) = ob_id r \<and> ob_webhookId (f r) = ob_webhookId r \<and> ob_key (f r) = ob_key r"
    and ok: "\<And>r n. P r \<Longrightarrow> row_ok n r \<Longrightarrow> row_ok n (f r)"
  shows "outbox_inv (update_rows P f db)"
proof -
  have "map (\<lambda>r. (ob_webhookId r, ob_key r)) (ox_rows (update_rows P f db)) = map (\<lambda>r. (ob_webhookId r, ob_key r)) (ox_rows db)"
    and "map ob_id (ox_rows (update_rows P f db)) = map ob_id (ox_rows db)"
    using keep by (auto simp: comp_def)
  moreover have "list_all (row_ok (ox_next db)) (ox_rows (update_rows P f db))"
    using assms(1) ok by (auto simp: outbox_inv_def list_all_iff)
  ultimately show ?thesis using assms(1) by (simp only: outbox_inv_def ox_next_update_rows)
qed

lemma outbox_inv_open: "outbox_inv db \<Longrightarrow> outbox_inv (outbox_open ok now q db)"
  by (fastforce simp: outbox_inv_def outbox_open_def row_ok_def list_ex_iff list_all_iff names_row_def)

lemma outbox_inv_close:
  assumes "st \<noteq> ObPending" and "outbox_inv db"
  shows "outbox_inv (outbox_close ok now w k st db)"
  using assms by (auto simp: outbox_close_def row_ok_def intro!: outbox_inv_update_rows)

lemma outbox_inv_count: "outbox_inv db \<Longrightarrow> outbox_inv (snd (countAttempt ok now i n db))"
  by (auto simp: countAttempt_def row_ok_def pending_id_def intro!: outbox_inv_update_rows)

lemma outbox_inv_prune: "outbox_inv db \<Longrightarrow> outbox_inv (fst (pruneSettled cutoff db))"
  by (auto simp: outbox_inv_def pruneSettled_def distinct_map_filter list_all_iff)

text \<open>\<open>close\<close> takes the two settled states only (its type excludes \<open>pending\<close>).\<close>

fun op_typed :: "outbox_op \<Rightarrow> bool" where
  "op_typed (OxClose ok now w k st) \<longleftrightarrow> st \<noteq> ObPending"
| "op_typed _ \<longleftrightarrow> True"

lemma outbox_inv_exec: "op_typed op \<Longrightarrow> outbox_inv db \<Longrightarrow> outbox_inv (outbox_exec op db)"
  by (cases op) (auto intro: outbox_inv_open outbox_inv_close outbox_inv_count outbox_inv_prune)

lemma outbox_inv_run: "list_all op_typed ops \<Longrightarrow> outbox_inv db \<Longrightarrow> outbox_inv (fold outbox_exec ops db)"
  by (induction ops arbitrary: db) (auto intro: outbox_inv_exec)

section \<open>The table as a map\<close>

definition row_of :: "outbox \<Rightarrow> string \<Rightarrow> string \<Rightarrow> outbox_row option" where
  "row_of db w k = find (names_row w k) (ox_rows db)"

lemma row_of_Some_iff:
  assumes "outbox_inv db"
  shows "row_of db w k = Some r \<longleftrightarrow> r \<in> set (ox_rows db) \<and> names_row w k r"
proof
  assume "row_of db w k = Some r"
  then show "r \<in> set (ox_rows db) \<and> names_row w k r" by (auto simp: row_of_def find_Some_iff)
next
  assume r: "r \<in> set (ox_rows db) \<and> names_row w k r"
  then obtain r' where r': "row_of db w k = Some r'"
    by (cases "row_of db w k") (auto simp: row_of_def find_None_iff)
  then have "r' \<in> set (ox_rows db)" and "names_row w k r'" by (auto simp: row_of_def find_Some_iff)
  moreover have "inj_on (\<lambda>r. (ob_webhookId r, ob_key r)) (set (ox_rows db))"
    using assms by (simp add: outbox_inv_def distinct_map)
  ultimately have "r' = r" using r by (auto simp: names_row_def inj_on_def)
  with r' show "row_of db w k = Some r" by simp
qed

lemma row_of_None: "row_of db w k = None \<longleftrightarrow> (\<forall>r \<in> set (ox_rows db). \<not> names_row w k r)"
  by (auto simp: row_of_def find_None_iff)

lemma find_snoc: "find P (xs @ [x]) = (case find P xs of Some y \<Rightarrow> Some y | None \<Rightarrow> if P x then Some x else None)"
  by (induction xs) auto

lemma find_map_keep:
  assumes "\<And>x. P (f x) = P x"
  shows "find P (map f xs) = map_option f (find P xs)"
  using assms by (induction xs) auto

lemma row_of_update_rows:
  assumes "\<And>r. P r \<Longrightarrow> ob_webhookId (f r) = ob_webhookId r \<and> ob_key (f r) = ob_key r"
  shows "row_of (update_rows P f db) w k = map_option (\<lambda>r. if P r then f r else r) (row_of db w k)"
  unfolding row_of_def ox_rows_update_rows
  by (rule find_map_keep) (use assms in \<open>auto simp: names_row_def\<close>)

lemma row_of_open:
  "row_of (outbox_open ok now q db) w k =
     (if ok \<and> w = op_webhookId q \<and> k = op_key q \<and> row_of db w k = None
      then Some (pending_row (ox_next db) now q) else row_of db w k)"
proof (cases "ok \<and> \<not> list_ex (names_row (op_webhookId q) (op_key q)) (ox_rows db)")
  case True
  let ?r = "pending_row (ox_next db) now q"
  have "row_of (outbox_open ok now q db) w k =
      (case row_of db w k of Some y \<Rightarrow> Some y | None \<Rightarrow> if names_row w k ?r then Some ?r else None)"
    using True by (simp add: outbox_open_def row_of_def find_snoc)
  then show ?thesis using True by (cases "row_of db w k") (auto simp: names_row_def)
next
  case False
  then show ?thesis by (auto simp: outbox_open_def row_of_None list_ex_iff)
qed

lemma row_of_close:
  "row_of (outbox_close ok now w k st db) w' k' =
     (if ok \<and> w' = w \<and> k' = k then map_option (close_row st now) (row_of db w k) else row_of db w' k')"
proof -
  have "(\<lambda>r. if names_row w k r then close_row st now r else r) r = (if w' = w \<and> k' = k then close_row st now r else r)"
    if "row_of db w' k' = Some r" for r
    using that by (auto simp: row_of_def find_Some_iff names_row_def)
  then show ?thesis
    by (cases "row_of db w' k'") (auto simp: outbox_close_def row_of_update_rows)
qed

lemma row_of_count:
  "row_of (snd (countAttempt ok now i n db)) w k =
     (if ok then map_option (\<lambda>r. if pending_id i r then r\<lparr>ob_attempts := n + 1, ob_lastAttemptAt := Some now\<rparr> else r) (row_of db w k)
      else row_of db w k)"
  by (simp add: countAttempt_def row_of_update_rows)

lemma find_filter_inj: "distinct (map f xs) \<Longrightarrow> (\<And>x y. P x \<Longrightarrow> P y \<Longrightarrow> f x = f y) \<Longrightarrow>
    find P (filter Q xs) = (case find P xs of Some x \<Rightarrow> if Q x then Some x else None | None \<Rightarrow> None)"
proof (induction xs)
  case (Cons x xs)
  show ?case
  proof (cases "P x")
    case True
    have "\<not> P y" if "y \<in> set xs" for y
    proof
      assume "P y"
      then have "f x = f y" using True by (intro Cons.prems(2))
      then show False using Cons.prems(1) that by auto
    qed
    then have "find P (filter Q xs) = None" by (auto simp: find_None_iff)
    then show ?thesis using True by simp
  next
    case False
    have "find P (filter Q xs) = (case find P xs of Some x \<Rightarrow> if Q x then Some x else None | None \<Rightarrow> None)"
      by (rule Cons.IH) (use Cons.prems(1) in simp, rule Cons.prems(2))
    then show ?thesis using False by simp
  qed
qed simp

lemma row_of_prune:
  assumes "outbox_inv db"
  shows "row_of (fst (pruneSettled cutoff db)) w k =
     (case row_of db w k of Some r \<Rightarrow> if settled_before cutoff r then None else Some r | None \<Rightarrow> None)"
proof -
  have "find (names_row w k) (filter (\<lambda>r. \<not> settled_before cutoff r) (ox_rows db)) =
      (case find (names_row w k) (ox_rows db) of Some x \<Rightarrow> if \<not> settled_before cutoff x then Some x else None | None \<Rightarrow> None)"
    by (rule find_filter_inj [where f = "\<lambda>r. (ob_webhookId r, ob_key r)"])
      (use assms in \<open>auto simp: outbox_inv_def names_row_def\<close>)
  then show ?thesis by (auto simp: row_of_def pruneSettled_def split: option.splits)
qed

text \<open>The abstract table: the number of rows ever inserted and a map from webhook and key to the row.\<close>

type_synonym outbox_map = "nat \<times> (string \<times> string \<Rightarrow> outbox_row option)"

definition outbox_abs :: "outbox \<Rightarrow> outbox_map" where
  "outbox_abs db = (ox_next db, \<lambda>(w, k). row_of db w k)"

fun outbox_spec :: "outbox_op \<Rightarrow> outbox_map \<Rightarrow> outbox_map" where
  "outbox_spec (OxOpen ok now q) (n, m) =
     (if ok \<and> m (op_webhookId q, op_key q) = None
      then (n + 1, m((op_webhookId q, op_key q) \<mapsto> pending_row n now q)) else (n, m))"
| "outbox_spec (OxClose ok now w k st) (n, m) =
     (n, if ok then m((w, k) := map_option (close_row st now) (m (w, k))) else m)"
| "outbox_spec (OxCount ok now i a) (n, m) =
     (n, if ok then (\<lambda>wk. map_option (\<lambda>r. if ob_id r = i \<and> ob_state r = Some ObPending
           then r\<lparr>ob_attempts := a + 1, ob_lastAttemptAt := Some now\<rparr> else r) (m wk)) else m)"
| "outbox_spec (OxPrune cutoff) (n, m) =
     (n, \<lambda>wk. case m wk of Some r \<Rightarrow> if settled_before cutoff r then None else Some r | None \<Rightarrow> None)"

lemma ox_next_close [simp]: "ox_next (outbox_close ok now w k st db) = ox_next db"
  by (simp add: outbox_close_def)

lemma ox_next_count [simp]: "ox_next (snd (countAttempt ok now i n db)) = ox_next db"
  by (simp add: countAttempt_def)

lemma ox_next_prune [simp]: "ox_next (fst (pruneSettled cutoff db)) = ox_next db"
  by (simp add: pruneSettled_def)

lemma ox_next_open:
  "ox_next (outbox_open ok now q db) = (if ok \<and> row_of db (op_webhookId q) (op_key q) = None then ox_next db + 1 else ox_next db)"
  by (auto simp: outbox_open_def row_of_None list_ex_iff)

lemma outbox_abs_exec:
  assumes "outbox_inv db"
  shows "outbox_abs (outbox_exec op db) = outbox_spec op (outbox_abs db)"
proof (cases op)
  case (OxOpen ok now q)
  then show ?thesis by (auto simp: outbox_abs_def row_of_open ox_next_open fun_eq_iff)
next
  case (OxClose ok now w k st)
  then show ?thesis by (auto simp: outbox_abs_def row_of_close fun_eq_iff)
next
  case (OxCount ok now i a)
  then show ?thesis by (auto simp: outbox_abs_def row_of_count fun_eq_iff pending_id_def intro!: option.map_cong)
next
  case (OxPrune cutoff)
  then show ?thesis using row_of_prune [OF assms] by (auto simp: outbox_abs_def fun_eq_iff)
qed

lemma outbox_abs_run:
  "list_all op_typed ops \<Longrightarrow> outbox_inv db \<Longrightarrow> outbox_abs (fold outbox_exec ops db) = fold outbox_spec ops (outbox_abs db)"
  by (induction ops arbitrary: db) (simp_all add: outbox_abs_exec outbox_inv_exec)

section \<open>Stale rows\<close>

lemma findStale_rows:
  assumes "r \<in> set (findStale c n db)"
  shows "r \<in> set (ox_rows db) \<and> ob_state r = Some ObPending \<and> ob_createdAt r < c \<and> ob_payload r \<noteq> None"
  using assms unfolding findStale_def by (auto dest: in_set_takeD)

lemma findStale_length: "length (findStale c n db) \<le> n"
proof -
  have "length (findStale c n db) \<le> length (take n (sort_key ob_createdAt
      (filter (\<lambda>r. ob_state r = Some ObPending \<and> ob_createdAt r < c) (ox_rows db))))"
    unfolding findStale_def by (rule length_filter_le)
  then show ?thesis by simp
qed

lemma findStale_distinct:
  assumes "outbox_inv db"
  shows "distinct (map ob_id (findStale c n db))"
proof -
  define xs where "xs = filter (\<lambda>r. ob_state r = Some ObPending \<and> ob_createdAt r < c) (ox_rows db)"
  have "distinct (map ob_id xs)"
    using assms by (simp add: xs_def outbox_inv_def distinct_map_filter)
  then have "distinct (map ob_id (sort_key ob_createdAt xs))"
    by (simp add: distinct_map)
  then have "distinct (map ob_id (take n (sort_key ob_createdAt xs)))"
    by (simp add: take_map [symmetric])
  then show ?thesis unfolding findStale_def xs_def by (rule distinct_map_filter)
qed

lemma findStale_complete:
  assumes "r \<in> set (ox_rows db)" and "ob_state r = Some ObPending" and "ob_createdAt r < c" and "ob_payload r \<noteq> None"
    and "length (filter (\<lambda>r. ob_state r = Some ObPending \<and> ob_createdAt r < c) (ox_rows db)) \<le> n"
  shows "r \<in> set (findStale c n db)"
  using assms by (simp add: findStale_def)


definition sample_request :: open_request where
  "sample_request = \<lparr>op_webhookId = ''w'', op_sessionId = ''s'', op_event = ''message.ack'', op_key = ''k'',
     op_deliveryId = ''dlv_1'', op_payload = []\<rparr>"


text \<open>A key that is dispatched a second time after its first delivery settled is not protected:
  the insert meets the settled row and keeps it, so the second delivery has no pending row and no
  sweep ever replays it.\<close>

theorem reopened_key_is_not_replayable:
  "(let db = fold outbox_exec [OxOpen True t1 q, OxClose True t2 (op_webhookId q) (op_key q) ObDispatched,
                OxOpen True t3 (q\<lparr>op_deliveryId := dlv, op_payload := p\<rparr>)] outbox_new
    in findStale cutoff limit db = [] \<and> length (ox_rows db) = 1)"
  by (simp add: Let_def outbox_open_def outbox_close_def close_row_def pending_row_def names_row_def outbox_new_def findStale_def)

end
