(* ===== verification/Delivery.thy ===== *)
theory Delivery
  imports Hooks Outbox
begin

text \<open>
  The delivery of one webhook (src/src/modules/webhook/webhook-delivery.service.ts and its utils) and
  the worker of the queued mode (src/src/modules/queue/processors/webhook.processor.ts). What the
  world answers is an environment: the plugin hooks, the receiver's answer to each attempt, whether
  the queue takes a job and whether the failure table takes a row. What a delivery does is appended
  to a log of POSTs and jobs and to the failure table. HMAC-SHA256 is the parameter \<open>en_sign\<close>; the
  notification hooks (\<open>webhook:queued\<close>, \<open>webhook:delivered\<close>, \<open>webhook:error\<close>) have no say in the
  outcome, since a chain never throws, and are left out.
\<close>

section \<open>Data\<close>

record webhook =
  wh_id :: string
  wh_sessionId :: string
  wh_url :: string
  wh_events :: "string list"
  wh_filters :: "filter_condition list option"
  wh_headers :: "(string, string) jsmap option"
  wh_secret :: "string option"
  wh_active :: bool
  wh_retryCount :: int

datatype post_answer = Answered nat | PostFails string

definition answer_ok :: "post_answer \<Rightarrow> bool" where
  "answer_ok a = (case a of Answered n \<Rightarrow> 200 \<le> n \<and> n < 300 | PostFails _ \<Rightarrow> False)"

datatype delivery_error =
    AnswerError post_answer | Oversize nat int | PreflightThrew | LimiterFull | LimiterClosed | Stalled

definition statusCodeFromError :: "delivery_error \<Rightarrow> nat option" where
  "statusCodeFromError e = (case e of AnswerError (Answered n) \<Rightarrow> Some n | _ \<Rightarrow> None)"

record delivery_failure =
  df_webhookId :: string
  df_sessionId :: string
  df_event :: string
  df_url :: string
  df_key :: string
  df_deliveryId :: string
  df_attempts :: int
  df_lastStatusCode :: "nat option"
  df_lastError :: delivery_error

record posted =
  ps_url :: string
  ps_headers :: "(string, string) jsmap"
  ps_body :: string

record webhook_job =
  jb_id :: string
  jb_webhookId :: string
  jb_url :: string
  jb_event :: string
  jb_sessionId :: string
  jb_key :: string
  jb_payload :: jsval
  jb_headers :: "(string, string) jsmap"
  jb_maxRetries :: int

record delivery_world =
  dw_posts :: "posted list"
  dw_jobs :: "webhook_job list"
  dw_failures :: "delivery_failure list"
  dw_metric :: nat

record delivery_env =
  en_hooks :: "jsval hook_manager"
  en_inFlight :: "string list"
  en_timestamp :: string
  en_maxPayloadBytes :: int
  en_queue :: "bool option"   \<comment> \<open>\<open>None\<close>: direct mode; \<open>Some ok\<close>: whether \<open>add()\<close> resolves\<close>
  en_post :: "nat \<Rightarrow> post_answer"
  en_failuresOk :: bool
  en_sign :: "string \<Rightarrow> string \<Rightarrow> string"

datatype outcome = Delivered | Enqueued | Cancelled | OutFailed

text \<open>What identifies a delivery: its ids and the event occurrence it carries.\<close>

record delivery_ctx =
  cx_sessionId :: string
  cx_event :: string
  cx_data :: payload
  cx_key :: string
  cx_deliveryId :: string

section \<open>The failure table\<close>

definition recordWebhookDeliveryFailure :: "bool \<Rightarrow> delivery_failure \<Rightarrow> delivery_failure list \<Rightarrow> bool \<times> delivery_failure list" where
  "recordWebhookDeliveryFailure ok row rows =
     (if \<not> ok then (True, rows)
      else if df_key row \<noteq> [] \<and> (\<exists>r \<in> set rows. df_webhookId r = df_webhookId row \<and> df_key r = df_key row)
      then (False, rows)
      else (True, rows @ [row]))"

definition file_failure :: "bool \<Rightarrow> delivery_failure \<Rightarrow> delivery_world \<Rightarrow> delivery_world" where
  "file_failure ok row w =
     (case recordWebhookDeliveryFailure ok row (dw_failures w) of
        (recorded, rows) \<Rightarrow> w\<lparr>dw_failures := rows, dw_metric := dw_metric w + (if recorded then 1 else 0)\<rparr>)"

definition failure_row :: "webhook \<Rightarrow> delivery_ctx \<Rightarrow> int \<Rightarrow> delivery_error \<Rightarrow> delivery_failure" where
  "failure_row wh cx attempts e =
     \<lparr>df_webhookId = wh_id wh, df_sessionId = cx_sessionId cx, df_event = cx_event cx, df_url = wh_url wh,
      df_key = cx_key cx, df_deliveryId = cx_deliveryId cx, df_attempts = attempts,
      df_lastStatusCode = statusCodeFromError e, df_lastError = e\<rparr>"

definition recordUndelivered :: "delivery_env \<Rightarrow> webhook \<Rightarrow> delivery_ctx \<Rightarrow> delivery_error \<Rightarrow> delivery_world \<Rightarrow> delivery_world" where
  "recordUndelivered env wh cx e w =
     file_failure (en_failuresOk env) ((failure_row wh cx 0 e)\<lparr>df_lastStatusCode := None\<rparr>) w"

section \<open>Matching webhooks\<close>

definition filterMatchingWebhooks :: "webhook list \<Rightarrow> string \<Rightarrow> payload \<Rightarrow> lid_resolver \<Rightarrow> webhook list" where
  "filterMatchingWebhooks whs e d resolve =
     filter (\<lambda>w. evaluateFilters (wh_filters w) e d resolve)
       (filter (\<lambda>w. e \<in> set (wh_events w) \<or> ''*'' \<in> set (wh_events w)) whs)"

section \<open>Headers\<close>

definition reserved_header :: "string \<Rightarrow> bool" where
  "reserved_header k \<longleftrightarrow> starts_with ''content-type'' (js_lower k) \<or> starts_with ''x-openwa-'' (js_lower k)"

definition sanitizeCustomHeaders :: "(string, string) jsmap option \<Rightarrow> (string, string) jsmap" where
  "sanitizeCustomHeaders custom =
     filter (\<lambda>(k, v). \<not> reserved_header k) (case custom of Some m \<Rightarrow> m | None \<Rightarrow> [])"

definition system_headers :: "delivery_ctx \<Rightarrow> (string, string) jsmap" where
  "system_headers cx =
     [(''Content-Type'', ''application/json''), (''User-Agent'', ''OpenWA-Webhook/1.0.0''),
      (''X-OpenWA-Event'', cx_event cx), (''X-OpenWA-Idempotency-Key'', cx_key cx),
      (''X-OpenWA-Delivery-Id'', cx_deliveryId cx), (''X-OpenWA-Retry-Count'', ''0'')]"

definition spread :: "(string, string) jsmap \<Rightarrow> (string, string) jsmap \<Rightarrow> (string, string) jsmap" where
  "spread base over = fold (\<lambda>(k, v) m. jm_set m k v) over base"

definition delivery_headers :: "webhook \<Rightarrow> delivery_ctx \<Rightarrow> (string, string) jsmap" where
  "delivery_headers wh cx = spread (sanitizeCustomHeaders (wh_headers wh)) (system_headers cx)"

section \<open>Preflight\<close>

datatype preflight = PfCancelled | PfFailed | PfReady jsval string "(string, string) jsmap"

definition payload_of :: "delivery_env \<Rightarrow> delivery_ctx \<Rightarrow> payload" where
  "payload_of env cx =
     [(''event'', JStr (cx_event cx)), (''timestamp'', JStr (en_timestamp env)), (''sessionId'', JStr (cx_sessionId cx)),
      (''idempotencyKey'', JStr (cx_key cx)), (''deliveryId'', JStr (cx_deliveryId cx)), (''data'', JObj (cx_data cx))]"

text \<open>\<open>hookResult?.payload ?? payload\<close>.\<close>

definition hook_payload :: "jsval \<Rightarrow> jsval \<Rightarrow> jsval" where
  "hook_payload res dflt =
     (case res of
        JObj o1 \<Rightarrow> (case field_of o1 ''payload'' of JUndefined \<Rightarrow> dflt | JNull \<Rightarrow> dflt | v \<Rightarrow> v)
      | _ \<Rightarrow> dflt)"

text \<open>The five assignments: a primitive refuses them, an array takes them as properties that
  \<open>JSON.stringify\<close> does not write.\<close>

definition assign_identity :: "delivery_env \<Rightarrow> delivery_ctx \<Rightarrow> jsval \<Rightarrow> jsval option" where
  "assign_identity env cx v =
     (case v of
        JObj o1 \<Rightarrow> Some (JObj (set_field (set_field (set_field (set_field (set_field o1
            ''event'' (JStr (cx_event cx))) ''sessionId'' (JStr (cx_sessionId cx)))
            ''timestamp'' (JStr (en_timestamp env))) ''idempotencyKey'' (JStr (cx_key cx)))
            ''deliveryId'' (JStr (cx_deliveryId cx))))
      | JArr vs \<Rightarrow> Some (JArr vs)
      | _ \<Rightarrow> None)"

definition body_bytes :: "jsval \<Rightarrow> nat" where
  "body_bytes v = utf8_length (stringify v)"

text \<open>Over the byte budget, what inline media is left is shed before the event is given up.\<close>

definition shed_payload :: "int \<Rightarrow> jsval \<Rightarrow> jsval" where
  "shed_payload maxBytes v =
     (if int (body_bytes v) > maxBytes
      then (case v of
              JObj o1 \<Rightarrow> (case field_of o1 ''data'' of JObj d \<Rightarrow> JObj (set_field o1 ''data'' (JObj (shedInlineMedia d 0))) | _ \<Rightarrow> v)
            | _ \<Rightarrow> v)
      else v)"

definition preflightDelivery :: "delivery_env \<Rightarrow> webhook \<Rightarrow> delivery_ctx \<Rightarrow> delivery_world \<Rightarrow> preflight \<times> delivery_world" where
  "preflightDelivery env wh cx w =
     (let payload = JObj (payload_of env cx) in
      case execute (en_hooks env) (en_inFlight env) ''webhook:before''
             (JObj [(''sessionId'', JStr (cx_sessionId cx)), (''event'', JStr (cx_event cx)), (''payload'', payload)]) of
        (shouldContinue, res) \<Rightarrow>
          if \<not> shouldContinue then (PfCancelled, w)
          else (case assign_identity env cx (hook_payload res payload) of
                  None \<Rightarrow> (PfFailed, recordUndelivered env wh cx PreflightThrew w)
                | Some p0 \<Rightarrow>
                    (let p = shed_payload (en_maxPayloadBytes env) p0
                     in if int (body_bytes p) > en_maxPayloadBytes env
                        then (PfFailed, recordUndelivered env wh cx (Oversize (body_bytes p) (en_maxPayloadBytes env)) w)
                        else (PfReady p (stringify p) (delivery_headers wh cx), w))))"

section \<open>Sending\<close>

definition generateSignature :: "delivery_env \<Rightarrow> string \<Rightarrow> string \<Rightarrow> string" where
  "generateSignature env body secret = ''sha256='' @ en_sign env body secret"

definition attempt_headers :: "delivery_env \<Rightarrow> webhook \<Rightarrow> string \<Rightarrow> nat \<Rightarrow> (string, string) jsmap \<Rightarrow> (string, string) jsmap" where
  "attempt_headers env wh body attempt headers =
     (let h = jm_set headers ''X-OpenWA-Retry-Count'' (show_int (int attempt - 1))
      in if truthy (wh_secret wh) \<and> \<not> truthy (jm_get h ''X-OpenWA-Signature'')
         then jm_set h ''X-OpenWA-Signature'' (generateSignature env body (the (wh_secret wh))) else h)"

function deliverWebhook :: "delivery_env \<Rightarrow> webhook \<Rightarrow> delivery_ctx \<Rightarrow> (string, string) jsmap \<Rightarrow> string \<Rightarrow> nat \<Rightarrow> delivery_world
    \<Rightarrow> bool \<times> delivery_world" where
  "deliverWebhook env wh cx headers body attempt w =
     (let h = attempt_headers env wh body attempt headers;
          w1 = w\<lparr>dw_posts := dw_posts w @ [\<lparr>ps_url = wh_url wh, ps_headers = h, ps_body = body\<rparr>]\<rparr>
      in if answer_ok (en_post env attempt) then (True, w1)
         else if int attempt < wh_retryCount wh then deliverWebhook env wh cx h body (attempt + 1) w1
         else (False, file_failure (en_failuresOk env) (failure_row wh cx (int attempt) (AnswerError (en_post env attempt))) w1))"
  by pat_completeness auto

termination deliverWebhook
  by (relation "measure (\<lambda>(env, wh, cx, headers, body, attempt, w). nat (wh_retryCount wh - int attempt))") auto

declare deliverWebhook.simps [simp del]

definition delivery_job :: "webhook \<Rightarrow> delivery_ctx \<Rightarrow> jsval \<Rightarrow> (string, string) jsmap \<Rightarrow> webhook_job" where
  "delivery_job wh cx p headers =
     \<lparr>jb_id = cx_deliveryId cx, jb_webhookId = wh_id wh, jb_url = wh_url wh, jb_event = cx_event cx,
      jb_sessionId = cx_sessionId cx, jb_key = cx_key cx, jb_payload = p, jb_headers = headers,
      jb_maxRetries = wh_retryCount wh\<rparr>"

definition signed_headers :: "delivery_env \<Rightarrow> webhook \<Rightarrow> string \<Rightarrow> (string, string) jsmap \<Rightarrow> (string, string) jsmap" where
  "signed_headers env wh body headers =
     (if truthy (wh_secret wh)
      then jm_set headers ''X-OpenWA-Signature'' (generateSignature env body (the (wh_secret wh))) else headers)"

definition deliverDirect :: "delivery_env \<Rightarrow> webhook \<Rightarrow> delivery_ctx \<Rightarrow> string \<Rightarrow> (string, string) jsmap \<Rightarrow> delivery_world \<Rightarrow> outcome \<times> delivery_world" where
  "deliverDirect env wh cx body headers w =
     (case deliverWebhook env wh cx headers body 1 w of (ok, w') \<Rightarrow> (if ok then Delivered else OutFailed, w'))"

definition enqueueWithFallback :: "bool \<Rightarrow> delivery_env \<Rightarrow> webhook \<Rightarrow> delivery_ctx \<Rightarrow> jsval \<Rightarrow> string \<Rightarrow> (string, string) jsmap
    \<Rightarrow> delivery_world \<Rightarrow> outcome \<times> delivery_world" where
  "enqueueWithFallback added env wh cx p body headers w =
     (let h = signed_headers env wh body headers
      in if added then (Enqueued, w\<lparr>dw_jobs := dw_jobs w @ [delivery_job wh cx p h]\<rparr>)
         else (case deliverWebhook env wh cx h body 1 w of (ok, w') \<Rightarrow> (if ok then Delivered else OutFailed, w')))"

definition deliverOne :: "delivery_env \<Rightarrow> webhook \<Rightarrow> delivery_ctx \<Rightarrow> delivery_world \<Rightarrow> outcome \<times> delivery_world" where
  "deliverOne env wh cx w =
     (case preflightDelivery env wh cx w of
        (PfCancelled, w') \<Rightarrow> (Cancelled, w')
      | (PfFailed, w') \<Rightarrow> (OutFailed, w')
      | (PfReady p body headers, w') \<Rightarrow>
          (case en_queue env of
             Some added \<Rightarrow> enqueueWithFallback added env wh cx p body headers w'
           | None \<Rightarrow> deliverDirect env wh cx body headers w'))"

definition redeliver :: "delivery_env \<Rightarrow> webhook \<Rightarrow> string \<Rightarrow> string \<Rightarrow> string \<Rightarrow> string \<Rightarrow> payload \<Rightarrow> delivery_world \<Rightarrow> outcome \<times> delivery_world" where
  "redeliver env wh deliveryId sessionId e key d w =
     deliverOne env wh \<lparr>cx_sessionId = sessionId, cx_event = e, cx_data = d, cx_key = key, cx_deliveryId = deliveryId\<rparr> w"

section \<open>The worker of the queue\<close>

definition job_failure :: "webhook_job \<Rightarrow> int \<Rightarrow> delivery_error \<Rightarrow> delivery_failure" where
  "job_failure j attempts e =
     \<lparr>df_webhookId = jb_webhookId j, df_sessionId = jb_sessionId j, df_event = jb_event j, df_url = jb_url j,
      df_key = jb_key j, df_deliveryId = jb_id j, df_attempts = attempts,
      df_lastStatusCode = statusCodeFromError e, df_lastError = e\<rparr>"

definition recordDeliveryFailure :: "bool \<Rightarrow> webhook_job \<Rightarrow> nat \<Rightarrow> delivery_error \<Rightarrow> delivery_world \<Rightarrow> delivery_world" where
  "recordDeliveryFailure failuresOk j attemptsMade e w =
     (if int attemptsMade + 1 \<ge> jb_maxRetries j
      then file_failure failuresOk (job_failure j (int attemptsMade + 1) e) w else w)"

text \<open>One run of a job; \<open>False\<close> is the rethrow that makes the queue retry.\<close>

definition process :: "bool \<Rightarrow> webhook_job \<Rightarrow> nat \<Rightarrow> post_answer \<Rightarrow> delivery_world \<Rightarrow> bool \<times> delivery_world" where
  "process failuresOk j attemptsMade answer w =
     (let w1 = w\<lparr>dw_posts := dw_posts w @ [\<lparr>ps_url = jb_url j,
            ps_headers = jm_set (jb_headers j) ''X-OpenWA-Retry-Count'' (show_int (int attemptsMade)),
            ps_body = stringify (jb_payload j)\<rparr>]\<rparr>
      in if answer_ok answer then (True, w1)
         else (False, recordDeliveryFailure failuresOk j attemptsMade (AnswerError answer) w1))"

definition onWorkerFailed :: "bool \<Rightarrow> webhook_job option \<Rightarrow> nat \<Rightarrow> bool \<Rightarrow> delivery_world \<Rightarrow> delivery_world" where
  "onWorkerFailed failuresOk job attemptsMade stalled w =
     (case job of
        None \<Rightarrow> w
      | Some j \<Rightarrow> if \<not> stalled then w else file_failure failuresOk (job_failure j (int attemptsMade) Stalled) w)"

text \<open>The queue runs a job again after a rethrow while it has attempts left (\<open>attempts\<close> of its
  options, one at least).\<close>

fun job_runs :: "bool \<Rightarrow> webhook_job \<Rightarrow> nat \<Rightarrow> post_answer list \<Rightarrow> delivery_world \<Rightarrow> bool \<times> delivery_world" where
  "job_runs failuresOk j made [] w = (False, w)"
| "job_runs failuresOk j made (a # as) w =
     (case process failuresOk j made a w of
        (True, w') \<Rightarrow> (True, w')
      | (False, w') \<Rightarrow> if int made + 1 < jb_maxRetries j then job_runs failuresOk j (made + 1) as w' else (False, w'))"

section \<open>The failure table\<close>

lemma file_failure_simps [simp]:
  "dw_posts (file_failure ok row w) = dw_posts w" "dw_jobs (file_failure ok row w) = dw_jobs w"
  by (simp_all add: file_failure_def split: prod.splits)

lemma file_failure_posts [simp]:
  "dw_failures (file_failure ok row (w\<lparr>dw_posts := ps\<rparr>)) = dw_failures (file_failure ok row w)"
  "dw_metric (file_failure ok row (w\<lparr>dw_posts := ps\<rparr>)) = dw_metric (file_failure ok row w)"
  by (simp_all add: file_failure_def split: prod.splits)

lemma sent_posts:
  "map ps_body (map (\<lambda>h. \<lparr>ps_url = u, ps_headers = h, ps_body = b\<rparr>) hs) = replicate (length hs) b"
  "map ps_url (map (\<lambda>h. \<lparr>ps_url = u, ps_headers = h, ps_body = b\<rparr>) hs) = replicate (length hs) u"
  by (induction hs) auto

definition lost :: "delivery_world \<Rightarrow> string \<Rightarrow> string \<Rightarrow> bool" where
  "lost w i k \<longleftrightarrow> (\<exists>r \<in> set (dw_failures w). df_webhookId r = i \<and> df_key r = k)"

text \<open>One row for each lost delivery that has a key.\<close>

definition failures_inv :: "delivery_world \<Rightarrow> bool" where
  "failures_inv w \<longleftrightarrow> distinct (map (\<lambda>r. (df_webhookId r, df_key r)) (filter (\<lambda>r. df_key r \<noteq> []) (dw_failures w)))"

lemma file_failure_inv: "failures_inv w \<Longrightarrow> failures_inv (file_failure ok row w)"
  by (force simp: failures_inv_def file_failure_def recordWebhookDeliveryFailure_def)

lemma file_failure_lost:
  "lost (file_failure True row w) (df_webhookId row) (df_key row)"
  by (auto simp: lost_def file_failure_def recordWebhookDeliveryFailure_def)

lemma file_failure_metric:
  "int (dw_metric (file_failure True row w)) - int (dw_metric w)
     = int (length (dw_failures (file_failure True row w))) - int (length (dw_failures w))"
  by (simp add: file_failure_def recordWebhookDeliveryFailure_def)

lemma failure_row_ids [simp]:
  "df_webhookId (failure_row wh cx n e) = wh_id wh" "df_key (failure_row wh cx n e) = cx_key cx"
  by (simp_all add: failure_row_def)

section \<open>The retry loop\<close>

definition first_ok :: "delivery_env \<Rightarrow> nat \<Rightarrow> nat \<Rightarrow> nat option" where
  "first_ok env i n = find (\<lambda>k. answer_ok (en_post env k)) [i..<Suc n]"

definition last_attempt :: "webhook \<Rightarrow> nat" where
  "last_attempt wh = max 1 (nat (wh_retryCount wh))"

lemma first_ok_step:
  "i \<le> n \<Longrightarrow> first_ok env i n = (if answer_ok (en_post env i) then Some i else first_ok env (Suc i) n)"
proof -
  assume "i \<le> n"
  then have "[i..<Suc n] = i # [Suc i..<Suc n]" by (simp add: upt_conv_Cons del: upt_Suc)
  then show ?thesis unfolding first_ok_def by (simp del: upt_Suc)
qed

lemma find_in_set: "find P xs = Some x \<Longrightarrow> x \<in> set xs \<and> P x"
  by (auto simp: find_Some_iff)

lemma first_ok_bounds: "first_ok env i n = Some k \<Longrightarrow> i \<le> k \<and> k \<le> n \<and> answer_ok (en_post env k)"
  unfolding first_ok_def by (drule find_in_set) (auto simp del: upt_Suc)

lemma first_ok_empty: "n < i \<Longrightarrow> first_ok env i n = None"
  by (simp add: first_ok_def)

lemma deliverWebhook_spec:
  assumes "i \<le> n" and "n = max i (nat (wh_retryCount wh))"
  shows "\<exists>hs. deliverWebhook env wh cx headers body i w =
      (case first_ok env i n of
         Some k \<Rightarrow> (True, w\<lparr>dw_posts := dw_posts w @ map (\<lambda>h. \<lparr>ps_url = wh_url wh, ps_headers = h, ps_body = body\<rparr>) hs\<rparr>)
       | None \<Rightarrow> (False, file_failure (en_failuresOk env) (failure_row wh cx (int n) (AnswerError (en_post env n)))
           (w\<lparr>dw_posts := dw_posts w @ map (\<lambda>h. \<lparr>ps_url = wh_url wh, ps_headers = h, ps_body = body\<rparr>) hs\<rparr>)))
    \<and> length hs = (case first_ok env i n of Some k \<Rightarrow> Suc k - i | None \<Rightarrow> Suc n - i)"
  using assms
proof (induction "n - i" arbitrary: i headers w)
  case 0
  then have "n = i" and "\<not> int i < wh_retryCount wh" by auto
  then show ?case
    by (intro exI [of _ "[attempt_headers env wh body i headers]"])
      (simp add: deliverWebhook.simps [of env wh cx headers body i] first_ok_step first_ok_empty Let_def)
next
  case (Suc d)
  then have less: "i < n" and more: "int i < wh_retryCount wh" by auto
  define h where "h = attempt_headers env wh body i headers"
  define w1 where "w1 = w\<lparr>dw_posts := dw_posts w @ [\<lparr>ps_url = wh_url wh, ps_headers = h, ps_body = body\<rparr>]\<rparr>"
  show ?case
  proof (cases "answer_ok (en_post env i)")
    case True
    then show ?thesis using less
      by (intro exI [of _ "[h]"])
        (simp add: deliverWebhook.simps [of env wh cx headers body i] first_ok_step Let_def h_def)
  next
    case False
    have "d = n - Suc i" and "Suc i \<le> n" and "n = max (Suc i) (nat (wh_retryCount wh))"
      using Suc.hyps(2) Suc.prems less by auto
    from Suc.hyps(1) [OF this, of h w1] obtain hs where hs:
      "deliverWebhook env wh cx h body (Suc i) w1 =
        (case first_ok env (Suc i) n of
           Some k \<Rightarrow> (True, w1\<lparr>dw_posts := dw_posts w1 @ map (\<lambda>h. \<lparr>ps_url = wh_url wh, ps_headers = h, ps_body = body\<rparr>) hs\<rparr>)
         | None \<Rightarrow> (False, file_failure (en_failuresOk env) (failure_row wh cx (int n) (AnswerError (en_post env n)))
             (w1\<lparr>dw_posts := dw_posts w1 @ map (\<lambda>h. \<lparr>ps_url = wh_url wh, ps_headers = h, ps_body = body\<rparr>) hs\<rparr>)))"
      "length hs = (case first_ok env (Suc i) n of Some k \<Rightarrow> Suc k - Suc i | None \<Rightarrow> Suc n - Suc i)" by blast
    have step: "deliverWebhook env wh cx headers body i w = deliverWebhook env wh cx h body (Suc i) w1"
      using False more by (subst deliverWebhook.simps) (simp add: Let_def h_def w1_def)
    have "first_ok env (Suc i) n = Some k \<Longrightarrow> Suc i \<le> k" for k
      using first_ok_bounds by blast
    then show ?thesis using hs False less
      by (intro exI [of _ "h # hs"]) (auto simp: step first_ok_step w1_def split: option.splits)
  qed
qed

text \<open>C24. A direct delivery POSTs the same bytes until the receiver first answers with a 2xx, for
  at most the configured number of attempts and at least one: it reports delivered exactly when one
  of these attempts is answered so, files nothing then, and otherwise files the failure of the last
  attempt under the delivery's key.\<close>

theorem direct_delivery_spec:
  "(let (out, w') = deliverDirect env wh cx body headers w;
        first = first_ok env 1 (last_attempt wh);
        n = (case first of Some k \<Rightarrow> k | None \<Rightarrow> last_attempt wh)
    in out = (if first = None then OutFailed else Delivered)
     \<and> map ps_body (dw_posts w') = map ps_body (dw_posts w) @ replicate n body
     \<and> map ps_url (dw_posts w') = map ps_url (dw_posts w) @ replicate n (wh_url wh)
     \<and> dw_jobs w' = dw_jobs w
     \<and> (dw_failures w', dw_metric w')
         = (if first = None
            then (let e = AnswerError (en_post env n);
                      w1 = file_failure (en_failuresOk env) (failure_row wh cx (int n) e) w
                  in (dw_failures w1, dw_metric w1))
            else (dw_failures w, dw_metric w)))"
proof -
  have le: "1 \<le> last_attempt wh" and eq: "last_attempt wh = max 1 (nat (wh_retryCount wh))"
    by (simp_all add: last_attempt_def)
  obtain hs where hs: "deliverWebhook env wh cx headers body 1 w =
      (case first_ok env 1 (last_attempt wh) of
         Some k \<Rightarrow> (True, w\<lparr>dw_posts := dw_posts w @ map (\<lambda>h. \<lparr>ps_url = wh_url wh, ps_headers = h, ps_body = body\<rparr>) hs\<rparr>)
       | None \<Rightarrow> (False, file_failure (en_failuresOk env) (failure_row wh cx (int (last_attempt wh)) (AnswerError (en_post env (last_attempt wh))))
           (w\<lparr>dw_posts := dw_posts w @ map (\<lambda>h. \<lparr>ps_url = wh_url wh, ps_headers = h, ps_body = body\<rparr>) hs\<rparr>)))"
    and len: "length hs = (case first_ok env 1 (last_attempt wh) of Some k \<Rightarrow> Suc k - 1 | None \<Rightarrow> Suc (last_attempt wh) - 1)"
    using deliverWebhook_spec [OF le eq, of env cx headers body w] by (elim exE conjE) (rule that)
  define ps where "ps = map (\<lambda>h. \<lparr>ps_url = wh_url wh, ps_headers = h, ps_body = body\<rparr>) hs"
  have ps: "map ps_body ps = replicate (length hs) body" "map ps_url ps = replicate (length hs) (wh_url wh)"
    unfolding ps_def by (rule sent_posts)+
  show ?thesis
  proof (cases "first_ok env 1 (last_attempt wh)")
    case None
    then have run: "deliverDirect env wh cx body headers w =
        (OutFailed, file_failure (en_failuresOk env) (failure_row wh cx (int (last_attempt wh))
           (AnswerError (en_post env (last_attempt wh)))) (w\<lparr>dw_posts := dw_posts w @ ps\<rparr>))"
      using hs by (simp only: deliverDirect_def ps_def option.case prod.case if_False)
    have "length hs = last_attempt wh" using len None by simp
    then show ?thesis unfolding run None by (simp add: ps Let_def)
  next
    case (Some k)
    then have run: "deliverDirect env wh cx body headers w = (Delivered, w\<lparr>dw_posts := dw_posts w @ ps\<rparr>)"
      using hs by (simp only: deliverDirect_def ps_def option.case prod.case if_True)
    have "length hs = k" using len Some by simp
    then show ?thesis unfolding run Some by (simp add: ps Let_def)
  qed
qed

lemma preflight_world:
  assumes "preflightDelivery env wh cx w = (pf, w')"
  shows "w' = (if pf = PfFailed then w' else w)"
  using assms by (auto simp: preflightDelivery_def Let_def split: prod.splits option.splits if_splits)

lemma recordUndelivered_lost: "en_failuresOk env \<Longrightarrow> lost (recordUndelivered env wh cx e w) (wh_id wh) (cx_key cx)"
  using file_failure_lost [of "(failure_row wh cx 0 e)\<lparr>df_lastStatusCode := None\<rparr>" w]
  by (simp add: recordUndelivered_def)

lemma deliverWebhook_lost:
  "en_failuresOk env \<Longrightarrow> deliverWebhook env wh cx headers body i w = (False, w') \<Longrightarrow> lost w' (wh_id wh) (cx_key cx)"
proof -
  assume ok: "en_failuresOk env" and run: "deliverWebhook env wh cx headers body i w = (False, w')"
  obtain w1 n e where "w' = file_failure True (failure_row wh cx n e) w1"
    using deliverWebhook_spec [of i "max i (nat (wh_retryCount wh))" wh env cx headers body w] ok run
    by (auto split: option.splits)
  then show "lost w' (wh_id wh) (cx_key cx)" using file_failure_lost [of "failure_row wh cx n e" w1] by simp
qed

text \<open>Whatever the plugins, the queue and the receiver do, a delivery that reports failure has
  left a row under its webhook and key in the failure table when the table takes rows.\<close>

theorem failed_delivery_is_on_record:
  assumes "en_failuresOk env" and "deliverOne env wh cx w = (OutFailed, w')"
  shows "lost w' (wh_id wh) (cx_key cx)"
proof -
  obtain pf w1 where pf: "preflightDelivery env wh cx w = (pf, w1)" by fastforce
  show ?thesis
  proof (cases pf)
    case PfCancelled
    then show ?thesis using assms(2) pf by (simp add: deliverOne_def)
  next
    case PfFailed
    then have "w' = w1" using assms(2) pf by (simp add: deliverOne_def)
    moreover obtain e where "w1 = recordUndelivered env wh cx e w"
      using pf PfFailed by (auto simp: preflightDelivery_def Let_def split: prod.splits option.splits if_splits)
    ultimately show ?thesis using recordUndelivered_lost [OF assms(1)] by simp
  next
    case (PfReady p body headers)
    then have "\<exists>h. deliverWebhook env wh cx h body 1 w1 = (False, w')"
      using assms(2) pf
      by (auto simp: deliverOne_def deliverDirect_def enqueueWithFallback_def Let_def split: option.splits prod.splits if_splits)
    then show ?thesis using deliverWebhook_lost [OF assms(1)] by blast
  qed
qed

definition sample_webhook :: webhook where
  "sample_webhook = \<lparr>wh_id = ''w1'', wh_sessionId = ''s'', wh_url = ''https://example.org'', wh_events = [''*''],
     wh_filters = None, wh_headers = Some [(''x-openwa-event'', ''forged''), (''X-Team'', ''a'')], wh_secret = None,
     wh_active = True, wh_retryCount = 2\<rparr>"

definition sample_env :: delivery_env where
  "sample_env = \<lparr>en_hooks = hook_manager_new, en_inFlight = [], en_timestamp = ''2026-01-01T00:00:00.000Z'',
     en_maxPayloadBytes = 1048576, en_queue = None, en_post = (\<lambda>i. Answered 503), en_failuresOk = True,
     en_sign = (\<lambda>b s. ''00'')\<rparr>"

definition sample_ctx :: delivery_ctx where
  "sample_ctx = \<lparr>cx_sessionId = ''s'', cx_event = ''session.qr'', cx_data = [], cx_key = ''k'', cx_deliveryId = ''dlv_1''\<rparr>"

definition empty_world :: delivery_world where
  "empty_world = \<lparr>dw_posts = [], dw_jobs = [], dw_failures = [], dw_metric = 0\<rparr>"

text \<open>A plugin that answers with a primitive payload, which the identity cannot be assigned to.\<close>

definition primitive_plugin :: "jsval hook_manager" where
  "primitive_plugin = snd (register ''1'' ''p'' ''webhook:before''
     (\<lambda>d. Done (HookReply True (Some (JObj [(''payload'', JNum 1)])) None)) 100 hook_manager_new)"

theorem failed_delivery_is_on_record_witness:
  "\<exists>w'. deliverOne (sample_env\<lparr>en_hooks := primitive_plugin\<rparr>) sample_webhook sample_ctx empty_world = (OutFailed, w')
      \<and> lost w' ''w1'' ''k''"
proof -
  let ?env = "sample_env\<lparr>en_hooks := primitive_plugin\<rparr>"
  let ?w = "recordUndelivered ?env sample_webhook sample_ctx PreflightThrew empty_world"
  have "execute primitive_plugin [] ''webhook:before'' d = (True, JObj [(''payload'', JNum 1)])" for d
    by (simp add: execute_unfold primitive_plugin_def)
  then have out: "deliverOne ?env sample_webhook sample_ctx empty_world = (OutFailed, ?w)"
    by (simp add: deliverOne_def preflightDelivery_def sample_env_def hook_payload_def field_of_def assign_identity_def)
  have ok: "en_failuresOk ?env" by (simp add: sample_env_def)
  have "lost ?w ''w1'' ''k''"
    using failed_delivery_is_on_record [OF ok out] by (simp add: sample_webhook_def sample_ctx_def)
  with out show ?thesis by blast
qed

section \<open>What the plugins and the configuration cannot touch\<close>

text \<open>C25. A delivery that passes preflight is within the byte budget, and if its body is an object, as
  it is unless a plugin answers with an array, every identity field of the bytes to be sent has the
  gateway's value whatever the plugins returned; a cancelled one leaves no trace and a refused one
  exactly its failure row.\<close>

theorem hooks_cannot_rewrite_identity:
  "(case preflightDelivery env wh cx w of
      (PfReady p body headers, w') \<Rightarrow> w' = w \<and> body = stringify p \<and> int (utf8_length body) \<le> en_maxPayloadBytes env
        \<and> headers = delivery_headers wh cx
        \<and> (case p of
             JObj fs \<Rightarrow> map (field_of fs) [''event'', ''sessionId'', ''timestamp'', ''idempotencyKey'', ''deliveryId'']
               = map JStr [cx_event cx, cx_sessionId cx, en_timestamp env, cx_key cx, cx_deliveryId cx]
           | JArr vs \<Rightarrow> True
           | _ \<Rightarrow> False)
    | (PfCancelled, w') \<Rightarrow> w' = w
    | (PfFailed, w') \<Rightarrow> (\<exists>e. w' = recordUndelivered env wh cx e w))"
  by (auto simp: preflightDelivery_def Let_def assign_identity_def shed_payload_def body_bytes_def
      split: prod.splits option.splits if_splits jsval.splits)

text \<open>A plugin that answers with an array drops the identity: the array passes preflight and the
  bytes that are signed and sent are the array alone, with none of the fields the gateway assigned.\<close>

theorem array_payload_drops_identity:
  "preflightDelivery (env\<lparr>en_hooks := snd (register ''1'' ''p'' ''webhook:before''
       (\<lambda>d. Done (HookReply True (Some (JObj [(''payload'', JArr [])])) None)) 100 hook_manager_new),
       en_inFlight := [], en_maxPayloadBytes := 1048576\<rparr>) wh cx w
   = (PfReady (JArr []) ''[]'' (delivery_headers wh cx), w)"
  by (simp add: preflightDelivery_def execute_unfold hook_payload_def field_of_def assign_identity_def shed_payload_def
      body_bytes_def stringify_def utf8_length_def Let_def)

lemma filter_jm_set: "filter (\<lambda>(k, v). P k) (jm_set m k v) = (if P k then jm_set (filter (\<lambda>(k, v). P k) m) k v else filter (\<lambda>(k, v). P k) m)"
  by (induction m k v rule: jm_set.induct) auto

lemma jm_get_filter: "P k \<Longrightarrow> jm_get (filter (\<lambda>(k, v). P k) m) k = jm_get m k"
  by (induction m) (auto simp: jm_get_def)

lemma filter_spread:
  "filter (\<lambda>(k, v). P k) (spread base over) = spread (filter (\<lambda>(k, v). P k) base) (filter (\<lambda>(k, v). P k) over)"
  unfolding spread_def by (induction over arbitrary: base) (auto simp: filter_jm_set)

abbreviation reserved_of :: "(string, string) jsmap \<Rightarrow> (string, string) jsmap" where
  "reserved_of h \<equiv> filter (\<lambda>(k, v). reserved_header k) h"

lemma reserved_sanitized: "reserved_of (sanitizeCustomHeaders custom) = []"
  by (auto simp: sanitizeCustomHeaders_def filter_empty_conv)

definition reserved_system :: "delivery_ctx \<Rightarrow> string \<Rightarrow> (string, string) jsmap" where
  "reserved_system cx retries =
     [(''Content-Type'', ''application/json''), (''X-OpenWA-Event'', cx_event cx), (''X-OpenWA-Idempotency-Key'', cx_key cx),
      (''X-OpenWA-Delivery-Id'', cx_deliveryId cx), (''X-OpenWA-Retry-Count'', retries)]"

lemma reserved_names [simp]:
  "reserved_header ''Content-Type''" "\<not> reserved_header ''User-Agent''" "reserved_header ''X-OpenWA-Event''"
  "reserved_header ''X-OpenWA-Idempotency-Key''" "reserved_header ''X-OpenWA-Delivery-Id''"
  "reserved_header ''X-OpenWA-Retry-Count''" "reserved_header ''X-OpenWA-Signature''"
  by code_simp+

lemma reserved_delivery_headers: "reserved_of (delivery_headers wh cx) = reserved_system cx ''0''"
  unfolding delivery_headers_def filter_spread reserved_sanitized
  by (simp add: system_headers_def reserved_system_def spread_def)

lemma reserved_retry: "jm_set (reserved_system cx r) ''X-OpenWA-Retry-Count'' r' = reserved_system cx r'"
  by (simp add: reserved_system_def)

lemma no_signature_yet: "jm_get (jm_set (delivery_headers wh cx) ''X-OpenWA-Retry-Count'' r) ''X-OpenWA-Signature'' = None"
proof -
  have "jm_get (delivery_headers wh cx) ''X-OpenWA-Signature'' = jm_get (reserved_of (delivery_headers wh cx)) ''X-OpenWA-Signature''"
    by (simp add: jm_get_filter)
  also have "\<dots> = None" unfolding reserved_delivery_headers by (simp add: reserved_system_def jm_get_def)
  finally show ?thesis by simp
qed

definition signature_header :: "delivery_env \<Rightarrow> webhook \<Rightarrow> string \<Rightarrow> (string, string) jsmap" where
  "signature_header env wh body =
     (if truthy (wh_secret wh) then [(''X-OpenWA-Signature'', generateSignature env body (the (wh_secret wh)))] else [])"

text \<open>No webhook configuration forges a reserved header: whatever custom headers it names, in any
  case, the headers of the first direct attempt, and of every attempt of the worker, that are
  reserved are the gateway's own, with the true retry count, and the signature, present exactly when
  a secret is set, is over the very bytes of the body sent.\<close>

theorem reserved_headers_are_the_gateways:
  "reserved_of (attempt_headers env wh body 1 (delivery_headers wh cx)) = reserved_system cx ''0'' @ signature_header env wh body
   \<and> map (\<lambda>q. (ps_body q, reserved_of (ps_headers q)))
       (drop (length (dw_posts w)) (dw_posts (snd (process ok
          (delivery_job wh cx p (signed_headers env wh (stringify p) (delivery_headers wh cx))) n answer w))))
     = [(stringify p, reserved_system cx (show_int (int n)) @ signature_header env wh (stringify p))]"
proof (rule conjI)
  have sig: "jm_set (reserved_system cx r) ''X-OpenWA-Signature'' s = reserved_system cx r @ [(''X-OpenWA-Signature'', s)]" for r s
    by (simp add: reserved_system_def)
  have zero: "show_int 0 = ''0''" by code_simp
  show "reserved_of (attempt_headers env wh body 1 (delivery_headers wh cx)) = reserved_system cx ''0'' @ signature_header env wh body"
    unfolding attempt_headers_def Let_def no_signature_yet
    by (simp add: truthy_def [of None] filter_jm_set reserved_delivery_headers reserved_retry sig signature_header_def zero)
  show "map (\<lambda>q. (ps_body q, reserved_of (ps_headers q)))
       (drop (length (dw_posts w)) (dw_posts (snd (process ok
          (delivery_job wh cx p (signed_headers env wh (stringify p) (delivery_headers wh cx))) n answer w))))
     = [(stringify p, reserved_system cx (show_int (int n)) @ signature_header env wh (stringify p))]"
    by (simp add: process_def recordDeliveryFailure_def Let_def delivery_job_def signed_headers_def filter_jm_set
        reserved_delivery_headers sig signature_header_def reserved_system_def)
qed

section \<open>Two paths, one delivery\<close>

lemma delivery_job_retries [simp]: "jb_maxRetries (delivery_job wh cx p h) = wh_retryCount wh"
  by (simp add: delivery_job_def)

lemma jm_set_twice: "jm_set (jm_set m k a) k b = jm_set m k b"
  by (induction m k a rule: jm_set.induct) auto

lemma attempt_headers_signed:
  assumes "truthy (wh_secret wh) \<longrightarrow> truthy (jm_get h ''X-OpenWA-Signature'')"
  shows "attempt_headers env wh body i h = jm_set h ''X-OpenWA-Retry-Count'' (show_int (int i - 1))"
  using assms by (auto simp: attempt_headers_def Let_def)

lemma job_runs_direct:
  assumes "1 \<le> i" and "i \<le> n" and "n = max i (nat (wh_retryCount wh))"
    and "truthy (wh_secret wh) \<longrightarrow> truthy (jm_get h ''X-OpenWA-Signature'')"
    and "truthy (wh_secret wh) \<longrightarrow> truthy (jm_get h' ''X-OpenWA-Signature'')"
    and "\<And>v. jm_set h' ''X-OpenWA-Retry-Count'' v = jm_set h ''X-OpenWA-Retry-Count'' v"
  shows "job_runs (en_failuresOk env) (delivery_job wh cx p h) (i - 1) (map (en_post env) [i..<Suc n]) w
    = deliverWebhook env wh cx h' (stringify p) i w"
  using assms(1,2,3,5,6)
proof (induction "n - i" arbitrary: i h' w)
  case 0
  then have "n = i" and "\<not> int i < wh_retryCount wh" and "int (i - 1) = int i - 1" by auto
  then show ?case using 0 assms(4)
    by (simp add: deliverWebhook.simps [of env wh cx h' "stringify p" i] process_def Let_def delivery_job_def
        attempt_headers_signed recordDeliveryFailure_def job_failure_def failure_row_def upt_conv_Cons)
next
  case (Suc d)
  then have less: "i < n" and more: "int i < wh_retryCount wh" and i: "int (i - 1) = int i - 1" "Suc (i - 1) = i" by auto
  have upt: "map (en_post env) [i..<Suc n] = en_post env i # map (en_post env) [Suc i..<Suc n]"
    using less by (simp add: upt_conv_Cons del: upt_Suc)
  define h1 where "h1 = jm_set h ''X-OpenWA-Retry-Count'' (show_int (int i - 1))"
  define w1 where "w1 = w\<lparr>dw_posts := dw_posts w @ [\<lparr>ps_url = wh_url wh, ps_headers = h1, ps_body = stringify p\<rparr>]\<rparr>"
  have proc: "process (en_failuresOk env) (delivery_job wh cx p h) (i - 1) (en_post env i) w = (answer_ok (en_post env i), w1)"
    using more i by (simp add: process_def Let_def delivery_job_def recordDeliveryFailure_def h1_def w1_def)
  have step: "deliverWebhook env wh cx h' (stringify p) i w =
      (if answer_ok (en_post env i) then (True, w1) else deliverWebhook env wh cx h1 (stringify p) (Suc i) w1)"
    using more Suc.prems(4,5)
    by (simp add: deliverWebhook.simps [of env wh cx h' "stringify p" i] Let_def attempt_headers_signed h1_def w1_def)
  have "job_runs (en_failuresOk env) (delivery_job wh cx p h) (Suc i - 1) (map (en_post env) [Suc i..<Suc n]) w1
    = deliverWebhook env wh cx h1 (stringify p) (Suc i) w1"
  proof (rule Suc.hyps(1))
    show "truthy (wh_secret wh) \<longrightarrow> truthy (jm_get h1 ''X-OpenWA-Signature'')" using assms(4) by (simp add: h1_def)
    show "jm_set h1 ''X-OpenWA-Retry-Count'' v = jm_set h ''X-OpenWA-Retry-Count'' v" for v
      by (simp add: h1_def jm_set_twice)
  qed (use Suc.hyps(2) Suc.prems less in auto)
  moreover have "job_runs (en_failuresOk env) (delivery_job wh cx p h) (i - 1) (map (en_post env) [i..<Suc n]) w
      = (if answer_ok (en_post env i) then (True, w1)
         else job_runs (en_failuresOk env) (delivery_job wh cx p h) i (map (en_post env) [Suc i..<Suc n]) w1)"
    unfolding upt job_runs.simps proc using more i by (simp del: upt_Suc)
  ultimately show ?case unfolding step by (simp del: upt_Suc)
qed


end
