(* ===== verification/Limiter.thy ===== *)
theory Limiter
  imports Prelude
begin

text \<open>
  The concurrency gate (src/src/common/utils/concurrency-limiter.ts), used for inbound media and for
  webhook dispatch. A \<open>run()\<close> call is a task id. The fields of the class are \<open>lm_max\<close>,
  \<open>lm_maxQueued\<close>, \<open>lm_active\<close>, \<open>lm_waiters\<close> and \<open>lm_closed\<close>; the others record what happened to the
  promises of the calls: which tasks hold a slot, which were admitted, started and rejected, in order.
  A waiter that is woken starts its task before any later event of that task, so waking is starting.
\<close>

section \<open>The model\<close>

record limiter =
  lm_max :: int
  lm_maxQueued :: "int option"   \<comment> \<open>\<open>None\<close> is \<open>Infinity\<close>\<close>
  lm_active :: int
  lm_waiters :: "nat list"
  lm_closed :: bool
  lm_running :: "nat list"
  lm_admitted :: "nat list"
  lm_started :: "nat list"
  lm_rejected :: "nat list"

definition limiter_new :: "int \<Rightarrow> int option \<Rightarrow> limiter" where
  "limiter_new mx mq =
     \<lparr>lm_max = max 1 mx, lm_maxQueued = map_option (max 0) mq, lm_active = 0, lm_waiters = [],
      lm_closed = False, lm_running = [], lm_admitted = [], lm_started = [], lm_rejected = []\<rparr>"

definition queue_full :: "limiter \<Rightarrow> bool" where
  "queue_full g = (case lm_maxQueued g of None \<Rightarrow> False | Some q \<Rightarrow> int (length (lm_waiters g)) \<ge> q)"

definition start_task :: "nat \<Rightarrow> limiter \<Rightarrow> limiter" where
  "start_task t g = g\<lparr>lm_running := lm_running g @ [t], lm_started := lm_started g @ [t]\<rparr>"

definition reject_task :: "nat \<Rightarrow> limiter \<Rightarrow> limiter" where
  "reject_task t g = g\<lparr>lm_rejected := lm_rejected g @ [t]\<rparr>"

text \<open>The part of \<open>run\<close> before the task, up to the await of a parked call.\<close>

definition limiter_run :: "nat \<Rightarrow> limiter \<Rightarrow> limiter" where
  "limiter_run t g =
     (if lm_closed g then reject_task t g
      else if lm_active g < lm_max g then
        start_task t (g\<lparr>lm_active := lm_active g + 1, lm_admitted := lm_admitted g @ [t]\<rparr>)
      else if queue_full g then reject_task t g
      else g\<lparr>lm_waiters := lm_waiters g @ [t], lm_admitted := lm_admitted g @ [t]\<rparr>)"

text \<open>The \<open>finally\<close> of a task that held a slot.\<close>

definition limiter_finish :: "nat \<Rightarrow> limiter \<Rightarrow> limiter" where
  "limiter_finish t g =
     (let g1 = g\<lparr>lm_running := remove1 t (lm_running g)\<rparr> in
      case lm_waiters g1 of
        next_task # rest \<Rightarrow> start_task next_task (g1\<lparr>lm_waiters := rest\<rparr>)
      | [] \<Rightarrow> g1\<lparr>lm_active := lm_active g1 - 1\<rparr>)"

definition limiter_close :: "limiter \<Rightarrow> limiter" where
  "limiter_close g =
     g\<lparr>lm_closed := True, lm_waiters := [], lm_rejected := lm_rejected g @ lm_waiters g\<rparr>"

datatype limiter_event = Run nat | Finish nat | Close

fun limiter_exec :: "limiter_event \<Rightarrow> limiter \<Rightarrow> limiter" where
  "limiter_exec (Run t) g = limiter_run t g"
| "limiter_exec (Finish t) g = (if t \<in> set (lm_running g) then limiter_finish t g else g)"
| "limiter_exec Close g = limiter_close g"

section \<open>Invariant\<close>

lemmas limiter_ops =
  limiter_run_def limiter_finish_def limiter_close_def start_task_def reject_task_def queue_full_def

definition limiter_inv :: "limiter \<Rightarrow> bool" where
  "limiter_inv g \<longleftrightarrow>
     lm_active g = int (length (lm_running g)) \<and> lm_active g \<le> lm_max g \<and> 1 \<le> lm_max g
     \<and> (lm_waiters g \<noteq> [] \<longrightarrow> lm_active g = lm_max g)
     \<and> (case lm_maxQueued g of None \<Rightarrow> True | Some q \<Rightarrow> 0 \<le> q \<and> int (length (lm_waiters g)) \<le> q)
     \<and> (lm_closed g \<longrightarrow> lm_waiters g = [])"

definition fifo_inv :: "limiter \<Rightarrow> bool" where
  "fifo_inv g \<longleftrightarrow>
     (if lm_closed g then \<exists>dropped. lm_admitted g = lm_started g @ dropped \<and> list_all (\<lambda>t. t \<in> set (lm_rejected g)) dropped
      else lm_admitted g = lm_started g @ lm_waiters g)"

lemma limiter_inv_new: "limiter_inv (limiter_new mx mq) \<and> fifo_inv (limiter_new mx mq)"
  by (cases mq) (auto simp: limiter_inv_def fifo_inv_def limiter_new_def)

lemma length_remove1_mem: "t \<in> set xs \<Longrightarrow> Suc (length (remove1 t xs)) = length xs"
  by (induction xs) auto

lemma finish_inv:
  assumes "limiter_inv g" and "t \<in> set (lm_running g)"
  shows "limiter_inv (limiter_finish t g)"
  using assms length_remove1_mem [OF assms(2)]
  by (cases "lm_waiters g") (auto simp: limiter_inv_def limiter_ops Let_def split: option.splits)

lemma run_inv_step: "limiter_inv g \<Longrightarrow> limiter_inv (limiter_run t g)"
  by (auto simp: limiter_inv_def limiter_ops split: option.splits)

lemma close_inv: "limiter_inv g \<Longrightarrow> limiter_inv (limiter_close g)"
  by (auto simp: limiter_inv_def limiter_ops split: option.splits)

lemma fifo_step: "limiter_inv g \<Longrightarrow> fifo_inv g \<Longrightarrow> fifo_inv (limiter_exec e g)"
proof (cases e)
  case (Run t)
  assume "limiter_inv g" "fifo_inv g"
  then show ?thesis using Run
    by (cases "lm_waiters g") (auto simp: limiter_inv_def fifo_inv_def limiter_ops list_all_iff split: option.splits)
next
  case (Finish t)
  assume "limiter_inv g" "fifo_inv g"
  then show ?thesis using Finish
    by (cases "lm_waiters g") (auto simp: limiter_inv_def fifo_inv_def limiter_ops Let_def)
next
  case Close
  assume "limiter_inv g" "fifo_inv g"
  then show ?thesis using Close
    by (cases "lm_closed g") (auto simp: limiter_inv_def fifo_inv_def limiter_ops list_all_iff)
qed

lemma inv_step: "limiter_inv g \<Longrightarrow> limiter_inv (limiter_exec e g)"
  by (cases e) (simp_all add: run_inv_step finish_inv close_inv)

interpretation gate: event_machine limiter_exec "\<lambda>g. limiter_inv g \<and> fifo_inv g"
  by unfold_locales (blast intro: fifo_step inv_step)

section \<open>Properties\<close>

lemma gate_reach: "limiter_inv (fold limiter_exec es (limiter_new mx mq)) \<and> fifo_inv (fold limiter_exec es (limiter_new mx mq))"
  by (rule gate.run_inv [OF limiter_inv_new])

lemma exec_config [simp]:
  "lm_max (limiter_exec e g) = lm_max g \<and> lm_maxQueued (limiter_exec e g) = lm_maxQueued g"
  by (cases e) (auto simp: limiter_ops Let_def split: list.splits)

lemma run_config:
  "lm_max (fold limiter_exec es g) = lm_max g \<and> lm_maxQueued (fold limiter_exec es g) = lm_maxQueued g"
  by (induction es arbitrary: g) simp_all

text \<open>
  The gate under every sequence of arrivals, completions and a shutdown: the counter is the
  number of tasks holding a slot and never exceeds the clamped maximum; a task is only parked while
  every slot is taken, so no slot idles behind a queue; the queue never exceeds its bound.
\<close>

theorem gate_never_over_admits:
  "let g = fold limiter_exec es (limiter_new mx mq) in
     lm_active g = int (length (lm_running g)) \<and> lm_active g \<le> max 1 mx
     \<and> (if lm_waiters g = [] then True else lm_active g = max 1 mx \<and> \<not> lm_closed g)
     \<and> (case mq of None \<Rightarrow> True | Some q \<Rightarrow> int (length (lm_waiters g)) \<le> max 0 q)"
proof -
  let ?g = "fold limiter_exec es (limiter_new mx mq)"
  have "lm_max ?g = max 1 mx" "lm_maxQueued ?g = map_option (max 0) mq"
    using run_config [of es "limiter_new mx mq"] by (simp_all add: limiter_new_def)
  with gate_reach [of es mx mq] show ?thesis
    by (cases mq) (auto simp: limiter_inv_def Let_def)
qed

text \<open>
  Admission is first come, first served across hand-offs: at every moment the tasks admitted so
  far are those started followed by those parked, in order of arrival. After a shutdown the admitted
  tasks that never started are exactly a suffix, and each of them was rejected.
\<close>

theorem gate_is_fifo:
  "let g = fold limiter_exec es (limiter_new mx mq) in
     if lm_closed g
     then \<exists>dropped. lm_admitted g = lm_started g @ dropped \<and> list_all (\<lambda>t. t \<in> set (lm_rejected g)) dropped
     else lm_admitted g = lm_started g @ lm_waiters g"
  using gate_reach [of es mx mq] by (simp add: fifo_inv_def Let_def)

fun all_held :: "nat list \<Rightarrow> limiter \<Rightarrow> bool" where
  "all_held [] g \<longleftrightarrow> True"
| "all_held (t # ts) g \<longleftrightarrow> t \<in> set (lm_running g) \<and> all_held ts (limiter_finish t g)"

text \<open>
  A parked task waits for as many completions as it has tasks in front of it, itself included:
  after \<open>n\<close> completions of tasks that held a slot, exactly the first \<open>n\<close> parked tasks have started.
\<close>

theorem parked_tasks_start:
  assumes "all_held ts g"
  shows "lm_started (fold limiter_finish ts g) = lm_started g @ take (length ts) (lm_waiters g)
    \<and> lm_waiters (fold limiter_finish ts g) = drop (length ts) (lm_waiters g)"
  using assms
proof (induction ts arbitrary: g)
  case (Cons t ts)
  then show ?case
    using Cons.IH [of "limiter_finish t g"]
    by (cases "lm_waiters g") (auto simp: limiter_finish_def start_task_def Let_def)
qed simp

theorem parked_tasks_start_witness:
  "let g = fold limiter_exec [Run 1, Run 2, Run 3, Run 4, Run 5] (limiter_new 2 None) in
     lm_started (fold limiter_finish [2, 3] g) = [1, 2] @ take (length [2, 3 :: nat]) [3, 4, 5]
     \<and> lm_waiters (fold limiter_finish [2, 3] g) = drop (length [2, 3 :: nat]) [3, 4, 5]"
proof -
  let ?g = "fold limiter_exec [Run 1, Run 2, Run 3, Run 4, Run 5] (limiter_new 2 None)"
  have "all_held [2, 3] ?g" "lm_started ?g = [1, 2]" "lm_waiters ?g = [3, 4, 5]" by code_simp+
  with parked_tasks_start [of "[2, 3]" ?g] show ?thesis unfolding Let_def by simp
qed

end
