(* ===== verification/Dispatch.thy ===== *)
theory Dispatch
  imports Delivery Limiter
begin

text \<open>
  The fan-out of one node (\<open>dispatch\<close>, \<open>dispatchWithLimit\<close>, \<open>runLimited\<close> and \<open>onModuleDestroy\<close> of
  src/src/modules/webhook/webhook-delivery.service.ts) as a machine over the concurrency gate, the
  outbox, the count of keys this node still owns and the delivery log. A task is one delivery; the
  events are its start, its end with what the world answered, and the shutdown. \<open>dn_done\<close> records the
  tasks whose delivery ran.
\<close>

section \<open>The node\<close>

record dispatch_task =
  dt_webhook :: webhook
  dt_ctx :: delivery_ctx

record dispatch_node =
  dn_limiter :: limiter
  dn_outbox :: outbox
  dn_locallyPending :: "(string, nat) jsmap"
  dn_tasks :: "dispatch_task list"
  dn_world :: delivery_world
  dn_done :: "nat list"

definition dispatch_new :: "int \<Rightarrow> int option \<Rightarrow> dispatch_node" where
  "dispatch_new concurrency maxQueued =
     \<lparr>dn_limiter = limiter_new concurrency maxQueued, dn_outbox = outbox_new, dn_locallyPending = [], dn_tasks = [],
      dn_world = \<lparr>dw_posts = [], dw_jobs = [], dw_failures = [], dw_metric = 0\<rparr>, dn_done = []\<rparr>"

definition pend :: "string \<Rightarrow> (string, nat) jsmap \<Rightarrow> (string, nat) jsmap" where
  "pend k m = jm_set m k ((case jm_get m k of Some n \<Rightarrow> n | None \<Rightarrow> 0) + 1)"

definition unpend :: "string \<Rightarrow> (string, nat) jsmap \<Rightarrow> (string, nat) jsmap" where
  "unpend k m =
     (let left = int (case jm_get m k of Some n \<Rightarrow> n | None \<Rightarrow> 1) - 1
      in if 0 < left then jm_set m k (nat left) else jm_del m k)"

definition isLocallyPending :: "string \<Rightarrow> dispatch_node \<Rightarrow> bool" where
  "isLocallyPending k s = jm_has (dn_locallyPending s) k"

definition task_key :: "dispatch_node \<Rightarrow> nat \<Rightarrow> string" where
  "task_key s t = cx_key (dt_ctx (dn_tasks s ! t))"

text \<open>What a call of \<open>dispatchWithLimit\<close> derives: the base key salted with the webhook.\<close>

definition dispatch_ctx :: "string \<Rightarrow> webhook \<Rightarrow> string \<Rightarrow> string \<Rightarrow> payload \<Rightarrow> string \<Rightarrow> delivery_ctx" where
  "dispatch_ctx deliveryId wh sessionId e baseData baseKey =
     \<lparr>cx_sessionId = sessionId, cx_event = e, cx_data = baseData, cx_key = baseKey @ ''_'' @ wh_id wh, cx_deliveryId = deliveryId\<rparr>"

definition open_of :: "webhook \<Rightarrow> delivery_ctx \<Rightarrow> open_request" where
  "open_of wh cx = \<lparr>op_webhookId = wh_id wh, op_sessionId = cx_sessionId cx, op_event = cx_event cx, op_key = cx_key cx,
     op_deliveryId = cx_deliveryId cx, op_payload = cx_data cx\<rparr>"

section \<open>Steps\<close>

text \<open>The catch of \<open>runLimited\<close> for a task the gate rejected, and the \<open>finally\<close> around it.\<close>

definition reject_dispatch :: "delivery_env \<Rightarrow> delivery_error \<Rightarrow> nat \<Rightarrow> dispatch_node \<Rightarrow> dispatch_node" where
  "reject_dispatch env e t s =
     s\<lparr>dn_world := recordUndelivered env (dt_webhook (dn_tasks s ! t)) (dt_ctx (dn_tasks s ! t)) e (dn_world s),
       dn_locallyPending := unpend (task_key s t) (dn_locallyPending s)\<rparr>"

definition dispatchWithLimit :: "delivery_env \<Rightarrow> bool \<Rightarrow> millis \<Rightarrow> webhook \<Rightarrow> delivery_ctx \<Rightarrow> dispatch_node \<Rightarrow> dispatch_node" where
  "dispatchWithLimit env ok now wh cx s =
     (let t = length (dn_tasks s);
          g = limiter_run t (dn_limiter s);
          s1 = s\<lparr>dn_outbox := outbox_open ok now (open_of wh cx) (dn_outbox s),
                 dn_locallyPending := pend (cx_key cx) (dn_locallyPending s),
                 dn_tasks := dn_tasks s @ [\<lparr>dt_webhook = wh, dt_ctx = cx\<rparr>],
                 dn_limiter := g\<rparr>
      in if lm_closed (dn_limiter s) then reject_dispatch env LimiterClosed t s1
         else if t \<in> set (lm_admitted g) then s1
         else reject_dispatch env LimiterFull t s1)"

text \<open>A task that held a slot: its delivery runs to its end, its row is retired whatever the outcome,
  the slot is handed on and the key released.\<close>

definition finish_dispatch :: "delivery_env \<Rightarrow> bool \<Rightarrow> millis \<Rightarrow> nat \<Rightarrow> dispatch_node \<Rightarrow> dispatch_node" where
  "finish_dispatch env ok now t s =
     (let wh = dt_webhook (dn_tasks s ! t); cx = dt_ctx (dn_tasks s ! t)
      in s\<lparr>dn_world := snd (deliverOne env wh cx (dn_world s)),
           dn_outbox := outbox_close ok now (wh_id wh) (cx_key cx) ObDispatched (dn_outbox s),
           dn_limiter := limiter_finish t (dn_limiter s),
           dn_locallyPending := unpend (cx_key cx) (dn_locallyPending s),
           dn_done := dn_done s @ [t]\<rparr>)"

text \<open>Shutdown in direct mode: the gate closes and every parked delivery is rejected and recorded.
  With the queue the gate stays open.\<close>

definition shutdown_dispatch :: "delivery_env \<Rightarrow> dispatch_node \<Rightarrow> dispatch_node" where
  "shutdown_dispatch env s =
     (if en_queue env \<noteq> None then s
      else fold (reject_dispatch env LimiterClosed) (lm_waiters (dn_limiter s))
             (s\<lparr>dn_limiter := limiter_close (dn_limiter s)\<rparr>))"

datatype dispatch_event =
    StartDelivery delivery_env bool millis webhook delivery_ctx
  | EndDelivery delivery_env bool millis nat
  | Shutdown delivery_env

fun dispatch_exec :: "dispatch_event \<Rightarrow> dispatch_node \<Rightarrow> dispatch_node" where
  "dispatch_exec (StartDelivery env ok now wh cx) s = dispatchWithLimit env ok now wh cx s"
| "dispatch_exec (EndDelivery env ok now t) s =
     (if t \<in> set (lm_running (dn_limiter s)) then finish_dispatch env ok now t s else s)"
| "dispatch_exec (Shutdown env) s = shutdown_dispatch env s"

text \<open>\<open>dispatch\<close>: one start for every matching webhook, on the payload shed once.\<close>

definition base_data :: "int \<Rightarrow> webhook list \<Rightarrow> payload \<Rightarrow> payload" where
  "base_data mediaCap matching d = (if 0 < length matching then shedInlineMedia d mediaCap else d)"

definition dispatch_fan_out :: "(string \<Rightarrow> payload \<Rightarrow> string) \<Rightarrow> int \<Rightarrow> (webhook \<Rightarrow> string) \<Rightarrow> webhook list \<Rightarrow> string \<Rightarrow> string \<Rightarrow> payload
    \<Rightarrow> lid_resolver \<Rightarrow> (webhook \<times> delivery_ctx) list" where
  "dispatch_fan_out key_of mediaCap ids whs sessionId e d resolve =
     (let matching = filterMatchingWebhooks whs e d resolve;
          baseKey = key_of e (set_field d ''sessionId'' (JStr sessionId));
          base = base_data mediaCap matching d
      in map (\<lambda>wh. (wh, dispatch_ctx (ids wh) wh sessionId e base baseKey)) matching)"

section \<open>The key count\<close>

text \<open>The tasks this node owns: those that hold a slot and those that are parked.\<close>

definition live_tasks :: "dispatch_node \<Rightarrow> nat list" where
  "live_tasks s = lm_running (dn_limiter s) @ lm_waiters (dn_limiter s)"

definition key_count :: "dispatch_node \<Rightarrow> string \<Rightarrow> nat" where
  "key_count s k = length (filter (\<lambda>t. task_key s t = k) (live_tasks s))"

definition count_of :: "(string, nat) jsmap \<Rightarrow> string \<Rightarrow> nat" where
  "count_of m k = (case jm_get m k of Some n \<Rightarrow> n | None \<Rightarrow> 0)"

definition positive_counts :: "(string, nat) jsmap \<Rightarrow> bool" where
  "positive_counts m \<longleftrightarrow> (\<forall>k. jm_get m k \<noteq> Some 0)"

lemma count_of_pend: "count_of (pend k m) k' = (if k' = k then count_of m k + 1 else count_of m k')"
  by (auto simp: count_of_def pend_def)

lemma positive_pend: "positive_counts m \<Longrightarrow> positive_counts (pend k m)"
  by (simp add: positive_counts_def pend_def)

lemma unpend_cases:
  "jm_get (unpend k m) = (if 1 < count_of m k then (jm_get m)(k \<mapsto> count_of m k - 1) else (jm_get m)(k := None))"
  by (auto simp: unpend_def Let_def count_of_def nat_diff_distrib split: option.splits)

lemma count_of_unpend: "count_of (unpend k m) k' = (if k' = k then count_of m k - 1 else count_of m k')"
  unfolding count_of_def [of "unpend k m"] unpend_cases by (auto simp: count_of_def split: option.splits)

lemma positive_unpend: "positive_counts m \<Longrightarrow> positive_counts (unpend k m)"
  unfolding positive_counts_def unpend_cases by auto

lemma has_iff_count: "positive_counts m \<Longrightarrow> jm_has m k \<longleftrightarrow> 0 < count_of m k"
  by (cases "jm_get m k") (auto simp: jm_has_iff count_of_def positive_counts_def intro: gr0I)

definition gate_live :: "limiter \<Rightarrow> nat list" where
  "gate_live g = lm_running g @ lm_waiters g"

definition hits :: "(nat \<Rightarrow> bool) \<Rightarrow> nat list \<Rightarrow> nat" where
  "hits P ts = length (filter P ts)"

lemma hits_append [simp]: "hits P (xs @ ys) = hits P xs + hits P ys"
  by (simp add: hits_def)

lemma hits_Nil [simp]: "hits P [] = 0"
  by (simp add: hits_def)

lemma hits_Cons [simp]: "hits P (t # ts) = (if P t then 1 else 0) + hits P ts"
  by (simp add: hits_def)

lemma hits_remove1: "t \<in> set xs \<Longrightarrow> hits P xs = (if P t then 1 else 0) + hits P (remove1 t xs)"
  by (induction xs) auto

lemma hits_cong: "(\<And>t. t \<in> set xs \<Longrightarrow> P t = Q t) \<Longrightarrow> hits P xs = hits Q xs"
  unfolding hits_def by (metis filter_cong)

lemma hits_pos: "0 < hits P xs \<longleftrightarrow> (\<exists>t \<in> set xs. P t)"
  by (auto simp: hits_def filter_empty_conv)

lemma key_count_hits: "key_count s k = hits (\<lambda>t. task_key s t = k) (gate_live (dn_limiter s))"
  by (simp add: key_count_def hits_def live_tasks_def gate_live_def)

lemma limiter_run_live:
  assumes "t \<notin> set (lm_admitted g)"
  shows "hits P (gate_live (limiter_run t g)) =
      hits P (gate_live g) + (if t \<in> set (lm_admitted (limiter_run t g)) \<and> P t then 1 else 0)
    \<and> set (gate_live (limiter_run t g)) \<subseteq> insert t (set (gate_live g))
    \<and> set (lm_admitted (limiter_run t g)) \<subseteq> insert t (set (lm_admitted g))
    \<and> (lm_closed g \<longrightarrow> t \<notin> set (lm_admitted (limiter_run t g)))"
  using assms by (auto simp: limiter_ops gate_live_def)

lemma limiter_finish_live:
  assumes "t \<in> set (lm_running g)"
  shows "hits P (gate_live g) = hits P (gate_live (limiter_finish t g)) + (if P t then 1 else 0)
    \<and> set (gate_live (limiter_finish t g)) \<subseteq> set (gate_live g)
    \<and> lm_admitted (limiter_finish t g) = lm_admitted g"
  using hits_remove1 [OF assms, of P] set_remove1_subset [of t "lm_running g"]
  by (cases "lm_waiters g") (auto simp: limiter_ops gate_live_def Let_def)

lemma limiter_close_live:
  "hits P (gate_live g) = hits P (gate_live (limiter_close g)) + hits P (lm_waiters g)
   \<and> set (gate_live (limiter_close g)) \<subseteq> set (gate_live g) \<and> lm_admitted (limiter_close g) = lm_admitted g"
  by (auto simp: limiter_ops gate_live_def)

section \<open>Invariant\<close>

text \<open>Task numbers are indices, and the count of every key is the number of its live tasks.\<close>

definition counts_inv :: "dispatch_node \<Rightarrow> bool" where
  "counts_inv s \<longleftrightarrow>
     set (gate_live (dn_limiter s)) \<subseteq> {..<length (dn_tasks s)} \<and> set (lm_admitted (dn_limiter s)) \<subseteq> {..<length (dn_tasks s)}
     \<and> positive_counts (dn_locallyPending s) \<and> (\<forall>k. count_of (dn_locallyPending s) k = key_count s k)"

lemma counts_inv_new: "counts_inv (dispatch_new c m)"
  by (simp add: counts_inv_def dispatch_new_def limiter_new_def gate_live_def positive_counts_def count_of_def
      key_count_hits jm_get_def)

lemma reject_dispatch_simps [simp]:
  "dn_limiter (reject_dispatch env e t s) = dn_limiter s" "dn_tasks (reject_dispatch env e t s) = dn_tasks s"
  "dn_outbox (reject_dispatch env e t s) = dn_outbox s" "dn_done (reject_dispatch env e t s) = dn_done s"
  "dn_locallyPending (reject_dispatch env e t s) = unpend (task_key s t) (dn_locallyPending s)"
  "task_key (reject_dispatch env e t s) = task_key s"
  by (simp_all add: reject_dispatch_def task_key_def fun_eq_iff)

lemma reject_all_simps [simp]:
  "dn_limiter (fold (reject_dispatch env e) ts s) = dn_limiter s"
  "dn_tasks (fold (reject_dispatch env e) ts s) = dn_tasks s"
  "dn_outbox (fold (reject_dispatch env e) ts s) = dn_outbox s"
  "dn_done (fold (reject_dispatch env e) ts s) = dn_done s"
  "task_key (fold (reject_dispatch env e) ts s) = task_key s"
  by (induction ts arbitrary: s) simp_all

lemma reject_all_counts:
  assumes "positive_counts (dn_locallyPending s)"
  shows "positive_counts (dn_locallyPending (fold (reject_dispatch env e) ts s))
    \<and> count_of (dn_locallyPending (fold (reject_dispatch env e) ts s)) k
      = count_of (dn_locallyPending s) k - hits (\<lambda>t. task_key s t = k) ts"
  using assms by (induction ts arbitrary: s) (auto simp: count_of_unpend positive_unpend)

lemma counts_inv_start:
  assumes "counts_inv s"
  shows "counts_inv (dispatchWithLimit env ok now wh cx s)"
proof -
  define t where "t = length (dn_tasks s)"
  define g where "g = limiter_run t (dn_limiter s)"
  define s1 where "s1 = s\<lparr>dn_outbox := outbox_open ok now (open_of wh cx) (dn_outbox s),
      dn_locallyPending := pend (cx_key cx) (dn_locallyPending s),
      dn_tasks := dn_tasks s @ [\<lparr>dt_webhook = wh, dt_ctx = cx\<rparr>], dn_limiter := g\<rparr>"
  have fresh: "t \<notin> set (lm_admitted (dn_limiter s))" and live: "set (gate_live (dn_limiter s)) \<subseteq> {..<t}"
    and adm: "set (lm_admitted (dn_limiter s)) \<subseteq> {..<t}"
    using assms by (auto simp: counts_inv_def t_def)
  note run = limiter_run_live [OF fresh, folded g_def]
  have keys: "task_key s1 t' = (if t' = t then cx_key cx else task_key s t')" if "t' \<le> t" for t'
    using that by (auto simp: task_key_def s1_def t_def nth_append)
  have old: "hits (\<lambda>t'. task_key s1 t' = k) (gate_live (dn_limiter s)) = key_count s k" for k
    unfolding key_count_hits by (rule hits_cong) (use live keys in auto)
  have pos: "positive_counts (dn_locallyPending s1)" using assms by (simp add: s1_def counts_inv_def positive_pend)
  have cnt: "count_of (dn_locallyPending s1) k = key_count s k + (if k = cx_key cx then 1 else 0)" for k
    using assms by (auto simp: s1_def counts_inv_def count_of_pend)
  have sets: "set (gate_live (dn_limiter s1)) \<subseteq> {..<length (dn_tasks s1)}"
      "set (lm_admitted (dn_limiter s1)) \<subseteq> {..<length (dn_tasks s1)}"
  proof -
    have "set (gate_live g) \<subseteq> insert t (set (gate_live (dn_limiter s)))" using run by blast
    also have "\<dots> \<subseteq> {..<Suc t}" using live by auto
    finally show "set (gate_live (dn_limiter s1)) \<subseteq> {..<length (dn_tasks s1)}" by (simp add: s1_def t_def)
    have "set (lm_admitted g) \<subseteq> insert t (set (lm_admitted (dn_limiter s)))" using run by blast
    also have "\<dots> \<subseteq> {..<Suc t}" using adm by auto
    finally show "set (lm_admitted (dn_limiter s1)) \<subseteq> {..<length (dn_tasks s1)}" by (simp add: s1_def t_def)
  qed
  have kc: "key_count s1 k = key_count s k + (if t \<in> set (lm_admitted g) \<and> k = cx_key cx then 1 else 0)" for k
    using run [of "\<lambda>t'. task_key s1 t' = k"] old [of k] keys [of t] unfolding key_count_hits [of s1 k]
    by (auto simp: s1_def)
  have rej: "counts_inv (reject_dispatch env e t s1)" if "t \<notin> set (lm_admitted g)" for e
  proof -
    have "key_count (reject_dispatch env e t s1) k = key_count s1 k" for k by (simp add: key_count_hits)
    then show ?thesis
      using that sets pos cnt kc keys [of t] by (simp add: counts_inv_def positive_unpend count_of_unpend)
  qed
  have "dispatchWithLimit env ok now wh cx s = (if lm_closed (dn_limiter s) then reject_dispatch env LimiterClosed t s1
      else if t \<in> set (lm_admitted g) then s1 else reject_dispatch env LimiterFull t s1)"
    by (simp add: dispatchWithLimit_def Let_def t_def g_def s1_def)
  then show ?thesis using rej run sets pos cnt kc by (auto simp: counts_inv_def)
qed

lemma counts_inv_finish:
  assumes "counts_inv s" and "t \<in> set (lm_running (dn_limiter s))"
  shows "counts_inv (finish_dispatch env ok now t s)"
proof -
  note fin = limiter_finish_live [OF assms(2)]
  have keys: "task_key (finish_dispatch env ok now t s) = task_key s"
    by (simp add: fun_eq_iff task_key_def finish_dispatch_def Let_def)
  have "key_count s k = key_count (finish_dispatch env ok now t s) k + (if task_key s t = k then 1 else 0)" for k
    using fin [of "\<lambda>t'. task_key s t' = k"] unfolding key_count_hits keys by (simp add: finish_dispatch_def Let_def)
  then show ?thesis
    using assms(1) fin by (auto simp: counts_inv_def finish_dispatch_def Let_def positive_unpend count_of_unpend task_key_def)
qed

lemma counts_inv_shutdown:
  assumes "counts_inv s"
  shows "counts_inv (shutdown_dispatch env s)"
proof (cases "en_queue env")
  case None
  let ?s0 = "s\<lparr>dn_limiter := limiter_close (dn_limiter s)\<rparr>"
  let ?s1 = "fold (reject_dispatch env LimiterClosed) (lm_waiters (dn_limiter s)) ?s0"
  have keys: "task_key ?s0 = task_key s" by (simp add: fun_eq_iff task_key_def)
  have pos: "positive_counts (dn_locallyPending ?s0)" using assms by (simp add: counts_inv_def)
  have "count_of (dn_locallyPending ?s1) k = key_count ?s1 k" for k
    using reject_all_counts [OF pos, of env LimiterClosed "lm_waiters (dn_limiter s)" k] assms
      limiter_close_live [of "\<lambda>t. task_key s t = k" "dn_limiter s"]
    by (simp add: counts_inv_def key_count_hits keys)
  moreover have "positive_counts (dn_locallyPending ?s1)" using reject_all_counts [OF pos] by blast
  ultimately show ?thesis
    using None assms limiter_close_live [of "\<lambda>_. True" "dn_limiter s"] by (auto simp: shutdown_dispatch_def counts_inv_def)
qed (use assms in \<open>simp add: shutdown_dispatch_def\<close>)

lemma counts_inv_exec: "counts_inv s \<Longrightarrow> counts_inv (dispatch_exec e s)"
  by (cases e) (simp_all add: counts_inv_start counts_inv_finish counts_inv_shutdown)

interpretation fanout: event_machine dispatch_exec counts_inv
  by unfold_locales (rule counts_inv_exec)


section \<open>The durable record\<close>

definition done_names :: "dispatch_node \<Rightarrow> string \<Rightarrow> string \<Rightarrow> bool" where
  "done_names s w k \<longleftrightarrow> list_ex (\<lambda>t. wh_id (dt_webhook (dn_tasks s ! t)) = w \<and> task_key s t = k) (dn_done s)"

fun opens_ok :: "dispatch_event \<Rightarrow> bool" where
  "opens_ok (StartDelivery env ok now wh cx) \<longleftrightarrow> ok"
| "opens_ok _ \<longleftrightarrow> True"

text \<open>A row is only settled by a delivery that ran; and every delivery that began has its row.\<close>

definition record_inv :: "dispatch_node \<Rightarrow> bool" where
  "record_inv s \<longleftrightarrow> counts_inv s \<and> outbox_inv (dn_outbox s) \<and> set (dn_done s) \<subseteq> {..<length (dn_tasks s)}
     \<and> (\<forall>w k. case row_of (dn_outbox s) w k of None \<Rightarrow> True | Some r \<Rightarrow> ob_state r = Some ObPending \<or> done_names s w k)"

definition recorded :: "dispatch_node \<Rightarrow> bool" where
  "recorded s \<longleftrightarrow> list_all (\<lambda>tk. row_of (dn_outbox s) (wh_id (dt_webhook tk)) (cx_key (dt_ctx tk)) \<noteq> None) (dn_tasks s)"

lemma done_names_append:
  assumes "set (dn_done s) \<subseteq> {..<length (dn_tasks s)}" and "dn_tasks s' = dn_tasks s @ x" and "dn_done s' = dn_done s"
  shows "done_names s' w k = done_names s w k"
  using assms by (auto simp: done_names_def list_ex_iff task_key_def nth_append)

lemma start_simps:
  "dn_outbox (dispatchWithLimit env ok now wh cx s) = outbox_open ok now (open_of wh cx) (dn_outbox s)"
  "dn_tasks (dispatchWithLimit env ok now wh cx s) = dn_tasks s @ [\<lparr>dt_webhook = wh, dt_ctx = cx\<rparr>]"
  "dn_done (dispatchWithLimit env ok now wh cx s) = dn_done s"
  by (simp_all add: dispatchWithLimit_def Let_def)

lemma shutdown_simps:
  "dn_outbox (shutdown_dispatch env s) = dn_outbox s" "dn_tasks (shutdown_dispatch env s) = dn_tasks s"
  "dn_done (shutdown_dispatch env s) = dn_done s"
  by (simp_all add: shutdown_dispatch_def)

lemma finish_simps:
  "dn_outbox (finish_dispatch env ok now t s) = outbox_close ok now (wh_id (dt_webhook (dn_tasks s ! t))) (task_key s t) ObDispatched (dn_outbox s)"
  "dn_tasks (finish_dispatch env ok now t s) = dn_tasks s" "dn_done (finish_dispatch env ok now t s) = dn_done s @ [t]"
  by (simp_all add: finish_dispatch_def Let_def task_key_def)

lemma open_of_simps [simp]:
  "op_webhookId (open_of wh cx) = wh_id wh" "op_key (open_of wh cx) = cx_key cx"
  by (simp_all add: open_of_def)

lemma record_inv_exec: "record_inv s \<Longrightarrow> record_inv (dispatch_exec e s)"
proof (cases e)
  case (StartDelivery env ok now wh cx)
  assume inv: "record_inv s"
  then have "done_names (dispatch_exec e s) w k = done_names s w k" for w k
    by (intro done_names_append) (auto simp: record_inv_def StartDelivery start_simps)
  then show ?thesis using inv counts_inv_exec [of s e]
    by (auto simp: record_inv_def StartDelivery start_simps row_of_open outbox_inv_open split: option.splits)
next
  case (EndDelivery env ok now t)
  assume inv: "record_inv s"
  show ?thesis
  proof (cases "t \<in> set (lm_running (dn_limiter s))")
    case True
    let ?s = "finish_dispatch env ok now t s"
    have lt: "t < length (dn_tasks s)" using inv True by (auto simp: record_inv_def counts_inv_def gate_live_def)
    have *: "done_names ?s w k = (done_names s w k \<or> (wh_id (dt_webhook (dn_tasks s ! t)) = w \<and> task_key s t = k))" for w k
      by (auto simp: done_names_def finish_simps task_key_def)
    have "case row_of (dn_outbox ?s) w k of None \<Rightarrow> True | Some r \<Rightarrow> ob_state r = Some ObPending \<or> done_names ?s w k" for w k
    proof -
      have "case row_of (dn_outbox s) w k of None \<Rightarrow> True | Some r \<Rightarrow> ob_state r = Some ObPending \<or> done_names s w k"
        using inv by (simp add: record_inv_def)
      then show ?thesis unfolding * finish_simps row_of_close by (auto split: option.splits)
    qed
    moreover have "counts_inv ?s" using inv True by (simp add: record_inv_def counts_inv_finish)
    moreover have "outbox_inv (dn_outbox ?s)" using inv by (simp add: record_inv_def finish_simps outbox_inv_close)
    moreover have "set (dn_done ?s) \<subseteq> {..<length (dn_tasks ?s)}" using inv lt by (simp add: record_inv_def finish_simps)
    ultimately have "record_inv ?s" by (simp add: record_inv_def)
    then show ?thesis using True by (simp add: EndDelivery)
  qed (use inv in \<open>simp add: EndDelivery\<close>)
next
  case (Shutdown env)
  assume inv: "record_inv s"
  have *: "done_names (shutdown_dispatch env s) = done_names s"
    using inv by (intro ext done_names_append [where x = "[]"]) (auto simp: record_inv_def shutdown_simps)
  have "counts_inv (shutdown_dispatch env s)" using inv by (simp add: record_inv_def counts_inv_shutdown)
  then show ?thesis using inv unfolding record_inv_def Shutdown dispatch_exec.simps shutdown_simps * by blast
qed

lemma recorded_exec: "opens_ok e \<Longrightarrow> recorded s \<Longrightarrow> recorded (dispatch_exec e s)"
  by (cases e) (auto simp: recorded_def start_simps finish_simps shutdown_simps row_of_open row_of_close list_all_iff)

lemma recorded_run: "list_all opens_ok es \<Longrightarrow> recorded s \<Longrightarrow> recorded (fold dispatch_exec es s)"
  by (induction es arbitrary: s) (simp_all add: recorded_exec)

interpretation journal: event_machine dispatch_exec record_inv
  by unfold_locales (rule record_inv_exec)

lemma record_inv_new: "record_inv (dispatch_new c m)"
  using counts_inv_new [of c m] outbox_inv_new
  by (simp add: record_inv_def dispatch_new_def row_of_def outbox_new_def)



end
