(* ===== verification/Reconciler.thy ===== *)
theory Reconciler
  imports Dispatch Env_Options
begin

text \<open>
  The sweep that replays stranded deliveries (src/src/modules/webhook/webhook-reconciler.service.ts).
  The batch is read once and then worked through row by row; between the statements of a row other
  actors, of this node or another, may run statements of their own on the table. All this, with the
  answers to the lookups and the deliveries, is the environment of a row.
\<close>

section \<open>Options\<close>

record reconciler_options =
  ro_intervalMs :: int
  ro_graceMs :: int
  ro_batchSize :: int
  ro_maxAttempts :: int

definition resolveWebhookReconcilerOptions :: "(string \<Rightarrow> string option) \<Rightarrow> reconciler_options" where
  "resolveWebhookReconcilerOptions env =
     \<lparr>ro_intervalMs = resolveNonNegativeIntEnv (env ''WEBHOOK_RECONCILE_INTERVAL_MS'') 60000,
      ro_graceMs = resolveNonNegativeIntEnv (env ''WEBHOOK_RECONCILE_GRACE_MS'') 60000,
      ro_batchSize = positive_int_or 50 (env ''WEBHOOK_RECONCILE_BATCH_SIZE''),
      ro_maxAttempts = positive_int_or 5 (env ''WEBHOOK_RECONCILE_MAX_ATTEMPTS'')\<rparr>"

section \<open>The sweep\<close>

record sweep_stats =
  st_scanned :: nat
  st_replayed :: nat
  st_failed :: nat
  st_skipped :: nat

datatype webhook_lookup = LookupFound webhook | LookupMissing | LookupThrows

record row_env =
  re_before :: "outbox_op list"    \<comment> \<open>since the batch was read or the previous row ended\<close>
  re_local :: bool                 \<comment> \<open>what \<open>isLocallyPending\<close> answers\<close>
  re_lookup :: webhook_lookup
  re_between :: "outbox_op list"   \<comment> \<open>until the attempt is counted\<close>
  re_during :: "outbox_op list"    \<comment> \<open>while the delivery runs\<close>
  re_now :: millis
  re_closeOk :: bool
  re_countOk :: bool
  re_fault :: bool                 \<comment> \<open>\<open>redeliver\<close> throws\<close>
  re_deliveryId :: string
  re_env :: delivery_env

text \<open>\<open>sw_replays\<close> records the rows handed to \<open>redeliver\<close>.\<close>

record sweep_state =
  sw_outbox :: outbox
  sw_world :: delivery_world
  sw_stats :: sweep_stats
  sw_aborted :: bool
  sw_replays :: "nat list"

definition bump_replayed :: "sweep_state \<Rightarrow> sweep_state" where
  "bump_replayed s = s\<lparr>sw_stats := (sw_stats s)\<lparr>st_replayed := st_replayed (sw_stats s) + 1\<rparr>\<rparr>"

definition bump_failed :: "sweep_state \<Rightarrow> sweep_state" where
  "bump_failed s = s\<lparr>sw_stats := (sw_stats s)\<lparr>st_failed := st_failed (sw_stats s) + 1\<rparr>\<rparr>"

definition bump_skipped :: "sweep_state \<Rightarrow> sweep_state" where
  "bump_skipped s = s\<lparr>sw_stats := (sw_stats s)\<lparr>st_skipped := st_skipped (sw_stats s) + 1\<rparr>\<rparr>"

definition others :: "outbox_op list \<Rightarrow> sweep_state \<Rightarrow> sweep_state" where
  "others ops s = s\<lparr>sw_outbox := fold outbox_exec ops (sw_outbox s)\<rparr>"

definition settle_row :: "row_env \<Rightarrow> outbox_row \<Rightarrow> outbox_state \<Rightarrow> sweep_state \<Rightarrow> sweep_state" where
  "settle_row e r st s = s\<lparr>sw_outbox := outbox_close (re_closeOk e) (re_now e) (ob_webhookId r) (ob_key r) st (sw_outbox s)\<rparr>"

text \<open>The replay of a counted row: the stored key, session, event and payload, and a new delivery id.\<close>

definition replay_row :: "row_env \<Rightarrow> webhook \<Rightarrow> outbox_row \<Rightarrow> sweep_state \<Rightarrow> sweep_state" where
  "replay_row e wh r s =
     (let s1 = s\<lparr>sw_replays := sw_replays s @ [ob_id r]\<rparr>
      in if re_fault e then bump_failed (others (re_during e) s1)
         else (case redeliver (re_env e) wh (re_deliveryId e) (ob_sessionId r) (ob_event r) (ob_key r) (the (ob_payload r)) (sw_world s1) of
                 (out, w) \<Rightarrow>
                   (let s2 = others (re_during e) (s1\<lparr>sw_world := w\<rparr>)
                    in if out = OutFailed then bump_failed s2
                       else bump_replayed (settle_row e r ObDispatched s2))))"

definition count_and_replay :: "row_env \<Rightarrow> webhook \<Rightarrow> outbox_row \<Rightarrow> sweep_state \<Rightarrow> sweep_state" where
  "count_and_replay e wh r s =
     (let s1 = others (re_between e) s in
      case countAttempt (re_countOk e) (re_now e) (ob_id r) (ob_attempts r) (sw_outbox s1) of
        (counted, db) \<Rightarrow>
          (let s2 = s1\<lparr>sw_outbox := db\<rparr>
           in if \<not> counted then bump_skipped s2 else replay_row e wh r s2))"

definition sweep_row :: "reconciler_options \<Rightarrow> row_env \<Rightarrow> outbox_row \<Rightarrow> sweep_state \<Rightarrow> sweep_state" where
  "sweep_row opts e r s0 =
     (let s = others (re_before e) s0 in
      if re_local e then bump_skipped s
      else if ob_attempts r \<ge> ro_maxAttempts opts then bump_failed (settle_row e r ObFailed s)
      else (case re_lookup e of
              LookupThrows \<Rightarrow> s\<lparr>sw_aborted := True\<rparr>
            | LookupMissing \<Rightarrow> bump_skipped (settle_row e r ObFailed s)
            | LookupFound wh \<Rightarrow>
                if \<not> wh_active wh then bump_skipped (settle_row e r ObFailed s)
                else count_and_replay e wh r s))"

fun sweep_rows :: "reconciler_options \<Rightarrow> outbox_row list \<Rightarrow> row_env list \<Rightarrow> sweep_state \<Rightarrow> sweep_state" where
  "sweep_rows opts (r # rs) (e # es) s =
     (let s' = sweep_row opts e r s in if sw_aborted s' then s' else sweep_rows opts rs es s')"
| "sweep_rows opts _ _ s = s"

definition no_stats :: sweep_stats where
  "no_stats = \<lparr>st_scanned = 0, st_replayed = 0, st_failed = 0, st_skipped = 0\<rparr>"

text \<open>One pass. \<open>sweeping\<close> is the overlap guard; \<open>findOk\<close> whether the batch can be read; there is an
  environment for every row of the batch.\<close>

definition sweep :: "reconciler_options \<Rightarrow> bool \<Rightarrow> millis \<Rightarrow> bool \<Rightarrow> row_env list \<Rightarrow> sweep_state \<Rightarrow> sweep_state" where
  "sweep opts sweeping now findOk es s =
     (if sweeping then s\<lparr>sw_stats := no_stats\<rparr>
      else if \<not> findOk then s\<lparr>sw_stats := no_stats, sw_aborted := True\<rparr>
      else (let rows = findStale (now - ro_graceMs opts) (nat (ro_batchSize opts)) (sw_outbox s)
            in sweep_rows opts rows es (s\<lparr>sw_stats := no_stats\<lparr>st_scanned := length rows\<rparr>, sw_aborted := False\<rparr>)))"

section \<open>One row\<close>

lemma others_simps [simp]:
  "sw_outbox (others ops s) = fold outbox_exec ops (sw_outbox s)" "sw_replays (others ops s) = sw_replays s"
  "sw_aborted (others ops s) = sw_aborted s"
  by (simp_all add: others_def)

lemma bump_simps [simp]:
  "sw_outbox (bump_replayed s) = sw_outbox s" "sw_outbox (bump_failed s) = sw_outbox s" "sw_outbox (bump_skipped s) = sw_outbox s"
  "sw_replays (bump_replayed s) = sw_replays s" "sw_replays (bump_failed s) = sw_replays s" "sw_replays (bump_skipped s) = sw_replays s"
  "sw_aborted (bump_replayed s) = sw_aborted s" "sw_aborted (bump_failed s) = sw_aborted s" "sw_aborted (bump_skipped s) = sw_aborted s"
  by (simp_all add: bump_replayed_def bump_failed_def bump_skipped_def)

lemma settle_row_simps [simp]:
  "sw_outbox (settle_row e r st s) = outbox_close (re_closeOk e) (re_now e) (ob_webhookId r) (ob_key r) st (sw_outbox s)"
  "sw_replays (settle_row e r st s) = sw_replays s" "sw_aborted (settle_row e r st s) = sw_aborted s"
  by (simp_all add: settle_row_def)

text \<open>The outcome a replay of a row has, where it does not throw.\<close>

definition replay_outcome :: "row_env \<Rightarrow> webhook \<Rightarrow> outbox_row \<Rightarrow> sweep_state \<Rightarrow> outcome" where
  "replay_outcome e wh r s =
     fst (redeliver (re_env e) wh (re_deliveryId e) (ob_sessionId r) (ob_event r) (ob_key r) (the (ob_payload r)) (sw_world s))"

lemma replay_row_simps:
  "sw_replays (replay_row e wh r s) = sw_replays s @ [ob_id r]"
  "sw_aborted (replay_row e wh r s) = sw_aborted s"
  "sw_outbox (replay_row e wh r s) =
     (let db = fold outbox_exec (re_during e) (sw_outbox s)
      in if re_fault e \<or> replay_outcome e wh r s = OutFailed then db
         else outbox_close (re_closeOk e) (re_now e) (ob_webhookId r) (ob_key r) ObDispatched db)"
  by (auto simp: replay_row_def replay_outcome_def Let_def split: prod.splits)

section \<open>The budget\<close>

text \<open>Between statements of the only sweeper others insert, settle and prune, but count no attempt.\<close>

fun uncounted :: "outbox_op \<Rightarrow> bool" where
  "uncounted (OxCount ok now i n) \<longleftrightarrow> False"
| "uncounted (OxClose ok now w k st) \<longleftrightarrow> st \<noteq> ObPending"
| "uncounted _ \<longleftrightarrow> True"

definition sole_sweeper :: "row_env \<Rightarrow> bool" where
  "sole_sweeper e \<longleftrightarrow> list_all uncounted (re_before e) \<and> list_all uncounted (re_between e) \<and> list_all uncounted (re_during e) \<and> re_countOk e"

definition attempts_from :: "outbox \<Rightarrow> outbox \<Rightarrow> bool" where
  "attempts_from db db' \<longleftrightarrow> ox_next db \<le> ox_next db' \<and>
     (\<forall>r' \<in> set (ox_rows db'). (\<exists>r \<in> set (ox_rows db). ob_id r = ob_id r' \<and> ob_attempts r = ob_attempts r')
        \<or> (ox_next db \<le> ob_id r' \<and> ob_attempts r' = 0))"

lemma attempts_from_refl: "attempts_from db db"
  by (auto simp: attempts_from_def)

lemma attempts_from_trans: "attempts_from a b \<Longrightarrow> attempts_from b c \<Longrightarrow> attempts_from a c"
  unfolding attempts_from_def by (metis order_trans)

lemma attempts_from_close: "attempts_from db (outbox_close ok now w k st db)"
  by (auto simp: attempts_from_def outbox_close_def)

lemma attempts_from_exec: "uncounted op \<Longrightarrow> attempts_from db (outbox_exec op db)"
  by (cases op) (auto simp: attempts_from_close, auto simp: attempts_from_def outbox_open_def pruneSettled_def)

lemma attempts_from_run: "list_all uncounted ops \<Longrightarrow> attempts_from db (fold outbox_exec ops db)"
  by (induction ops arbitrary: db) (auto intro: attempts_from_refl attempts_from_trans attempts_from_exec)

lemma uncounted_typed: "uncounted op \<Longrightarrow> op_typed op"
  by (cases op) simp_all

lemma uncounted_inv: "list_all uncounted ops \<Longrightarrow> outbox_inv db \<Longrightarrow> outbox_inv (fold outbox_exec ops db)"
  by (rule outbox_inv_run) (auto simp: list_all_iff uncounted_typed)

text \<open>No row was replayed more often than its counter says, nor more often than the budget; and the
  copies still to be worked through show the counters of the table.\<close>

definition budget_inv :: "int \<Rightarrow> outbox \<Rightarrow> nat list \<Rightarrow> outbox_row list \<Rightarrow> bool" where
  "budget_inv m db log rest \<longleftrightarrow> outbox_inv db \<and> (\<forall>i \<in> set log. i < ox_next db)
     \<and> (\<forall>i. int (count_list log i) \<le> m)
     \<and> (\<forall>r \<in> set (ox_rows db). int (count_list log (ob_id r)) \<le> ob_attempts r)
     \<and> (\<forall>r \<in> set rest. ob_id r < ox_next db \<and> (\<forall>r' \<in> set (ox_rows db). ob_id r' = ob_id r \<longrightarrow> ob_attempts r' = ob_attempts r))"

lemma budget_from:
  assumes inv: "budget_inv m db log rest" and fr: "attempts_from db db'" and ob: "outbox_inv db'"
  shows "budget_inv m db' log rest"
proof -
  have le: "ox_next db \<le> ox_next db'" using fr by (simp add: attempts_from_def)
  have fresh: "count_list log i = 0" if "ox_next db \<le> i" for i
    using inv that by (force simp: budget_inv_def count_list_0_iff)
  have "int (count_list log (ob_id r')) \<le> ob_attempts r'" if "r' \<in> set (ox_rows db')" for r'
  proof -
    from fr that consider r where "r \<in> set (ox_rows db)" "ob_id r = ob_id r'" "ob_attempts r = ob_attempts r'"
      | "ox_next db \<le> ob_id r'" "ob_attempts r' = 0" by (auto simp: attempts_from_def)
    then show ?thesis
    proof cases
      case 1
      then show ?thesis using inv by (auto simp: budget_inv_def dest: bspec [of _ _ r])
    next
      case 2
      then show ?thesis by (simp add: fresh)
    qed
  qed
  moreover have "ob_attempts r' = ob_attempts r"
    if r: "r \<in> set rest" "r' \<in> set (ox_rows db')" "ob_id r' = ob_id r" for r r'
  proof -
    have "ob_id r < ox_next db" using inv r(1) by (simp add: budget_inv_def)
    then obtain q where "q \<in> set (ox_rows db)" "ob_id q = ob_id r'" "ob_attempts q = ob_attempts r'"
      using fr r by (auto simp: attempts_from_def)
    then show ?thesis using inv r by (auto simp: budget_inv_def dest!: bspec [of _ _ r] bspec [of _ _ q])
  qed
  ultimately show ?thesis using inv ob le by (auto simp: budget_inv_def intro: less_le_trans)
qed

lemma count_none: "fst (countAttempt True now i n db) = False \<Longrightarrow> snd (countAttempt True now i n db) = db"
proof -
  assume "fst (countAttempt True now i n db) = False"
  then have "\<forall>r \<in> set (ox_rows db). \<not> pending_id i r" by (simp add: countAttempt_def filter_empty_conv)
  then have "map (\<lambda>r. if pending_id i r then r\<lparr>ob_attempts := n + 1, ob_lastAttemptAt := Some now\<rparr> else r) (ox_rows db) = ox_rows db"
    by (intro map_idI) simp
  then show ?thesis by (simp add: countAttempt_def update_rows_def)
qed

lemma budget_count:
  assumes inv: "budget_inv m db log (r # rest)" and dist: "distinct (map ob_id (r # rest))" and less: "ob_attempts r < m"
    and counted: "fst (countAttempt True now (ob_id r) (ob_attempts r) db)"
  shows "budget_inv m (snd (countAttempt True now (ob_id r) (ob_attempts r) db)) (log @ [ob_id r]) rest"
proof -
  let ?db = "snd (countAttempt True now (ob_id r) (ob_attempts r) db)"
  let ?f = "\<lambda>q. q\<lparr>ob_attempts := ob_attempts r + 1, ob_lastAttemptAt := Some now\<rparr>"
  have rows: "ox_rows ?db = map (\<lambda>q. if pending_id (ob_id r) q then ?f q else q) (ox_rows db)"
    by (simp add: countAttempt_def)
  obtain p where p: "p \<in> set (ox_rows db)" "pending_id (ob_id r) p"
    using counted by (auto simp: countAttempt_def filter_empty_conv)
  have uniq: "q = p" if "q \<in> set (ox_rows db)" "ob_id q = ob_id r" for q
  proof -
    have "inj_on ob_id (set (ox_rows db))" using inv by (simp add: budget_inv_def outbox_inv_def distinct_map)
    then show ?thesis using p that by (auto simp: pending_id_def intro: inj_onD)
  qed
  have pa: "int (count_list log (ob_id r)) \<le> ob_attempts r"
    using inv p by (auto simp: budget_inv_def pending_id_def dest: bspec [of _ _ p])
  have att: "int (count_list (log @ [ob_id r]) (ob_id q)) \<le> ob_attempts q" if q: "q \<in> set (ox_rows ?db)" for q
  proof -
    obtain q0 where q0: "q0 \<in> set (ox_rows db)" "q = (if pending_id (ob_id r) q0 then ?f q0 else q0)"
      using q unfolding rows set_map by blast
    show ?thesis
    proof (cases "ob_id q0 = ob_id r")
      case True
      then have "q0 = p" using q0 uniq by blast
      then show ?thesis using q0 p pa True by simp
    next
      case False
      then have "\<not> pending_id (ob_id r) q0" by (simp add: pending_id_def)
      then show ?thesis using q0 False inv by (auto simp: budget_inv_def)
    qed
  qed
  have rest: "ob_attempts q = ob_attempts x" if "x \<in> set rest" "q \<in> set (ox_rows ?db)" "ob_id q = ob_id x" for x q
  proof -
    have "ob_id x \<noteq> ob_id r" using dist that(1) by (metis distinct.simps(2) image_eqI list.set_map list.simps(9))
    then have "q \<in> set (ox_rows db)" using that(2,3) unfolding rows by (auto simp: pending_id_def split: if_splits)
    then show ?thesis using inv that by (auto simp: budget_inv_def)
  qed
  have "int (count_list (log @ [ob_id r]) i) \<le> m" for i
    using inv pa less by (cases "i = ob_id r") (auto simp: budget_inv_def)
  moreover have "outbox_inv ?db" using inv by (simp add: budget_inv_def outbox_inv_count)
  moreover have "\<forall>i \<in> set (log @ [ob_id r]). i < ox_next ?db" using inv by (simp add: budget_inv_def)
  moreover have "\<forall>q \<in> set (ox_rows ?db). int (count_list (log @ [ob_id r]) (ob_id q)) \<le> ob_attempts q" using att by blast
  moreover have "\<forall>x \<in> set rest. ob_id x < ox_next ?db \<and> (\<forall>q \<in> set (ox_rows ?db). ob_id q = ob_id x \<longrightarrow> ob_attempts q = ob_attempts x)"
  proof -
    have "\<forall>x \<in> set rest. ob_id x < ox_next ?db" using inv by (simp add: budget_inv_def)
    then show ?thesis using rest by blast
  qed
  ultimately show ?thesis unfolding budget_inv_def by blast
qed

lemma budget_ob: "budget_inv m db log rest \<Longrightarrow> outbox_inv db"
  by (simp add: budget_inv_def)

lemma budget_others:
  "list_all uncounted ops \<Longrightarrow> budget_inv m db log rest \<Longrightarrow> budget_inv m (fold outbox_exec ops db) log rest"
  by (rule budget_from [where db = db]) (simp_all add: attempts_from_run uncounted_inv budget_ob)

lemma budget_close:
  "st \<noteq> ObPending \<Longrightarrow> budget_inv m db log rest \<Longrightarrow> budget_inv m (outbox_close ok now w k st db) log rest"
  by (rule budget_from [where db = db]) (simp_all add: attempts_from_close outbox_inv_close budget_ob)

lemma budget_tail: "budget_inv m db log (r # rest) \<Longrightarrow> budget_inv m db log rest"
  by (simp add: budget_inv_def)

definition budget_state :: "reconciler_options \<Rightarrow> outbox_row list \<Rightarrow> sweep_state \<Rightarrow> bool" where
  "budget_state opts rest s \<longleftrightarrow> budget_inv (ro_maxAttempts opts) (sw_outbox s) (sw_replays s) rest"

lemma budget_replay_row:
  assumes "sole_sweeper e" and "budget_inv m (sw_outbox s) (sw_replays s @ [ob_id r]) rest"
  shows "budget_inv m (sw_outbox (replay_row e wh r s)) (sw_replays (replay_row e wh r s)) rest"
proof -
  have "budget_inv m (fold outbox_exec (re_during e) (sw_outbox s)) (sw_replays s @ [ob_id r]) rest"
    using assms by (simp add: sole_sweeper_def budget_others)
  then show ?thesis by (simp add: replay_row_simps Let_def budget_close)
qed

lemma budget_sweep_row:
  assumes e: "sole_sweeper e" and s: "budget_state opts (r # rest) s" and dist: "distinct (map ob_id (r # rest))"
  shows "budget_state opts rest (sweep_row opts e r s)"
proof -
  let ?m = "ro_maxAttempts opts" and ?s = "others (re_before e) s"
  have s1: "budget_inv ?m (sw_outbox ?s) (sw_replays ?s) (r # rest)"
    using e s by (simp add: budget_state_def sole_sweeper_def budget_others)
  note tail = budget_tail [OF s1]
  have counted: "budget_state opts rest (count_and_replay e wh r ?s)" if "ob_attempts r < ?m" for wh
  proof -
    let ?s2 = "others (re_between e) ?s"
    have s2: "budget_inv ?m (sw_outbox ?s2) (sw_replays ?s2) (r # rest)"
      using e s1 by (simp add: sole_sweeper_def budget_others)
    let ?c = "countAttempt True (re_now e) (ob_id r) (ob_attempts r) (sw_outbox ?s2)"
    have ok: "re_countOk e" using e by (simp add: sole_sweeper_def)
    show ?thesis
    proof (cases "fst ?c")
      case True
      have "budget_inv ?m (snd ?c) (sw_replays ?s2 @ [ob_id r]) rest"
        by (rule budget_count [OF s2 dist that True])
      then have "budget_inv ?m (sw_outbox (replay_row e wh r (?s2\<lparr>sw_outbox := snd ?c\<rparr>)))
          (sw_replays (replay_row e wh r (?s2\<lparr>sw_outbox := snd ?c\<rparr>))) rest"
        by (intro budget_replay_row [OF e]) simp
      then show ?thesis using True ok
        by (simp add: count_and_replay_def budget_state_def Let_def case_prod_unfold)
    next
      case False
      then show ?thesis using ok budget_tail [OF s2] count_none [of "re_now e" "ob_id r" "ob_attempts r" "sw_outbox ?s2"]
        by (simp add: count_and_replay_def budget_state_def Let_def case_prod_unfold)
    qed
  qed
  show ?thesis
    using tail counted
    by (auto simp: sweep_row_def Let_def budget_state_def budget_close split: webhook_lookup.splits)
qed

lemma budget_sweep_rows:
  "list_all sole_sweeper es \<Longrightarrow> distinct (map ob_id rs) \<Longrightarrow> budget_state opts rs s \<Longrightarrow> budget_state opts [] (sweep_rows opts rs es s)"
proof (induction opts rs es s rule: sweep_rows.induct)
  case (1 opts r rs e es s)
  then have step: "budget_state opts rs (sweep_row opts e r s)" by (simp add: budget_sweep_row)
  then have "budget_state opts [] (sweep_row opts e r s)" by (simp add: budget_state_def budget_inv_def)
  then show ?case using 1 step by (simp add: Let_def)
qed (simp_all add: budget_state_def budget_inv_def)

lemma budget_sweep:
  assumes "list_all sole_sweeper es" and "budget_state opts [] s"
  shows "budget_state opts [] (sweep opts sweeping now findOk es s)"
proof -
  let ?rows = "findStale (now - ro_graceMs opts) (nat (ro_batchSize opts)) (sw_outbox s)"
  let ?s = "s\<lparr>sw_stats := no_stats\<lparr>st_scanned := length ?rows\<rparr>, sw_aborted := False\<rparr>"
  have inv: "budget_inv (ro_maxAttempts opts) (sw_outbox s) (sw_replays s) []" and ob: "outbox_inv (sw_outbox s)"
    using assms(2) by (simp_all add: budget_state_def budget_inv_def)
  have "ob_id r < ox_next (sw_outbox s) \<and> (\<forall>r' \<in> set (ox_rows (sw_outbox s)). ob_id r' = ob_id r \<longrightarrow> ob_attempts r' = ob_attempts r)"
    if "r \<in> set ?rows" for r
  proof -
    have "r \<in> set (ox_rows (sw_outbox s))" using findStale_rows [OF that] by blast
    moreover have "inj_on ob_id (set (ox_rows (sw_outbox s)))" using ob by (simp add: outbox_inv_def distinct_map)
    ultimately show ?thesis using ob by (auto simp: outbox_inv_def list_all_iff row_ok_def dest: inj_onD)
  qed
  then have "budget_state opts ?rows ?s" using inv by (simp add: budget_state_def budget_inv_def)
  then have "budget_state opts [] (sweep_rows opts ?rows es ?s)"
    by (rule budget_sweep_rows [OF assms(1) findStale_distinct [OF ob]])
  then show ?thesis using assms(2) by (simp add: sweep_def Let_def budget_state_def)
qed

text \<open>A run of the reconciler: passes, each at its time with its environment, and anything the rest of
  the gateway does to the table in between.\<close>

datatype sweep_event = Pass bool millis bool "row_env list" | Elsewhere outbox_op

fun sweep_exec :: "reconciler_options \<Rightarrow> sweep_event \<Rightarrow> sweep_state \<Rightarrow> sweep_state" where
  "sweep_exec opts (Pass sweeping now findOk es) s = sweep opts sweeping now findOk es s"
| "sweep_exec opts (Elsewhere op) s = others [op] s"

fun sole_event :: "sweep_event \<Rightarrow> bool" where
  "sole_event (Pass sweeping now findOk es) \<longleftrightarrow> list_all sole_sweeper es"
| "sole_event (Elsewhere op) \<longleftrightarrow> uncounted op"

lemma budget_run:
  "list_all sole_event evs \<Longrightarrow> budget_state opts [] s \<Longrightarrow> budget_state opts [] (fold (sweep_exec opts) evs s)"
proof (induction evs arbitrary: s)
  case (Cons ev evs)
  have "budget_state opts [] (sweep_exec opts ev s)"
  proof (cases ev)
    case (Pass sweeping now findOk es)
    then show ?thesis using Cons.prems by (simp add: budget_sweep)
  next
    case (Elsewhere op)
    then have "list_all uncounted [op]" using Cons.prems by simp
    from budget_others [OF this] show ?thesis using Cons.prems(2) Elsewhere by (simp add: budget_state_def)
  qed
  then show ?case using Cons by simp
qed simp

definition sweep_start :: "outbox \<Rightarrow> delivery_world \<Rightarrow> sweep_state" where
  "sweep_start db w = \<lparr>sw_outbox = db, sw_world = w, sw_stats = no_stats, sw_aborted = False, sw_replays = []\<rparr>"



definition quiet_env :: row_env where
  "quiet_env = \<lparr>re_before = [], re_local = False, re_lookup = LookupFound sample_webhook, re_between = [], re_during = [],
     re_now = 100, re_closeOk = True, re_countOk = True, re_fault = True, re_deliveryId = ''dlv_9'', re_env = sample_env\<rparr>"


section \<open>Every replayed row settles\<close>

text \<open>A turn of one row: the sweep works on a fresh copy of it, nobody else touches the table, the
  statements succeed and the lookup answers.\<close>

definition quiet :: "row_env \<Rightarrow> bool" where
  "quiet e \<longleftrightarrow> re_before e = [] \<and> re_between e = [] \<and> re_during e = [] \<and> \<not> re_local e \<and> re_closeOk e \<and> re_countOk e
     \<and> re_lookup e \<noteq> LookupThrows"

definition row_turn :: "reconciler_options \<Rightarrow> string \<Rightarrow> string \<Rightarrow> row_env \<Rightarrow> sweep_state \<Rightarrow> sweep_state" where
  "row_turn opts w k e s =
     (case row_of (sw_outbox s) w k of
        Some r \<Rightarrow> if ob_state r = Some ObPending then sweep_row opts e r s else s
      | None \<Rightarrow> s)"

definition settled_row :: "sweep_state \<Rightarrow> string \<Rightarrow> string \<Rightarrow> bool" where
  "settled_row s w k \<longleftrightarrow> (case row_of (sw_outbox s) w k of Some r \<Rightarrow> ob_state r \<in> {Some ObDispatched, Some ObFailed} | None \<Rightarrow> False)"

lemma row_of_names: "row_of db w k = Some r \<Longrightarrow> ob_webhookId r = w \<and> ob_key r = k"
  by (auto simp: row_of_def find_Some_iff names_row_def)

lemma row_of_mem: "row_of db w k = Some r \<Longrightarrow> r \<in> set (ox_rows db)"
  by (auto simp: row_of_def find_Some_iff)

lemma turn_cases:
  assumes r: "row_of (sw_outbox s) w k = Some r" "ob_state r = Some ObPending" and q: "quiet e"
  shows "settled_row (row_turn opts w k e s) w k \<or>
    (ob_attempts r < ro_maxAttempts opts \<and>
     (\<exists>r'. row_of (sw_outbox (row_turn opts w k e s)) w k = Some r' \<and> ob_state r' = Some ObPending \<and> ob_attempts r' = ob_attempts r + 1))"
proof -
  have names: "ob_webhookId r = w" "ob_key r = k" using row_of_names [OF r(1)] by simp_all
  have pend: "pending_id (ob_id r) r" using r(2) by (simp add: pending_id_def)
  have settle: "settled_row (settle_row e r st s') w k" if "row_of (sw_outbox s') w k \<noteq> None" "st = ObDispatched \<or> st = ObFailed" for st s'
    using that q names by (auto simp: settled_row_def row_of_close quiet_def)
  have bump: "settled_row (bump_failed s') w k = settled_row s' w k" "settled_row (bump_skipped s') w k = settled_row s' w k"
     "settled_row (bump_replayed s') w k = settled_row s' w k" for s'
    by (simp_all add: settled_row_def)
  have same: "others [] s = s" by (simp add: others_def)
  let ?c = "countAttempt True (re_now e) (ob_id r) (ob_attempts r) (sw_outbox s)"
  have counted: "fst ?c" using row_of_mem [OF r(1)] pend by (auto simp: countAttempt_def filter_empty_conv)
  have row: "row_of (snd ?c) w k = Some (r\<lparr>ob_attempts := ob_attempts r + 1, ob_lastAttemptAt := Some (re_now e)\<rparr>)"
    using r(1) pend by (simp add: row_of_count)
  have replay: "settled_row (count_and_replay e wh r s) w k \<or>
      (\<exists>r'. row_of (sw_outbox (count_and_replay e wh r s)) w k = Some r' \<and> ob_state r' = Some ObPending \<and> ob_attempts r' = ob_attempts r + 1)" for wh
  proof -
    have "count_and_replay e wh r s = replay_row e wh r (s\<lparr>sw_outbox := snd ?c\<rparr>)"
      using q counted by (simp add: count_and_replay_def Let_def quiet_def same case_prod_unfold)
    then show ?thesis
      using row q names r(2) by (auto simp: settled_row_def replay_row_simps Let_def quiet_def row_of_close)
  qed
  have "row_turn opts w k e s = sweep_row opts e r s" using r by (simp add: row_turn_def)
  then show ?thesis
    using q settle [of s ObFailed] r replay
    by (cases "re_lookup e") (auto simp: sweep_row_def quiet_def same Let_def bump)
qed

lemma settled_turn: "settled_row s w k \<Longrightarrow> row_turn opts w k e s = s"
  by (auto simp: settled_row_def row_turn_def split: option.splits)

lemma settled_turns: "settled_row s w k \<Longrightarrow> settled_row (fold (row_turn opts w k) es s) w k"
  by (induction es arbitrary: s) (simp_all add: settled_turn)



end
