(* ===== verification/Ssrf_Address.thy ===== *)
theory Ssrf_Address
  imports Ip_Match Json
begin

text \<open>
  Which addresses an outbound request may not reach (the first half of
  src/src/common/security/ssrf-guard.ts). \<open>net.isIPv6\<close> is the textual grammar of RFC 4291 with an
  optional zone; \<open>BlockList.check\<close> compares the leading bits of the numbers the literals denote. A
  hextet and an address are whole numbers.
\<close>

section \<open>Hexadecimal groups\<close>

definition hex_value :: "char \<Rightarrow> int" where
  "hex_value c = (case hex_digit c of Some d \<Rightarrow> int d | None \<Rightarrow> 0)"

definition hextet_value :: "string \<Rightarrow> int" where
  "hextet_value s = foldl (\<lambda>a c. 16 * a + hex_value c) 0 s"

definition hex_group :: "string \<Rightarrow> bool" where
  "hex_group s \<longleftrightarrow> 1 \<le> length s \<and> length s \<le> 4 \<and> list_all (\<lambda>c. hex_digit c \<noteq> None) s"

text \<open>\<open>/^[0-9a-f]{1,4}$/\<close>, where the letters are in lower case.\<close>

definition lower_hex_group :: "string \<Rightarrow> bool" where
  "lower_hex_group s \<longleftrightarrow> hex_group s \<and> js_lower s = s"

text \<open>\<open>n.toString(16)\<close>.\<close>

function to_hex :: "int \<Rightarrow> string" where
  "to_hex n = (if n < 16 then [hex_char (nat n)] else to_hex (n div 16) @ [hex_char (nat (n mod 16))])"
  by pat_completeness auto

termination by (relation "measure nat") auto

declare to_hex.simps [simp del]

section \<open>Literals\<close>

definition quad_value :: "string list \<Rightarrow> int" where
  "quad_value ps = foldl (\<lambda>a p. 256 * a + int (digits_val p)) 0 ps"

definition v4_value :: "string \<Rightarrow> int" where
  "v4_value s = quad_value (split_on CHR ''.'' s)"

text \<open>\<open>s.split('::')\<close>.\<close>

fun split_dc :: "string \<Rightarrow> string list" where
  "split_dc (c # d # s) =
     (if c = CHR '':'' \<and> d = CHR '':'' then [] # split_dc s
      else (case split_dc (d # s) of w # ws \<Rightarrow> (c # w) # ws | [] \<Rightarrow> [[c]]))"
| "split_dc s = [s]"

text \<open>The groups on one side of \<open>::\<close>; the very last one may be a dotted quad.\<close>

fun v6_groups :: "bool \<Rightarrow> string list \<Rightarrow> int list option" where
  "v6_groups final [] = Some []"
| "v6_groups final [g] =
     (if hex_group g then Some [hextet_value g]
      else if final \<and> net_isIPv4 g then Some [v4_value g div 65536, v4_value g mod 65536] else None)"
| "v6_groups final (g # h # gs) =
     (if hex_group g then map_option ((#) (hextet_value g)) (v6_groups final (h # gs)) else None)"

definition v6_side :: "bool \<Rightarrow> string \<Rightarrow> int list option" where
  "v6_side final s = (if s = [] then Some [] else v6_groups final (split_on CHR '':'' s))"

definition v6_hextets :: "string \<Rightarrow> int list option" where
  "v6_hextets s =
     (case split_dc s of
        [a] \<Rightarrow> (case v6_side True a of Some h \<Rightarrow> if length h = 8 then Some h else None | None \<Rightarrow> None)
      | [a, b] \<Rightarrow>
          (case (v6_side False a, v6_side True b) of
             (Some h, Some t) \<Rightarrow> if length h + length t \<le> 7 then Some (h @ replicate (8 - length h - length t) 0 @ t) else None
           | _ \<Rightarrow> None)
      | _ \<Rightarrow> None)"

definition zone_char :: "char \<Rightarrow> bool" where
  "zone_char c \<longleftrightarrow> (let n = of_char c :: nat in is_digit c \<or> (65 \<le> n \<and> n \<le> 90) \<or> (97 \<le> n \<and> n \<le> 122) \<or> n \<in> {45, 46, 58})"

text \<open>The number of a literal the runtime accepts as IPv6: the zone does not enter it.\<close>

definition net_ipv6 :: "string \<Rightarrow> int list option" where
  "net_ipv6 s =
     (let core = takeWhile (\<lambda>c. c \<noteq> CHR ''%'') s; zone = drop (length core + 1) s
      in if CHR ''%'' \<in> set s \<and> (zone = [] \<or> \<not> list_all zone_char zone) then None else v6_hextets core)"

definition net_isIPv6 :: "string \<Rightarrow> bool" where
  "net_isIPv6 s \<longleftrightarrow> net_ipv6 s \<noteq> None"

definition v6_value :: "int list \<Rightarrow> int" where
  "v6_value h = foldl (\<lambda>a x. 65536 * a + x) 0 h"

section \<open>Block lists\<close>

definition v4 :: "int \<Rightarrow> int \<Rightarrow> int \<Rightarrow> int \<Rightarrow> int" where
  "v4 a b c d = 256 * (256 * (256 * a + b) + c) + d"

definition BLOCKED_V4_RANGES :: "(int \<times> nat) list" where
  "BLOCKED_V4_RANGES =
     [(v4 0 0 0 0, 8), (v4 10 0 0 0, 8), (v4 100 64 0 0, 10), (v4 127 0 0 0, 8), (v4 169 254 0 0, 16), (v4 172 16 0 0, 12),
      (v4 192 0 0 0, 24), (v4 192 168 0 0, 16), (v4 198 18 0 0, 15), (v4 224 0 0 0, 4), (v4 240 0 0 0, 4)]"

definition BLOCKED_V6_RANGES :: "(int \<times> nat) list" where
  "BLOCKED_V6_RANGES =
     [(0, 128), (1, 128), (0, 3), (0xfc00 * 2 ^ 112, 7), (0xfe80 * 2 ^ 112, 10), (0xfec0 * 2 ^ 112, 10)]"

definition in_ranges :: "nat \<Rightarrow> (int \<times> nat) list \<Rightarrow> int \<Rightarrow> bool" where
  "in_ranges w rs n \<longleftrightarrow> list_ex (\<lambda>(net, p). n div 2 ^ (w - p) = net div 2 ^ (w - p)) rs"

definition GLOBAL_UNICAST_V6 :: "(int \<times> nat) list" where
  "GLOBAL_UNICAST_V6 = [(0x2000 * 2 ^ 112, 3)]"

section \<open>\<open>isBlockedAddress\<close>\<close>

definition hextetsToV4 :: "int \<Rightarrow> int \<Rightarrow> string" where
  "hextetsToV4 hi lo =
     show_int (hi div 256 mod 256) @ ''.'' @ show_int (hi mod 256) @ ''.'' @ show_int (lo div 256 mod 256) @ ''.'' @ show_int (lo mod 256)"

text \<open>The trailing dotted quad the regular expression finds: the text before it and its octets. Its
  first octet is at most the last three of the digits before the first dot.\<close>

definition dotted_tail :: "string \<Rightarrow> (string \<times> int list) option" where
  "dotted_tail s =
     (let ps = split_on CHR ''.'' s; n = length ps in
      if n < 4 then None
      else let a = rev (take 3 (takeWhile is_digit (rev (ps ! (n - 4))))); rest = drop (n - 3) ps in
        if a = [] \<or> \<not> list_all short_digits rest then None
        else Some (take (length s - length a - 3 - sum_list (map length rest)) s, map (\<lambda>p. int (digits_val p)) (a # rest)))"

definition fold_dotted :: "string \<Rightarrow> string option" where
  "fold_dotted s =
     (case dotted_tail s of
        None \<Rightarrow> Some s
      | Some (pre, octets) \<Rightarrow>
          if list_ex (\<lambda>x. 255 < x) octets then None
          else (case octets of
                  [a, b, c, d] \<Rightarrow> Some (pre @ to_hex (256 * a + b) @ '':'' @ to_hex (256 * c + d))
                | _ \<Rightarrow> None))"

definition side_parts :: "string \<Rightarrow> string list" where
  "side_parts s = (if s = [] then [] else split_on CHR '':'' s)"

definition expand_hex :: "string \<Rightarrow> int list option" where
  "expand_hex s =
     (let halves = split_dc s in
      if 2 < length halves then None
      else let head = side_parts (halves ! 0);
               tail = (if length halves = 2 then side_parts (halves ! 1) else []);
               gap = 8 - int (length head) - int (length tail)
        in if (if length halves = 1 then length head \<noteq> 8 else gap < 1) then None
           else let parts = head @ replicate (nat gap) ''0'' @ tail
             in if length parts \<noteq> 8 then None
                else if list_all lower_hex_group parts then Some (map hextet_value parts) else None)"

definition expandIPv6 :: "string \<Rightarrow> int list option" where
  "expandIPv6 lower = (case fold_dotted lower of None \<Rightarrow> None | Some s \<Rightarrow> expand_hex s)"

text \<open>The calls of the function on itself are all on dotted text, which is no IPv6 literal.\<close>

definition blocked_dotted :: "string \<Rightarrow> bool" where
  "blocked_dotted ip = (if net_isIPv4 ip then in_ranges 32 BLOCKED_V4_RANGES (v4_value ip) else True)"

text \<open>The prefix test for \<open>::ffff:\<close>: the answer, when one of its two forms applies.\<close>

definition mapped_prefix :: "string \<Rightarrow> bool option" where
  "mapped_prefix lower =
     (if starts_with ''::ffff:'' lower then
        (let tail = drop 7 lower; hs = split_on CHR '':'' tail
         in if dotted_quad tail then Some (blocked_dotted tail)
            else if length hs = 2 \<and> list_all lower_hex_group hs
            then Some (blocked_dotted (hextetsToV4 (hextet_value (hs ! 0)) (hextet_value (hs ! 1))))
            else None)
      else None)"

text \<open>The ladder over the expanded literal.\<close>

definition embedded_v4 :: "int list \<Rightarrow> bool option" where
  "embedded_v4 h =
     (if h ! 0 = 0x2002 then Some (blocked_dotted (hextetsToV4 (h ! 1) (h ! 2)))
      else if h ! 0 = 0x64 \<and> h ! 1 = 0xff9b then Some (blocked_dotted (hextetsToV4 (h ! 6) (h ! 7)))
      else if list_all (\<lambda>x. x = 0) (take 6 h) \<and> (h ! 6 \<noteq> 0 \<or> h ! 7 \<noteq> 0) then Some (blocked_dotted (hextetsToV4 (h ! 6) (h ! 7)))
      else if h ! 0 = 0 \<and> h ! 1 = 0 \<and> h ! 2 = 0 \<and> h ! 3 = 0 \<and> h ! 4 = 0xffff \<and> h ! 5 = 0
      then Some (blocked_dotted (hextetsToV4 (h ! 6) (h ! 7)))
      else if h ! 0 = 0 \<and> h ! 1 = 0 \<and> h ! 2 = 0 \<and> h ! 3 = 0 \<and> h ! 4 = 0 \<and> h ! 5 = 0xffff
      then Some (blocked_dotted (hextetsToV4 (h ! 6) (h ! 7)))
      else None)"

definition isBlockedAddress :: "string \<Rightarrow> bool" where
  "isBlockedAddress ip =
     (if net_isIPv4 ip then in_ranges 32 BLOCKED_V4_RANGES (v4_value ip)
      else (case net_ipv6 ip of
              None \<Rightarrow> True
            | Some num \<Rightarrow>
                let lower = js_lower ip;
                    reserved = in_ranges 128 BLOCKED_V6_RANGES (v6_value num) \<or> \<not> in_ranges 128 GLOBAL_UNICAST_V6 (v6_value num)
                in (case mapped_prefix lower of
                      Some b \<Rightarrow> b
                    | None \<Rightarrow>
                        (case expandIPv6 lower of
                           None \<Rightarrow> reserved
                         | Some h \<Rightarrow> (case embedded_v4 h of Some b \<Rightarrow> b | None \<Rightarrow> reserved)))))"

section \<open>Numbers and their text\<close>

lemma of_char_small: "n < 256 \<Longrightarrow> (of_char (char_of n :: char) :: nat) = n"
  by (simp add: of_char_of)

lemma hex_digit_hex_char: "d < 16 \<Longrightarrow> hex_digit (hex_char d) = Some d"
  by (simp add: hex_char_def hex_digit_def Let_def of_char_small)

lemma hex_char_plain: "d < 16 \<Longrightarrow> lower_char (hex_char d) = hex_char d \<and> hex_char d \<noteq> CHR '':'' \<and> hex_char d \<noteq> CHR ''.''"
  unfolding char_eq_of_char of_char_lower_char by (auto simp: hex_char_def of_char_small upper_code_def)

lemma hextet_value_snoc: "hextet_value (s @ [c]) = 16 * hextet_value s + hex_value c"
  by (simp add: hextet_value_def)

text \<open>Printing a number in base 16 and reading it back.\<close>

lemma to_hex_roundtrip: "0 \<le> n \<Longrightarrow> hextet_value (to_hex n) = n \<and> to_hex n \<noteq> []
    \<and> list_all (\<lambda>c. hex_digit c \<noteq> None \<and> lower_char c = c \<and> c \<noteq> CHR '':'' \<and> c \<noteq> CHR ''.'') (to_hex n)"
proof (induction n rule: to_hex.induct)
  case (1 n)
  have digit: "hex_value (hex_char (nat m)) = m \<and> hex_digit (hex_char (nat m)) \<noteq> None \<and> lower_char (hex_char (nat m)) = hex_char (nat m)
      \<and> hex_char (nat m) \<noteq> CHR '':'' \<and> hex_char (nat m) \<noteq> CHR ''.''"
    if "0 \<le> m" "m < 16" for m
    using that hex_digit_hex_char [of "nat m"] hex_char_plain [of "nat m"] by (auto simp: hex_value_def)
  show ?case
  proof (cases "n < 16")
    case True
    then show ?thesis using 1 digit [of n] by (simp add: to_hex.simps [of n] hextet_value_def)
  next
    case False
    then show ?thesis using 1 digit [of "n mod 16"] by (simp add: to_hex.simps [of n] hextet_value_snoc)
  qed
qed

lemma to_hex_length: "n < 16 ^ k \<Longrightarrow> 1 \<le> k \<Longrightarrow> length (to_hex n) \<le> k"
proof (induction n arbitrary: k rule: to_hex.induct)
  case (1 n)
  show ?case
  proof (cases "n < 16")
    case False
    then obtain j where j: "k = Suc j" "1 \<le> j" using "1.prems" by (cases k; cases "k - 1") auto
    then have "n div 16 < 16 ^ j" using "1.prems" mult_le_iff_le_div [of 16 "16 ^ j" n] by (simp add: mult.commute not_le [symmetric])
    then show ?thesis using False j "1.IH" [of j] by (simp add: to_hex.simps [of n])
  qed (use "1.prems" in \<open>simp add: to_hex.simps [of n]\<close>)
qed

lemma to_hex_group: "0 \<le> n \<Longrightarrow> n < 65536 \<Longrightarrow> hex_group (to_hex n)"
  using to_hex_roundtrip [of n] to_hex_length [of n 4] by (cases "to_hex n") (auto simp: hex_group_def list_all_iff)

lemma hex_value_bound: "0 \<le> hex_value c \<and> hex_value c < 16"
  by (auto simp: hex_value_def hex_digit_def Let_def)

lemma hextet_value_bound: "0 \<le> hextet_value s \<and> hextet_value s < 16 ^ length s"
proof (induction s rule: rev_induct)
  case (snoc c s)
  then show ?case using hex_value_bound [of c] by (auto simp: hextet_value_snoc)
qed (simp add: hextet_value_def)

lemma hex_group_bound: "hex_group s \<Longrightarrow> 0 \<le> hextet_value s \<and> hextet_value s < 65536"
proof -
  assume "hex_group s"
  then have "(16::int) ^ length s \<le> 16 ^ 4" by (intro power_increasing) (auto simp: hex_group_def)
  then show ?thesis using hextet_value_bound [of s] by auto
qed

text \<open>The same in base 10 for an octet.\<close>

lemma show_nat_roundtrip:
  "list_all is_digit (show_nat n) \<and> digits_val (show_nat n) = n \<and> show_nat n \<noteq> [] \<and> (0 < n \<longrightarrow> hd (show_nat n) \<noteq> CHR ''0'')"
proof (induction n rule: show_nat.induct)
  case (1 n)
  have digit: "is_digit (char_of (48 + m)) \<and> digit_val (char_of (48 + m)) = m \<and> (0 < m \<longrightarrow> char_of (48 + m) \<noteq> CHR ''0'')" if "m < 10" for m :: nat
    using that unfolding char_eq_of_char by (simp add: is_digit_def digit_val_def Let_def of_char_small)
  show ?case
  proof (cases "n < 10")
    case True
    then show ?thesis using digit [of n] by (simp add: show_nat.simps [of n] digits_val_def)
  next
    case False
    then show ?thesis using "1" digit [of "n mod 10"] by (simp add: show_nat.simps [of n] digits_val_snoc)
  qed
qed

lemma show_nat_length: "n < 10 ^ k \<Longrightarrow> 1 \<le> k \<Longrightarrow> length (show_nat n) \<le> k"
proof (induction n arbitrary: k rule: show_nat.induct)
  case (1 n)
  show ?case
  proof (cases "n < 10")
    case False
    then obtain j where j: "k = Suc j" "1 \<le> j" using "1.prems" by (cases k; cases "k - 1") auto
    then have "n div 10 < 10 ^ j" using "1.prems" by (simp add: less_mult_imp_div_less mult.commute)
    then show ?thesis using False j "1.IH" [of j] by (simp add: show_nat.simps [of n])
  qed (use "1.prems" in \<open>simp add: show_nat.simps [of n]\<close>)
qed

lemma octet_roundtrip:
  assumes "0 \<le> n" and "n < 256"
  shows "strict_octet (show_int n) \<and> int (digits_val (show_int n)) = n"
proof -
  have len: "length (show_nat (nat n)) \<le> 3" using assms by (intro show_nat_length) auto
  have "length (show_nat (nat n)) = 1 \<or> hd (show_nat (nat n)) \<noteq> CHR ''0''"
  proof (cases "n = 0")
    case True
    then show ?thesis by (simp add: show_nat.simps [of 0])
  qed (use assms show_nat_roundtrip [of "nat n"] in auto)
  moreover have "1 \<le> length (show_nat (nat n))"
    using show_nat_roundtrip [of "nat n"] by (cases "show_nat (nat n)") auto
  ultimately show ?thesis
    using assms len show_nat_roundtrip [of "nat n"] by (simp add: show_int_def strict_octet_def short_digits_def)
qed

lemma strict_octet_chars: "strict_octet p \<Longrightarrow> CHR ''.'' \<notin> set p \<and> CHR '':'' \<notin> set p"
  by (auto simp: strict_octet_def short_digits_def list_all_iff is_digit_def)

lemma hextetsToV4_value:
  assumes "0 \<le> hi" "hi < 65536" "0 \<le> lo" "lo < 65536"
  shows "net_isIPv4 (hextetsToV4 hi lo) \<and> v4_value (hextetsToV4 hi lo) = 65536 * hi + lo"
proof -
  define a b c d where o: "a = show_int (hi div 256 mod 256)" "b = show_int (hi mod 256)" "c = show_int (lo div 256 mod 256)" "d = show_int (lo mod 256)"
  have v: "strict_octet a" "strict_octet b" "strict_octet c" "strict_octet d"
    "int (digits_val a) = hi div 256 mod 256" "int (digits_val b) = hi mod 256"
    "int (digits_val c) = lo div 256 mod 256" "int (digits_val d) = lo mod 256"
    unfolding o using octet_roundtrip by auto
  have "hextetsToV4 hi lo = a @ CHR ''.'' # (b @ CHR ''.'' # (c @ CHR ''.'' # d))"
    by (simp add: hextetsToV4_def o)
  then have "split_on CHR ''.'' (hextetsToV4 hi lo) = [a, b, c, d]"
    using v(1-4) strict_octet_chars by (simp add: split_on_append split_on_absent)
  then show ?thesis using v assms by (simp add: net_isIPv4_def v4_value_def quad_value_def)
qed


section \<open>Splitting\<close>

lemma split_on_last:
  "split_on c z = gs @ [q] \<Longrightarrow> \<exists>p. z = p @ q \<and> (\<forall>w. split_on c (p @ w) = gs @ split_on c w) \<and> c \<notin> set q
     \<and> (gs = [] \<longrightarrow> p = []) \<and> (gs \<noteq> [] \<longrightarrow> p \<noteq> [] \<and> last p = c)"
proof (induction gs arbitrary: z)
  case Nil
  have "c \<notin> set z"
  proof
    assume "c \<in> set z"
    then obtain u v where "z = u @ c # v" by (meson split_list)
    then have "split_on c z = split_on c u @ split_on c v" by (simp add: split_on_join)
    then show False using Nil split_on_not_Nil [of c u] split_on_not_Nil [of c v]
      by (cases "split_on c u"; cases "split_on c v") auto
  qed
  then show ?case using Nil by (simp add: split_on_absent)
next
  case (Cons g gs)
  have "c \<in> set z" using Cons.prems split_on_absent [of c z] by auto
  then obtain u v where z: "z = u @ c # v" and u: "c \<notin> set u" by (meson split_list_first)
  then have "u # split_on c v = g # gs @ [q]" using Cons.prems by (simp add: split_on_append)
  then have "u = g" and v: "split_on c v = gs @ [q]" by auto
  from Cons.IH [OF v] obtain p where p: "v = p @ q" "\<forall>w. split_on c (p @ w) = gs @ split_on c w" "c \<notin> set q"
      "gs = [] \<longrightarrow> p = []" "gs \<noteq> [] \<longrightarrow> p \<noteq> [] \<and> last p = c" by blast
  have "z = (u @ c # p) @ q" using z p by simp
  moreover have "split_on c ((u @ c # p) @ w) = (g # gs) @ split_on c w" for w
    using p(2) u \<open>u = g\<close> by (simp add: split_on_append)
  moreover have "last (u @ c # p) = c" using p(4,5) by (cases "gs = []") auto
  ultimately show ?case using p(3) by (intro exI [of _ "u @ c # p"]) auto
qed

fun join_on :: "'a \<Rightarrow> 'a list list \<Rightarrow> 'a list" where
  "join_on c [] = []"
| "join_on c [w] = w"
| "join_on c (w # v # ws) = w @ c # join_on c (v # ws)"

lemma join_split: "join_on c (split_on c s) = s"
proof (induction s)
  case (Cons x s)
  obtain w ws where ws: "split_on c s = w # ws" using split_on_not_Nil [of c s] by (cases "split_on c s") auto
  show ?case using Cons ws by (cases ws) auto
qed simp

lemma split_on_inj: "split_on c s = split_on c t \<Longrightarrow> s = t"
  by (metis join_split)

lemma split_dc_not_Nil [simp]: "split_dc s \<noteq> []"
  by (induction s rule: split_dc.induct) (auto split: list.splits)

lemma split_dc_append:
  "split_dc x = [x] \<Longrightarrow> x = [] \<or> hd x \<noteq> CHR '':'' \<Longrightarrow> split_dc (u @ x) = butlast (split_dc u) @ [last (split_dc u) @ x]"
proof (induction u rule: split_dc.induct [case_names pair nil single])
  case (pair c d s)
  show ?case
  proof (cases "c = CHR '':'' \<and> d = CHR '':''")
    case True
    then show ?thesis using pair by simp
  next
    case False
    have ih: "split_dc ((d # s) @ x) = butlast (split_dc (d # s)) @ [last (split_dc (d # s)) @ x]" using pair False by blast
    obtain w ws where ws: "split_dc (d # s) = w # ws" using split_dc_not_Nil [of "d # s"] by (cases "split_dc (d # s)") auto
    have "split_dc (c # d # s) = (c # w) # ws" using False ws by simp
    moreover have "split_dc ((c # d # s) @ x) = (case split_dc ((d # s) @ x) of w # ws \<Rightarrow> (c # w) # ws | [] \<Rightarrow> [[c]])"
      unfolding append_Cons split_dc.simps(1) by (rule if_not_P) (rule False)
    ultimately show ?thesis unfolding ih ws by (cases ws) auto
  qed
next
  case nil
  then show ?case by simp
next
  case (single c)
  then show ?case by (cases x) auto
qed

lemma split_dc_plain: "CHR '':'' \<notin> set x \<Longrightarrow> split_dc x = [x]"
  by (induction x rule: split_dc.induct) auto

lemma split_dc_pair:
  "CHR '':'' \<notin> set x \<Longrightarrow> CHR '':'' \<notin> set y \<Longrightarrow> x \<noteq> [] \<Longrightarrow> y \<noteq> [] \<Longrightarrow> split_dc (x @ CHR '':'' # y) = [x @ CHR '':'' # y]"
proof (induction x)
  case (Cons c x)
  have tl: "split_dc (CHR '':'' # y) = [CHR '':'' # y]"
    using Cons.prems split_dc_plain [of y] by (cases y) auto
  show ?case
  proof (cases x)
    case Nil
    then show ?thesis using Cons.prems tl by auto
  next
    case (Cons d x')
    then have "split_dc (x @ CHR '':'' # y) = [x @ CHR '':'' # y]" using Cons.IH Cons.prems by auto
    then show ?thesis using Cons Cons.prems by auto
  qed
qed simp

lemma split_dc_single: "split_dc s = [a] \<Longrightarrow> s = a"
proof (induction s arbitrary: a rule: split_dc.induct)
  case (1 c d s)
  then show ?case by (cases "split_dc (d # s)") (auto split: if_splits)
qed auto

lemma split_dc_two: "split_dc s = [a, b] \<Longrightarrow> s = a @ ''::'' @ b"
proof (induction s arbitrary: a rule: split_dc.induct)
  case (1 c d s)
  then show ?case by (cases "split_dc (d # s)") (auto split: if_splits dest: split_dc_single)
qed auto

section \<open>Case\<close>

lemma hex_digit_lower [simp]: "hex_digit (lower_char c) = hex_digit c"
  by (auto simp: hex_digit_def of_char_lower_char upper_code_def Let_def)

lemma hex_group_lower [simp]: "hex_group (js_lower s) = hex_group s"
  by (simp add: hex_group_def js_lower_def list_all_iff)

lemma hextet_value_lower [simp]: "hextet_value (js_lower s) = hextet_value s"
proof -
  have "foldl (\<lambda>a c. 16 * a + hex_value c) b (map lower_char s) = foldl (\<lambda>a c. 16 * a + hex_value c) b s" for b
    by (induction s arbitrary: b) (simp_all add: hex_value_def)
  then show ?thesis by (simp add: hextet_value_def js_lower_def)
qed

lemma split_on_lower: "(\<And>x. lower_char x = c \<longleftrightarrow> x = c) \<Longrightarrow> split_on c (js_lower s) = map js_lower (split_on c s)"
proof (induction s)
  case (Cons x s)
  then have ih: "split_on c (js_lower s) = map js_lower (split_on c s)" by blast
  obtain w ws where ws: "split_on c s = w # ws" using split_on_not_Nil [of c s] by (cases "split_on c s") auto
  show ?case using ih ws Cons.prems [of x] by (auto simp: js_lower_def)
qed (simp add: js_lower_def)

lemma lower_char_dot [simp]: "lower_char c = CHR ''.'' \<longleftrightarrow> c = CHR ''.''"
  by (rule lower_char_eq_fixed) (simp_all add: upper_code_def)

lemma short_digits_lower [simp]: "short_digits (js_lower p) = short_digits p"
  by (simp add: short_digits_def js_lower_def list_all_iff)

lemma strict_octet_lower [simp]: "strict_octet (js_lower p) = strict_octet p"
proof (cases "short_digits p")
  case True
  then have "js_lower p = p" by (simp add: short_digits_def)
  then show ?thesis by simp
qed (simp add: strict_octet_def)

lemma split_dot_lower: "split_on CHR ''.'' (js_lower s) = map js_lower (split_on CHR ''.'' s)"
  by (rule split_on_lower) simp

lemma split_colon_lower: "split_on CHR '':'' (js_lower s) = map js_lower (split_on CHR '':'' s)"
  by (rule split_on_lower) simp

lemma net_isIPv4_lower [simp]: "net_isIPv4 (js_lower s) = net_isIPv4 s"
  by (simp add: net_isIPv4_def split_dot_lower list_all_iff Let_def)

lemma net_isIPv4_lower_id: "net_isIPv4 s \<Longrightarrow> v4_value (js_lower s) = v4_value s"
proof -
  assume "net_isIPv4 s"
  then have "map js_lower (split_on CHR ''.'' s) = split_on CHR ''.'' s"
    by (auto simp: net_isIPv4_def list_all_iff strict_octet_def short_digits_def Let_def intro!: map_idI)
  then show ?thesis by (simp add: v4_value_def split_dot_lower)
qed

lemma split_dc_lower: "split_dc (js_lower s) = map js_lower (split_dc s)"
proof (induction s rule: split_dc.induct)
  case (1 c d s)
  then show ?case
    by (cases "split_dc (d # s)") (auto simp: js_lower_def)
qed (simp_all add: js_lower_def)

lemma v6_groups_lower: "v6_groups final (map js_lower gs) = v6_groups final gs"
  by (induction final gs rule: v6_groups.induct) (auto simp: net_isIPv4_lower_id)

lemma v6_side_lower: "v6_side final (js_lower s) = v6_side final s"
  by (simp add: v6_side_def split_colon_lower v6_groups_lower)

lemma v6_hextets_lower: "v6_hextets (js_lower s) = v6_hextets s"
proof -
  obtain a as where "split_dc s = a # as" using split_dc_not_Nil [of s] by (cases "split_dc s") auto
  then show ?thesis unfolding v6_hextets_def split_dc_lower
    by (cases as; cases "tl as") (simp_all add: v6_side_lower cong: option.case_cong)
qed

section \<open>The expansion of a valid literal\<close>

lemma hex_group_chars: "hex_group g \<Longrightarrow> CHR ''.'' \<notin> set g \<and> CHR '':'' \<notin> set g"
  by (auto simp: hex_group_def list_all_iff hex_digit_def)

lemma net_isIPv4_dot: "net_isIPv4 q \<Longrightarrow> CHR ''.'' \<in> set q"
  using split_on_absent [of "CHR ''.''" q] by (cases "CHR ''.'' \<in> set q") (auto simp: net_isIPv4_def Let_def)

lemma net_isIPv4_octets:
  assumes "net_isIPv4 q"
  obtains a b c d where "split_on CHR ''.'' q = [a, b, c, d]"
    "strict_octet a" "strict_octet b" "strict_octet c" "strict_octet d"
proof -
  have "length (split_on CHR ''.'' q) = Suc (Suc (Suc (Suc 0)))" and "list_all strict_octet (split_on CHR ''.'' q)"
    using assms by (simp_all add: net_isIPv4_def Let_def)
  then show ?thesis by (auto simp: length_Suc_conv intro: that)
qed

lemma v4_value_bound:
  assumes "net_isIPv4 q"
  shows "0 \<le> v4_value q \<and> v4_value q < 4294967296"
  using assms by (rule net_isIPv4_octets) (simp add: v4_value_def quad_value_def strict_octet_def)

lemma v4_halves: "0 \<le> v \<Longrightarrow> v < 4294967296 \<Longrightarrow> 0 \<le> v div 65536 \<and> v div 65536 < 65536" for v :: int
  using mult_le_iff_le_div [of 65536 65536 v] by (simp add: pos_imp_zdiv_nonneg_iff)

lemma map_id_iff: "map f xs = xs \<longleftrightarrow> (\<forall>x \<in> set xs. f x = x)"
  by (induction xs) auto

lemma groups_hex: "list_all hex_group gs \<Longrightarrow> v6_groups final gs = Some (map hextet_value gs)"
  by (induction final gs rule: v6_groups.induct) auto

lemma groups_last:
  "v6_groups final (gs @ [q]) = Some h \<Longrightarrow> list_all hex_group gs \<and>
     (hex_group q \<and> h = map hextet_value (gs @ [q]) \<or>
      \<not> hex_group q \<and> final \<and> net_isIPv4 q \<and> h = map hextet_value gs @ [v4_value q div 65536, v4_value q mod 65536])"
proof (induction gs arbitrary: h)
  case Nil
  then show ?case by (auto split: if_splits)
next
  case (Cons g gs)
  obtain x xs where "gs @ [q] = x # xs" by (cases "gs @ [q]") auto
  then obtain h' where "hex_group g" "v6_groups final (gs @ [q]) = Some h'" "h = hextet_value g # h'"
    using Cons.prems by (auto split: if_splits)
  then show ?case using Cons.IH [of h'] by auto
qed

lemma groups_bounds: "v6_groups final gs = Some h \<Longrightarrow> list_all (\<lambda>x. 0 \<le> x \<and> x < 65536) h"
proof (induction final gs arbitrary: h rule: v6_groups.induct)
  case (2 final g)
  then show ?case using hex_group_bound [of g] v4_value_bound [of g] v4_halves [of "v4_value g"] by (auto split: if_splits)
next
  case (3 final g h gs h2)
  then show ?case using hex_group_bound [of g] by (auto split: if_splits)
qed auto

text \<open>The side of a literal in lower case and without a dot.\<close>

lemma side_parts_hex:
  assumes "v6_side final a = Some h" and "CHR ''.'' \<notin> set a" and "js_lower a = a"
  shows "list_all lower_hex_group (side_parts a) \<and> h = map hextet_value (side_parts a)"
proof (cases "a = []")
  case False
  obtain gs q where gs: "split_on CHR '':'' a = gs @ [q]"
    using split_on_not_Nil [of "CHR '':''" a] by (metis rev_exhaust)
  obtain p where "a = p @ q" using split_on_last [OF gs] by blast
  then have "\<not> net_isIPv4 q" using net_isIPv4_dot assms(2) by auto
  moreover have "v6_groups final (gs @ [q]) = Some h" using assms(1) False gs by (simp add: v6_side_def)
  ultimately have hex: "list_all hex_group (gs @ [q])" "h = map hextet_value (gs @ [q])"
    using groups_last [of final gs q h] by auto
  have "map js_lower (split_on CHR '':'' a) = split_on CHR '':'' a" using assms(3) split_colon_lower [of a] by simp
  then have "\<forall>g \<in> set (gs @ [q]). js_lower g = g" unfolding gs map_id_iff .
  then show ?thesis using hex False gs by (simp add: side_parts_def lower_hex_group_def list_all_iff)
qed (use assms in \<open>simp add: side_parts_def v6_side_def\<close>)

lemma expand_plain:
  assumes v: "v6_hextets s = Some h" and dot: "CHR ''.'' \<notin> set s" and low: "js_lower s = s"
  shows "expand_hex s = Some h"
proof -
  have zero: "lower_hex_group ''0''" "hextet_value ''0'' = 0" by code_simp+
  have lows: "map js_lower (split_dc s) = split_dc s" using low split_dc_lower [of s] by simp
  from v consider a ha where "split_dc s = [a]" "v6_side True a = Some ha" "length ha = 8" "h = ha"
    | a b ha hb where "split_dc s = [a, b]" "v6_side False a = Some ha" "v6_side True b = Some hb"
        "length ha + length hb \<le> 7" "h = ha @ replicate (8 - length ha - length hb) 0 @ hb"
    by (auto simp: v6_hextets_def split: list.splits option.splits if_splits)
  then show ?thesis
  proof cases
    case 1
    then have "CHR ''.'' \<notin> set a" "js_lower a = a" using dot low split_dc_single [of s a] by auto
    with 1 side_parts_hex [of True a ha] show ?thesis by (simp add: expand_hex_def Let_def)
  next
    case 2
    have "s = a @ ''::'' @ b" using 2(1) by (rule split_dc_two)
    then have d: "CHR ''.'' \<notin> set a" "CHR ''.'' \<notin> set b" using dot by auto
    have l: "js_lower a = a" "js_lower b = b" using lows 2(1) by simp_all
    note a = side_parts_hex [OF 2(2) d(1) l(1)] and b = side_parts_hex [OF 2(3) d(2) l(2)]
    define pa pb n where pp: "pa = side_parts a" "pb = side_parts b" "n = 8 - length pa - length pb"
    have hex: "list_all lower_hex_group pa" "list_all lower_hex_group pb" and hs: "ha = map hextet_value pa" "hb = map hextet_value pb"
      using a b by (simp_all add: pp)
    have le: "length pa + length pb \<le> 7" using 2(4) by (simp add: hs)
    then have gap: "nat (8 - int (length pa) - int (length pb)) = n" "\<not> 8 - int (length pa) - int (length pb) < 1"
        "length pa + (n + length pb) = 8"
      unfolding pp(3) by linarith+
    have "h = map hextet_value (pa @ replicate n ''0'' @ pb)" using 2(5) by (simp add: hs zero pp(3))
    moreover have "list_all lower_hex_group (pa @ replicate n ''0'' @ pb)" using hex zero by (auto simp: list_all_iff)
    moreover have "length (pa @ replicate n ''0'' @ pb) = 8" using gap(3) by simp
    ultimately show ?thesis
      unfolding expand_hex_def Let_def 2(1) by (simp add: pp(1,2) [symmetric] gap)
  qed
qed

lemma take_digits_back:
  "list_all is_digit o1 \<Longrightarrow> u = [] \<or> \<not> is_digit (last u) \<Longrightarrow> takeWhile is_digit (rev (u @ o1)) = rev o1"
  by (cases u rule: rev_cases) (auto simp: takeWhile_append2 list_all_iff takeWhile_tail takeWhile_append)

text \<open>What the regular expression finds in text that ends in a valid quad after a colon.\<close>

lemma dotted_tail_quad:
  assumes q: "net_isIPv4 q" and u: "CHR ''.'' \<notin> set u" "u = [] \<or> last u = CHR '':''"
  obtains a b c d where "dotted_tail (u @ q) = Some (u, [a, b, c, d])"
    "0 \<le> a" "a \<le> 255" "0 \<le> b" "b \<le> 255" "0 \<le> c" "c \<le> 255" "0 \<le> d" "d \<le> 255"
    "v4_value q = 16777216 * a + 65536 * b + 256 * c + d"
proof -
  obtain a b c d where o: "split_on CHR ''.'' q = [a, b, c, d]" "strict_octet a" "strict_octet b" "strict_octet c" "strict_octet d"
    using q by (rule net_isIPv4_octets)
  then have digits: "list_all is_digit a" "list_all is_digit b" "list_all is_digit c" "list_all is_digit d" "a \<noteq> []" "length a \<le> 3"
    by (auto simp: strict_octet_def short_digits_def)
  have q': "q = a @ ''.'' @ b @ ''.'' @ c @ ''.'' @ d"
  proof -
    have dots: "CHR ''.'' \<notin> set a" "CHR ''.'' \<notin> set b" "CHR ''.'' \<notin> set c" "CHR ''.'' \<notin> set d"
      using o strict_octet_chars by auto
    have "split_on CHR ''.'' (a @ CHR ''.'' # b @ CHR ''.'' # c @ CHR ''.'' # d) = [a, b, c, d]"
      using dots by (simp add: split_on_append split_on_absent)
    then have "split_on CHR ''.'' (a @ CHR ''.'' # b @ CHR ''.'' # c @ CHR ''.'' # d) = split_on CHR ''.'' q" using o(1) by simp
    then show ?thesis using split_on_inj by fastforce
  qed
  have sp: "split_on CHR ''.'' (u @ q) = [u @ a, b, c, d]"
    using o strict_octet_chars u(1) unfolding q' by (simp add: split_on_append split_on_absent flip: append_assoc)
  have tw: "takeWhile is_digit (rev (u @ a)) = rev a"
    using digits(1) u(2) by (intro take_digits_back) (auto simp: is_digit_def)
  have "dotted_tail (u @ q) = Some (u, map (\<lambda>p. int (digits_val p)) [a, b, c, d])"
    unfolding dotted_tail_def Let_def sp using tw digits o
    by (simp add: strict_octet_def q' eval_nat_numeral)
  moreover have "v4_value q = 16777216 * int (digits_val a) + 65536 * int (digits_val b) + 256 * int (digits_val c) + int (digits_val d)"
    by (simp add: v4_value_def quad_value_def o(1))
  ultimately show ?thesis using o by (intro that) (auto simp: strict_octet_def)
qed

lemma split_on_members: "x \<in> set s \<Longrightarrow> x \<noteq> c \<Longrightarrow> \<exists>w \<in> set (split_on c s). x \<in> set w"
proof (induction s)
  case (Cons y s)
  then show ?case using split_on_not_Nil [of c s] by (cases "split_on c s") auto
qed simp

text \<open>A side of a valid literal with a dot ends in a quad, behind groups that have none.\<close>

lemma side_dotted:
  assumes "v6_side final z = Some hz" and "CHR ''.'' \<in> set z"
  obtains p q gs where "final" "z = p @ q" "net_isIPv4 q" "CHR '':'' \<notin> set q" "CHR ''.'' \<notin> set p" "p = [] \<or> last p = CHR '':''"
    "\<And>w. split_on CHR '':'' (p @ w) = gs @ split_on CHR '':'' w" "list_all hex_group gs"
    "hz = map hextet_value gs @ [v4_value q div 65536, v4_value q mod 65536]"
proof -
  have ne: "z \<noteq> []" using assms(2) by auto
  obtain gs q where gs: "split_on CHR '':'' z = gs @ [q]" using split_on_not_Nil [of "CHR '':''" z] by (metis rev_exhaust)
  obtain p where p: "z = p @ q" "\<And>w. split_on CHR '':'' (p @ w) = gs @ split_on CHR '':'' w" "CHR '':'' \<notin> set q"
      "gs = [] \<longrightarrow> p = []" "gs \<noteq> [] \<longrightarrow> p \<noteq> [] \<and> last p = CHR '':''"
    using split_on_last [OF gs] by blast
  have g: "v6_groups final (gs @ [q]) = Some hz" using assms(1) ne gs by (simp add: v6_side_def)
  then have hex: "list_all hex_group gs" using groups_last by blast
  have "CHR ''.'' \<notin> set p"
  proof
    assume "CHR ''.'' \<in> set p"
    then obtain w where "w \<in> set (split_on CHR '':'' (p @ []))" "CHR ''.'' \<in> set w"
      using split_on_members [of "CHR ''.''" p "CHR '':''"] by auto
    then show False unfolding p(2) using hex hex_group_chars by (auto simp: list_all_iff)
  qed
  moreover from this have "CHR ''.'' \<in> set q" using assms(2) p(1) by auto
  then have "\<not> hex_group q" using hex_group_chars by blast
  then have "final \<and> net_isIPv4 q \<and> hz = map hextet_value gs @ [v4_value q div 65536, v4_value q mod 65536]"
    using groups_last [OF g] by blast
  moreover have "p = [] \<or> last p = CHR '':''" using p(4,5) by blast
  ultimately show ?thesis using p hex by (intro that) auto
qed

lemma side_refolded:
  assumes "\<And>w. split_on CHR '':'' (p @ w) = gs @ split_on CHR '':'' w" and "list_all hex_group gs"
    and "0 \<le> a" "a < 65536" "0 \<le> b" "b < 65536"
  shows "v6_side True (p @ to_hex a @ CHR '':'' # to_hex b) = Some (map hextet_value gs @ [a, b])"
proof -
  have h: "hex_group (to_hex a)" "hex_group (to_hex b)" "hextet_value (to_hex a) = a" "hextet_value (to_hex b) = b"
    using assms to_hex_group to_hex_roundtrip by simp_all
  then have "split_on CHR '':'' (p @ to_hex a @ CHR '':'' # to_hex b) = gs @ [to_hex a, to_hex b]"
    unfolding assms(1) using hex_group_chars by (simp add: split_on_append split_on_absent)
  moreover have "list_all hex_group (gs @ [to_hex a, to_hex b])" using assms(2) h by simp
  ultimately show ?thesis using groups_hex [of "gs @ [to_hex a, to_hex b]" True] h by (simp add: v6_side_def)
qed

lemma expand_valid:
  assumes v: "v6_hextets s = Some h" and low: "js_lower s = s"
  shows "expandIPv6 s = Some h"
proof (cases "CHR ''.'' \<in> set s")
  case False
  then have "fold_dotted s = Some s" by (simp add: fold_dotted_def dotted_tail_def split_on_absent)
  then show ?thesis using expand_plain [OF v False low] by (simp add: expandIPv6_def)
next
  case True
  \<comment> \<open>The literal is \<open>u @ q\<close>; putting the two hexadecimal groups in place of \<open>q\<close> keeps its number.\<close>
  have "\<exists>u q. s = u @ q \<and> net_isIPv4 q \<and> CHR ''.'' \<notin> set u \<and> (u = [] \<or> last u = CHR '':'') \<and>
      (\<forall>a b. 0 \<le> a \<and> a < 65536 \<and> 0 \<le> b \<and> b < 65536 \<and> v4_value q = 65536 * a + b \<longrightarrow>
         v6_hextets (u @ to_hex a @ CHR '':'' # to_hex b) = Some h)"
  proof -
    have dc: "split_dc (u @ x) = butlast (split_dc u) @ [last (split_dc u) @ x]"
      if "CHR '':'' \<notin> set x" "x \<noteq> []" for u x
      using that by (intro split_dc_append split_dc_plain) (auto simp: neq_Nil_conv)
    have dch: "split_dc (u @ to_hex a @ CHR '':'' # to_hex b) = butlast (split_dc u) @ [last (split_dc u) @ to_hex a @ CHR '':'' # to_hex b]"
      if "0 \<le> a" "0 \<le> b" for u a b
    proof (rule split_dc_append)
      show "split_dc (to_hex a @ CHR '':'' # to_hex b) = [to_hex a @ CHR '':'' # to_hex b]"
        using that to_hex_roundtrip by (intro split_dc_pair) (auto simp: list_all_iff)
      show "to_hex a @ CHR '':'' # to_hex b = [] \<or> hd (to_hex a @ CHR '':'' # to_hex b) \<noteq> CHR '':''"
        using that to_hex_roundtrip [of a] by (cases "to_hex a") (auto simp: list_all_iff)
    qed
    from v consider a where "split_dc s = [a]" "v6_side True a = Some h" "length h = 8"
      | a b ha hb where "split_dc s = [a, b]" "v6_side False a = Some ha" "v6_side True b = Some hb"
          "length ha + length hb \<le> 7" "h = ha @ replicate (8 - length ha - length hb) 0 @ hb"
      by (auto simp: v6_hextets_def split: list.splits option.splits if_splits)
    then show ?thesis
    proof cases
      case 1
      have "s = a" using 1(1) by (rule split_dc_single)
      with True obtain p q gs where pq: "s = p @ q" "net_isIPv4 q" "CHR '':'' \<notin> set q" "CHR ''.'' \<notin> set p" "p = [] \<or> last p = CHR '':''"
          "\<And>w. split_on CHR '':'' (p @ w) = gs @ split_on CHR '':'' w" "list_all hex_group gs"
          "h = map hextet_value gs @ [v4_value q div 65536, v4_value q mod 65536]"
        using side_dotted [OF 1(2)] by metis
      have "q \<noteq> []" using pq(2) by (auto simp: net_isIPv4_def)
      then have "butlast (split_dc p) @ [last (split_dc p) @ q] = [p @ q]" using dc [OF pq(3), of p] 1(1) \<open>s = a\<close> pq(1) by simp
      then have p: "butlast (split_dc p) = []" "last (split_dc p) = p" by auto
      have "v6_hextets (p @ to_hex x @ CHR '':'' # to_hex y) = Some h"
        if "0 \<le> x" "x < 65536" "0 \<le> y" "y < 65536" "v4_value q = 65536 * x + y" for x y
        using that 1(3) pq(8) dch [of x y p] side_refolded [OF pq(6,7), of x y] by (simp add: v6_hextets_def p)
      then show ?thesis using pq by blast
    next
      case 2
      have s: "s = a @ ''::'' @ b" using 2(1) by (rule split_dc_two)
      have "CHR ''.'' \<notin> set a" using side_dotted [OF 2(2)] by metis
      then have "CHR ''.'' \<in> set b" using True s by auto
      then obtain p q gs where pq: "b = p @ q" "net_isIPv4 q" "CHR '':'' \<notin> set q" "CHR ''.'' \<notin> set p" "p = [] \<or> last p = CHR '':''"
          "\<And>w. split_on CHR '':'' (p @ w) = gs @ split_on CHR '':'' w" "list_all hex_group gs"
          "hb = map hextet_value gs @ [v4_value q div 65536, v4_value q mod 65536]"
        using side_dotted [OF 2(3)] by metis
      let ?u = "a @ ''::'' @ p"
      have "q \<noteq> []" using pq(2) by (auto simp: net_isIPv4_def)
      then have "butlast (split_dc ?u) @ [last (split_dc ?u) @ q] = [a] @ [p @ q]" using dc [OF pq(3), of ?u] 2(1) s pq(1) by simp
      then have p: "butlast (split_dc ?u) = [a]" "last (split_dc ?u) = p" unfolding append_eq_append_conv2 by auto
      have "v6_hextets (?u @ to_hex x @ CHR '':'' # to_hex y) = Some h"
        if "0 \<le> x" "x < 65536" "0 \<le> y" "y < 65536" "v4_value q = 65536 * x + y" for x y
        using that 2 pq(8) dch [of x y ?u] side_refolded [OF pq(6,7), of x y] unfolding v6_hextets_def
        by (simp only: p) simp
      moreover have "?u = [] \<or> last ?u = CHR '':''" using pq(5) by auto
      moreover have "s = ?u @ q" "CHR ''.'' \<notin> set ?u" using s pq \<open>CHR ''.'' \<notin> set a\<close> by auto
      ultimately show ?thesis using pq(2) by blast
    qed
  qed
  then obtain u q where uq: "s = u @ q" "net_isIPv4 q" "CHR ''.'' \<notin> set u" "u = [] \<or> last u = CHR '':''"
    "\<And>a b. 0 \<le> a \<Longrightarrow> a < 65536 \<Longrightarrow> 0 \<le> b \<Longrightarrow> b < 65536 \<Longrightarrow> v4_value q = 65536 * a + b \<Longrightarrow>
         v6_hextets (u @ to_hex a @ CHR '':'' # to_hex b) = Some h" by blast
  obtain a b c d where o: "dotted_tail (u @ q) = Some (u, [a, b, c, d])"
    "0 \<le> a" "a \<le> 255" "0 \<le> b" "b \<le> 255" "0 \<le> c" "c \<le> 255" "0 \<le> d" "d \<le> 255"
    "v4_value q = 16777216 * a + 65536 * b + 256 * c + d"
    using dotted_tail_quad [OF uq(2-4)] by metis
  let ?s = "u @ to_hex (256 * a + b) @ CHR '':'' # to_hex (256 * c + d)"
  have "fold_dotted s = Some ?s" using o by (simp add: fold_dotted_def uq(1))
  moreover have "v6_hextets ?s = Some h" by (rule uq(5)) (use o in auto)
  moreover have "CHR ''.'' \<notin> set ?s" "js_lower ?s = ?s"
  proof -
    have hex: "CHR ''.'' \<notin> set (to_hex n)" "js_lower (to_hex n) = to_hex n" if "0 \<le> n" for n
      using that to_hex_roundtrip [of n] by (auto simp: list_all_iff js_lower_def map_id_iff)
    have "js_lower u = u" using low uq(1) by (simp add: js_lower_def map_id_iff)
    then show "js_lower ?s = ?s" using hex o by (simp add: js_lower_def lower_char_def upper_code_def)
    show "CHR ''.'' \<notin> set ?s" using hex o uq(3) by auto
  qed
  ultimately show ?thesis using expand_plain by (simp add: expandIPv6_def)
qed

section \<open>What the literals denote\<close>

text \<open>The IPv4 address an IPv6 address embeds, and the rule on the number alone: an embedded address
  is judged by the IPv4 ranges, everything else must be global unicast.\<close>

definition decapsulate :: "int list \<Rightarrow> int option" where
  "decapsulate h =
     (case h of
        [h0, h1, h2, h3, h4, h5, h6, h7] \<Rightarrow>
          if h0 = 0x2002 then Some (65536 * h1 + h2)
          else if h0 = 0x64 \<and> h1 = 0xff9b then Some (65536 * h6 + h7)
          else if h0 = 0 \<and> h1 = 0 \<and> h2 = 0 \<and> h3 = 0 \<and>
                  (h4 = 0 \<and> h5 = 0 \<and> (h6 \<noteq> 0 \<or> h7 \<noteq> 0) \<or> h4 = 0xffff \<and> h5 = 0 \<or> h4 = 0 \<and> h5 = 0xffff)
          then Some (65536 * h6 + h7) else None
      | _ \<Rightarrow> None)"

definition blocked_class :: "int list \<Rightarrow> bool" where
  "blocked_class h =
     (case decapsulate h of
        Some n \<Rightarrow> in_ranges 32 BLOCKED_V4_RANGES n
      | None \<Rightarrow> \<not> (0x2000 \<le> h ! 0 \<and> h ! 0 < 0x4000))"

definition address_hextets :: "int list \<Rightarrow> bool" where
  "address_hextets h \<longleftrightarrow> length h = 8 \<and> list_all (\<lambda>x. 0 \<le> x \<and> x < 65536) h"

lemma address_hextets_cases:
  assumes "address_hextets h"
  obtains h0 h1 h2 h3 h4 h5 h6 h7 where "h = [h0, h1, h2, h3, h4, h5, h6, h7]"
proof -
  have "length h = 8" using assms by (simp add: address_hextets_def)
  then show ?thesis using that by (auto simp: numeral_eq_Suc length_Suc_conv)
qed

lemma strict_octets_value:
  assumes "net_isIPv4 q" shows "0 \<le> v4_value q \<and> v4_value q < 2 ^ 32"
proof -
  obtain a b c d where o: "split_on CHR ''.'' q = [a, b, c, d]" "strict_octet a" "strict_octet b" "strict_octet c" "strict_octet d"
    using assms by (rule net_isIPv4_octets)
  then have "digits_val a \<le> 255" "digits_val b \<le> 255" "digits_val c \<le> 255" "digits_val d \<le> 255"
    by (auto simp: strict_octet_def)
  then show ?thesis using o(1) by (simp add: v4_value_def quad_value_def)
qed

lemma v6_groups_bounds: "v6_groups final gs = Some h \<Longrightarrow> list_all (\<lambda>x. 0 \<le> x \<and> x < 65536) h"
proof (induction final gs arbitrary: h rule: v6_groups.induct)
  case (2 final g)
  then show ?case using hex_group_bound [of g] strict_octets_value [of g] by (auto split: if_splits)
next
  case (3 final g k gs)
  then show ?case using hex_group_bound [of g] by (auto split: if_splits)
qed simp

lemma v6_hextets_address: "v6_hextets s = Some h \<Longrightarrow> address_hextets h"
  using v6_groups_bounds
  by (fastforce simp: v6_hextets_def v6_side_def address_hextets_def list_all_iff split: list.splits option.splits if_splits)

lemma net_ipv6_address: "net_ipv6 s = Some h \<Longrightarrow> address_hextets h"
  by (auto simp: net_ipv6_def Let_def v6_hextets_address split: if_splits)

text \<open>The ladder of the code decides by the embedded address.\<close>

lemma blocked_dotted_hextets:
  "0 \<le> hi \<Longrightarrow> hi < 65536 \<Longrightarrow> 0 \<le> lo \<Longrightarrow> lo < 65536 \<Longrightarrow>
     blocked_dotted (hextetsToV4 hi lo) = in_ranges 32 BLOCKED_V4_RANGES (65536 * hi + lo)"
  using hextetsToV4_value [of hi lo] by (simp add: blocked_dotted_def)

lemma embedded_is_decapsulated:
  assumes "address_hextets h"
  shows "embedded_v4 h = map_option (in_ranges 32 BLOCKED_V4_RANGES) (decapsulate h)"
proof -
  obtain h0 h1 h2 h3 h4 h5 h6 h7 where h: "h = [h0, h1, h2, h3, h4, h5, h6, h7]"
    using assms by (rule address_hextets_cases)
  have b: "0 \<le> h1" "h1 < 65536" "0 \<le> h2" "h2 < 65536" "0 \<le> h6" "h6 < 65536" "0 \<le> h7" "h7 < 65536"
    using assms by (simp_all add: h address_hextets_def)
  have r: "blocked_dotted (hextetsToV4 h1 h2) = in_ranges 32 BLOCKED_V4_RANGES (65536 * h1 + h2)"
    "blocked_dotted (hextetsToV4 h6 h7) = in_ranges 32 BLOCKED_V4_RANGES (65536 * h6 + h7)"
    using b by (simp_all add: blocked_dotted_hextets)
  show ?thesis unfolding h by (auto simp: embedded_v4_def decapsulate_def r eval_nat_numeral)
qed

text \<open>The block list of IPv6 prefixes, read off the first hextet.\<close>

lemma v6_value_leading:
  assumes "address_hextets h"
  obtains r where "v6_value h = h ! 0 * 2 ^ 112 + r" "0 \<le> r" "r < 2 ^ 112" "0 \<le> h ! 0" "h ! 0 < 65536"
proof -
  obtain h0 h1 h2 h3 h4 h5 h6 h7 where h: "h = [h0, h1, h2, h3, h4, h5, h6, h7]"
    using assms by (rule address_hextets_cases)
  show ?thesis
    using assms by (intro that [of "v6_value h - h ! 0 * 2 ^ 112"]) (simp_all add: h address_hextets_def v6_value_def)
qed

lemma v6_value_prefix:
  assumes "address_hextets h" shows "v6_value h div 2 ^ (112 + k) = h ! 0 div 2 ^ k"
proof -
  obtain r where r: "v6_value h = h ! 0 * 2 ^ 112 + r" "0 \<le> r" "r < 2 ^ 112" "0 \<le> h ! 0" "h ! 0 < 65536"
    using assms by (rule v6_value_leading)
  have "v6_value h div 2 ^ (112 + k) = v6_value h div 2 ^ 112 div 2 ^ k"
    unfolding power_add by (rule zdiv_zmult2_eq) simp
  also have "v6_value h div 2 ^ 112 = h ! 0"
    unfolding r(1) using r(2,3) by (simp only: div_mult_self3 div_pos_pos_trivial)
  finally show ?thesis .
qed

lemma reserved_v6:
  assumes "address_hextets h"
  shows "(in_ranges 128 BLOCKED_V6_RANGES (v6_value h) \<or> \<not> in_ranges 128 GLOBAL_UNICAST_V6 (v6_value h))
     = (\<not> (0x2000 \<le> h ! 0 \<and> h ! 0 < 0x4000))"
proof -
  obtain r where r: "v6_value h = h ! 0 * 2 ^ 112 + r" "0 \<le> r" "r < 2 ^ 112" "0 \<le> h ! 0" "h ! 0 < 65536"
    using assms by (rule v6_value_leading)
  have d: "v6_value h div 2 ^ 125 = h ! 0 div 8192" "v6_value h div 2 ^ 121 = h ! 0 div 512" "v6_value h div 2 ^ 118 = h ! 0 div 64"
    using v6_value_prefix [OF assms, of 13] v6_value_prefix [OF assms, of 9] v6_value_prefix [OF assms, of 6] by simp_all
  have g: "in_ranges 128 GLOBAL_UNICAST_V6 (v6_value h) \<longleftrightarrow> h ! 0 div 8192 = 1"
    by (simp add: in_ranges_def GLOBAL_UNICAST_V6_def flip: d(1))
  have u: "h ! 0 div 8192 = 1 \<longleftrightarrow> 0x2000 \<le> h ! 0 \<and> h ! 0 < 0x4000" using r(4,5) by linarith
  have b: "in_ranges 128 BLOCKED_V6_RANGES (v6_value h) \<longleftrightarrow>
      v6_value h = 0 \<or> v6_value h = 1 \<or> h ! 0 div 8192 = 0 \<or> h ! 0 div 512 = 126 \<or> h ! 0 div 64 = 1018 \<or> h ! 0 div 64 = 1019"
    by (simp add: in_ranges_def BLOCKED_V6_RANGES_def flip: d)
  have "v6_value h \<noteq> 0 \<and> v6_value h \<noteq> 1" if "0x2000 \<le> h ! 0"
    unfolding r(1) using that r(2) by simp
  then show ?thesis unfolding g u b using r(4,5) by linarith
qed

text \<open>The test on the prefix \<open>::ffff:\<close> agrees with the ladder on every valid literal.\<close>

lemma mapped_hextets:
  assumes x: "split_dc x = [x]" "x \<noteq> []" "hd x \<noteq> CHR '':''" and v: "v6_hextets (''::ffff:'' @ x) = Some h"
  obtains t where "v6_groups True (split_on CHR '':'' x) = Some t" "length t \<le> 6" "h = replicate (7 - length t) 0 @ 65535 # t"
proof -
  have "split_dc (''::ffff:'' @ x) = butlast (split_dc ''::ffff:'') @ [last (split_dc ''::ffff:'') @ x]"
    using x by (intro split_dc_append) auto
  moreover have "split_dc ''::ffff:'' = [[], ''ffff:'']" by code_simp
  ultimately have sp: "split_dc (''::ffff:'' @ x) = [[], ''ffff:'' @ x]" by simp
  have f: "split_on CHR '':'' (''ffff:'' @ x) = ''ffff'' # split_on CHR '':'' x"
    by simp
  have g: "hex_group ''ffff''" "hextet_value ''ffff'' = 65535" by code_simp+
  from v have "\<exists>t. v6_side True (''ffff:'' @ x) = Some t \<and> length t \<le> 7 \<and> h = replicate (8 - length t) 0 @ t"
    unfolding v6_hextets_def sp by (auto simp: v6_side_def split: option.splits if_splits)
  then obtain t where t: "v6_groups True (''ffff'' # split_on CHR '':'' x) = Some t" "length t \<le> 7" "h = replicate (8 - length t) 0 @ t"
    by (auto simp: v6_side_def f)
  obtain y ys where ys: "split_on CHR '':'' x = y # ys" using split_on_not_Nil [of "CHR '':''" x] by (cases "split_on CHR '':'' x") auto
  from t(1) obtain t' where "v6_groups True (split_on CHR '':'' x) = Some t'" "t = 65535 # t'"
    by (auto simp: ys g)
  then show ?thesis using t(2,3) by (intro that) auto
qed

lemma mapped_prefix_agrees:
  assumes v: "v6_hextets l = Some h" and low: "js_lower l = l" and m: "mapped_prefix l = Some b"
  shows "b = blocked_class h"
proof -
  define x where "x = drop 7 l"
  have "starts_with ''::ffff:'' l" using m unfolding mapped_prefix_def by (metis option.distinct(1))
  then have l: "l = ''::ffff:'' @ x" by (auto simp: starts_with_iff x_def)
  let ?hs = "split_on CHR '':'' x"
  have cases: "dotted_quad x \<and> b = blocked_dotted x \<or>
      length ?hs = 2 \<and> list_all lower_hex_group ?hs \<and> b = blocked_dotted (hextetsToV4 (hextet_value (?hs ! 0)) (hextet_value (?hs ! 1)))"
    using m unfolding mapped_prefix_def x_def [symmetric] by (auto simp: Let_def split: if_splits)
  from cases show ?thesis
  proof (elim disjE conjE)
    assume q: "dotted_quad x" "b = blocked_dotted x"
    have "length (split_on CHR ''.'' x) = 4" and digits: "list_all short_digits (split_on CHR ''.'' x)"
      using q(1) by (simp_all add: dotted_quad_def Let_def)
    then have dot: "CHR ''.'' \<in> set x" using split_on_absent [of "CHR ''.''" x] by (cases "CHR ''.'' \<in> set x") auto
    then have ne: "x \<noteq> []" by auto
    have nc: "CHR '':'' \<notin> set x"
    proof
      assume "CHR '':'' \<in> set x"
      then obtain w where "w \<in> set (split_on CHR ''.'' x)" "CHR '':'' \<in> set w"
        using split_on_members [of "CHR '':''" x "CHR ''.''"] by auto
      moreover have "\<not> is_digit CHR '':''" by code_simp
      ultimately show False using digits unfolding list_all_iff short_digits_def by blast
    qed
    have "split_dc x = [x]" "hd x \<noteq> CHR '':''" using nc ne split_dc_plain [of x] by (auto simp: neq_Nil_conv)
    then obtain t where t: "v6_groups True (split_on CHR '':'' x) = Some t" "h = replicate (7 - length t) 0 @ 65535 # t"
      using mapped_hextets [of x h] ne v unfolding l by blast
    then have "net_isIPv4 x" "t = [v4_value x div 65536, v4_value x mod 65536]"
      using nc dot hex_group_chars by (auto simp: split_on_absent split: if_splits)
    then show ?thesis using q t(2) by (simp add: blocked_dotted_def blocked_class_def decapsulate_def eval_nat_numeral)
  next
    assume q: "length ?hs = 2" "list_all lower_hex_group ?hs"
      "b = blocked_dotted (hextetsToV4 (hextet_value (?hs ! 0)) (hextet_value (?hs ! 1)))"
    then obtain y z where yz: "?hs = [y, z]" by (auto simp: numeral_2_eq_2 length_Suc_conv)
    then have g: "hex_group y" "hex_group z" using q(2) by (simp_all add: lower_hex_group_def)
    have "x = y @ CHR '':'' # z" using join_split [of "CHR '':''" x] yz by simp
    moreover have "y \<noteq> []" "z \<noteq> []" "CHR '':'' \<notin> set y" "CHR '':'' \<notin> set z" using g hex_group_chars by (auto simp: hex_group_def)
    ultimately have "split_dc x = [x]" "x \<noteq> []" "hd x \<noteq> CHR '':''" using split_dc_pair [of y z] by (auto simp: neq_Nil_conv)
    then obtain t where t: "v6_groups True ?hs = Some t" "h = replicate (7 - length t) 0 @ 65535 # t"
      using mapped_hextets [of x h] v unfolding l by blast
    then have "t = [hextet_value y, hextet_value z]" using g by (simp add: yz)
    then show ?thesis
      using q(3) t(2) g hex_group_bound [of y] hex_group_bound [of z] yz
      by (simp add: blocked_class_def decapsulate_def blocked_dotted_hextets eval_nat_numeral)
  qed
qed


section \<open>Properties\<close>

text \<open>C20. The guard on addresses: for every literal without a zone, in whatever spelling, the answer
  depends on the address alone. An IPv4 literal is judged by the IPv4 ranges, an IPv6 literal that
  embeds an IPv4 address by those same ranges, every other IPv6 literal is let through exactly when it is
  global unicast, and what is no literal is blocked.\<close>

theorem blocked_by_address_alone:
  assumes "CHR ''%'' \<notin> set ip"
  shows "isBlockedAddress ip =
     (if net_isIPv4 ip then in_ranges 32 BLOCKED_V4_RANGES (v4_value ip)
      else (case net_ipv6 ip of None \<Rightarrow> True | Some h \<Rightarrow> blocked_class h))"
proof (cases "net_isIPv4 ip \<or> net_ipv6 ip = None")
  case False
  then obtain h where n: "\<not> net_isIPv4 ip" "net_ipv6 ip = Some h" by auto
  have tw: "takeWhile (\<lambda>c. c \<noteq> CHR ''%'') ip = ip" unfolding takeWhile_eq_all_conv using assms by auto
  then have v: "v6_hextets (js_lower ip) = Some h"
    using n(2) assms unfolding net_ipv6_def tw by (simp add: v6_hextets_lower Let_def)
  have a: "address_hextets h" using n(2) by (rule net_ipv6_address)
  have e: "expandIPv6 (js_lower ip) = Some h" by (rule expand_valid [OF v]) simp
  have p: "mapped_prefix (js_lower ip) = Some b \<Longrightarrow> b = blocked_class h" for b
    by (rule mapped_prefix_agrees [OF v]) simp_all
  have c: "(case embedded_v4 h of Some b \<Rightarrow> b
      | None \<Rightarrow> in_ranges 128 BLOCKED_V6_RANGES (v6_value h) \<or> \<not> in_ranges 128 GLOBAL_UNICAST_V6 (v6_value h)) = blocked_class h"
    unfolding reserved_v6 [OF a] embedded_is_decapsulated [OF a] blocked_class_def by (cases "decapsulate h") simp_all
  show ?thesis
    using n p c e by (cases "mapped_prefix (js_lower ip)") (simp_all add: isBlockedAddress_def)
qed (auto simp: isBlockedAddress_def)

lemma blocked_by_address_alone_witness:
  "isBlockedAddress ''64:FF9B::a9fe:a9fe'' = True \<and> isBlockedAddress ''2002:808:808::1'' = False"
proof -
  have "net_isIPv4 ''64:FF9B::a9fe:a9fe'' = False" "net_ipv6 ''64:FF9B::a9fe:a9fe'' = Some [100, 65435, 0, 0, 0, 0, 43518, 43518]"
    "blocked_class [100, 65435, 0, 0, 0, 0, 43518, 43518] = True"
    "net_isIPv4 ''2002:808:808::1'' = False" "net_ipv6 ''2002:808:808::1'' = Some [8194, 2056, 2056, 0, 0, 0, 0, 1]"
    "blocked_class [8194, 2056, 2056, 0, 0, 0, 0, 1] = False"
    by code_simp+
  then show ?thesis
    using blocked_by_address_alone [of "''64:FF9B::a9fe:a9fe''"] blocked_by_address_alone [of "''2002:808:808::1''"] by simp
qed

text \<open>A zone hides the embedded address: the loopback behind 6to4 is blocked, and let through as
  soon as a zone follows it, because the expansion fails on the zone and only the ranges are left to
  decide.\<close>

theorem zone_hides_embedded_address:
  "isBlockedAddress ''2002:7f00:1::'' \<and> \<not> isBlockedAddress ''2002:7f00:1::%1''
   \<and> net_ipv6 ''2002:7f00:1::'' = net_ipv6 ''2002:7f00:1::%1''"
  by code_simp

text \<open>The embedded address survives the round trip through text: rendering two hextets as a dotted
  quad and reading the quad back gives their number, and printing a hextet in base 16 and reading it back
  gives the hextet.\<close>

theorem embedded_address_roundtrip:
  assumes "0 \<le> hi" "hi < 65536" "0 \<le> lo" "lo < 65536"
  shows "net_isIPv4 (hextetsToV4 hi lo) \<and> v4_value (hextetsToV4 hi lo) = 65536 * hi + lo
    \<and> hextet_value (to_hex hi) = hi \<and> lower_hex_group (to_hex hi)"
  using assms hextetsToV4_value [of hi lo] to_hex_roundtrip [of hi] to_hex_group [of hi]
  by (auto simp: lower_hex_group_def list_all_iff js_lower_def map_id_iff)

lemma embedded_address_roundtrip_witness:
  "v4_value (hextetsToV4 43518 43518) = 2852039166 \<and> hextet_value (to_hex 43518) = 43518"
  using embedded_address_roundtrip [of 43518 43518] by simp


end
