(* ===== verification/Ssrf_Fetch.thy ===== *)
theory Ssrf_Fetch
  imports Ssrf_Address
begin

text \<open>
  Guarded outbound requests (the second half of src/src/common/security/ssrf-guard.ts, with
  src/src/common/security/proxy-dispatcher.ts). The world is an environment: the variables, the
  \<open>URL\<close> constructor, what the resolver does with the lookup of each hop, and what the receiver
  answers to each hop; both may change from one hop to the next. A call leaves a trace of what it
  builds, sends, settles and destroys. Text a message only carries for display is kept.
\<close>

section \<open>Data\<close>

record url =
  url_text :: string
  url_protocol :: string
  url_hostname :: string
  url_origin :: string

datatype fetch_error = SsrfBlockedError string | Abort_Reason | Plain_Error string | Invalid_Url

record lookup_address =
  la_address :: string
  la_family :: nat

datatype lookup_event = Lookup_Answers "lookup_address list" | Lookup_Fails "string option" | Deadline_Fires | Signal_Aborts

record request_init =
  ri_method :: "string option"
  ri_headers :: "(string, string) jsmap option"
  ri_body :: "string option"

record response =
  rs_status :: nat
  rs_type :: string
  rs_location :: "string option"

datatype dispatcher =
    No_Dispatcher
  | Pinned_Agent "lookup_address list"
  | Http_Proxy string
  | Socks_Proxy nat string "string list option"

datatype redirect_mode = Follow | Manual | Error_Mode

record request =
  rq_url :: url
  rq_init :: request_init
  rq_redirect :: redirect_mode
  rq_dispatcher :: dispatcher

datatype fetch_event = Built dispatcher | Sent request | Body_Settled | Destroyed dispatcher

datatype fetch_answer = Responds response | Fetch_Fails string

record net_env =
  ne_allowed_hosts :: "string option"
  ne_dns_timeout :: "string option"
  ne_insecure_hops :: "string option"
  ne_ssrf_redirects :: "string option"
  ne_url :: "string \<Rightarrow> string option \<Rightarrow> url option"
  ne_aborted :: "nat \<Rightarrow> bool"               \<comment> \<open>the signal, when the lookup of a hop starts\<close>
  ne_lookup :: "nat \<Rightarrow> string \<Rightarrow> lookup_event"  \<comment> \<open>what settles first\<close>
  ne_aborted_late :: "nat \<Rightarrow> bool"           \<comment> \<open>the signal, when a rejection is handled\<close>
  ne_fetch :: "nat \<Rightarrow> request \<Rightarrow> fetch_answer"

section \<open>Resolving a target\<close>

definition strip_brackets :: "string \<Rightarrow> string" where
  "strip_brackets s =
     (let t = (if s \<noteq> [] \<and> hd s = CHR ''['' then tl s else s)
      in if t \<noteq> [] \<and> last t = CHR '']'' then butlast t else t)"

definition getAllowedHosts :: "net_env \<Rightarrow> string list" where
  "getAllowedHosts env =
     filter (\<lambda>h. h \<noteq> [])
       (map (\<lambda>h. js_lower (strip_brackets (js_trim h)))
         (split_on CHR '','' (case ne_allowed_hosts env of Some s \<Rightarrow> s | None \<Rightarrow> [])))"

definition assertNoRedirect :: "response \<Rightarrow> string \<Rightarrow> fetch_error option" where
  "assertNoRedirect r url =
     (if rs_type r = ''opaqueredirect'' \<or> 300 \<le> rs_status r \<and> rs_status r < 400
      then Some (SsrfBlockedError (''Refusing to follow redirect from '' @ url)) else None)"

definition DEFAULT_DNS_TIMEOUT_MS :: int where
  "DEFAULT_DNS_TIMEOUT_MS = 10000"

definition resolveDnsTimeoutMs :: "net_env \<Rightarrow> int" where
  "resolveDnsTimeoutMs env =
     (case ne_dns_timeout env of
        None \<Rightarrow> DEFAULT_DNS_TIMEOUT_MS
      | Some raw \<Rightarrow>
          let n = js_Number raw
          in if num_is_integer n \<and> num_le 1 n then num_floor n else DEFAULT_DNS_TIMEOUT_MS)"

definition lookupWithDeadline :: "net_env \<Rightarrow> nat \<Rightarrow> string \<Rightarrow> fetch_error + lookup_address list" where
  "lookupWithDeadline env hop host =
     (if ne_aborted env hop then Inl Abort_Reason
      else (case ne_lookup env hop host of
              Lookup_Answers found \<Rightarrow> Inr found
            | Signal_Aborts \<Rightarrow> Inl Abort_Reason
            | Deadline_Fires \<Rightarrow>
                Inl (if ne_aborted_late env hop then Abort_Reason
                     else SsrfBlockedError (''Timed out resolving host: '' @ host))
            | Lookup_Fails code \<Rightarrow>
                Inl (if ne_aborted_late env hop then Abort_Reason
                     else SsrfBlockedError (''Could not resolve host: '' @ host @
                            (case code of Some c \<Rightarrow> '' ('' @ c @ '')'' | None \<Rightarrow> [])))))"

fun first_blocked :: "lookup_address list \<Rightarrow> string option" where
  "first_blocked [] = None"
| "first_blocked (a # as) = (if isBlockedAddress (la_address a) then Some (la_address a) else first_blocked as)"

definition resolveSafeFetchTarget :: "net_env \<Rightarrow> nat \<Rightarrow> string \<Rightarrow> fetch_error + lookup_address list option" where
  "resolveSafeFetchTarget env hop rawUrl =
     (case ne_url env rawUrl None of
        None \<Rightarrow> Inl (SsrfBlockedError (''Invalid URL: '' @ rawUrl))
      | Some url \<Rightarrow>
          if url_protocol url \<noteq> ''http:'' \<and> url_protocol url \<noteq> ''https:''
          then Inl (SsrfBlockedError (''Blocked URL scheme: '' @ url_protocol url))
          else let host = strip_brackets (url_hostname url)
            in if js_lower host \<in> set (getAllowedHosts env) then map_sum id Some (lookupWithDeadline env hop host)
               else if net_isIPv4 host \<or> net_isIPv6 host
               then if isBlockedAddress host then Inl (SsrfBlockedError (''Blocked internal address: '' @ host)) else Inr None
               else (case lookupWithDeadline env hop host of
                       Inl e \<Rightarrow> Inl e
                     | Inr resolved \<Rightarrow>
                         if resolved = [] then Inl (SsrfBlockedError (''Could not resolve host: '' @ host))
                         else (case first_blocked resolved of
                                 Some a \<Rightarrow> Inl (SsrfBlockedError (''Host '' @ host @ '' resolves to a blocked internal address: '' @ a))
                               | None \<Rightarrow> Inr (Some resolved))))"

definition assertSafeFetchUrl :: "net_env \<Rightarrow> string \<Rightarrow> fetch_error option" where
  "assertSafeFetchUrl env rawUrl = (case resolveSafeFetchTarget env 0 rawUrl of Inl e \<Rightarrow> Some e | Inr _ \<Rightarrow> None)"

section \<open>Redaction\<close>

definition SSRF_BLOCKED_CLIENT_MESSAGE :: string where
  "SSRF_BLOCKED_CLIENT_MESSAGE = ''Destination address is not allowed''"

definition word_char :: "char \<Rightarrow> bool" where
  "word_char c \<longleftrightarrow> (let n = of_char c :: nat in is_digit c \<or> (65 \<le> n \<and> n \<le> 90) \<or> (97 \<le> n \<and> n \<le> 122) \<or> n = 95)"

definition connect_codes :: "string list" where
  "connect_codes = [''ECONNREFUSED'', ''ENOTFOUND'', ''ETIMEDOUT'', ''EHOSTUNREACH'', ''ECONNRESET'', ''EAI_AGAIN'']"

text \<open>The regular expression at one position: the code matched and the text behind the match. Every
  run is as long as it can be, since a shorter one cannot be continued.\<close>

definition host_tail :: "string \<Rightarrow> string option" where
  "host_tail s =
     (let ws = takeWhile ws_char s; t = drop (length ws) s;
          host = takeWhile (\<lambda>c. word_char c \<or> c \<in> {CHR ''.'', CHR ''-''}) t; u = drop (length host) t;
          port = (if u \<noteq> [] \<and> hd u = CHR '':'' then takeWhile is_digit (tl u) else []);
          rest = (if port = [] then u else drop (Suc (length port)) u)
      in if ws = [] \<or> host = [] \<or> (rest \<noteq> [] \<and> \<not> ws_char (hd rest)) then None else Some rest)"

definition match_connect :: "string \<Rightarrow> (string \<times> string) option" where
  "match_connect s =
     (case find (\<lambda>code. starts_with code s) connect_codes of
        None \<Rightarrow> None
      | Some code \<Rightarrow> map_option (Pair code) (host_tail (drop (length code) s)))"

lemma host_tail_shorter: "host_tail s = Some rest \<Longrightarrow> length rest \<le> length s"
  by (auto simp: host_tail_def Let_def split: if_splits)

lemma match_connect_shorter:
  assumes "match_connect s = Some (code, rest)" shows "length rest < length s"
proof -
  from assms have f: "find (\<lambda>code. starts_with code s) connect_codes = Some code" and t: "host_tail (drop (length code) s) = Some rest"
    by (auto simp: match_connect_def split: option.splits)
  then have "code \<in> set connect_codes" "starts_with code s" unfolding find_Some_iff by (blast intro: nth_mem)+
  then have "code \<noteq> []" "starts_with code s" by (auto simp: connect_codes_def)
  then show ?thesis using host_tail_shorter [OF t] by (cases s; cases code) (auto simp: starts_with_def)
qed

text \<open>The replacement from left to right; \<open>prev\<close> says whether a word character precedes.\<close>

function redact :: "bool \<Rightarrow> string \<Rightarrow> string" where
  "redact prev [] = []"
| "redact prev (c # s) =
     (case if prev then None else match_connect (c # s) of
        Some (code, rest) \<Rightarrow> code @ '' [redacted]'' @ redact False rest
      | None \<Rightarrow> c # redact (word_char c) s)"
  by pat_completeness auto

termination
  by (relation "measure (length \<circ> snd)") (auto split: if_splits dest: match_connect_shorter)

definition redactSsrfError :: "fetch_error \<Rightarrow> string option" where
  "redactSsrfError e =
     (case e of
        SsrfBlockedError _ \<Rightarrow> Some SSRF_BLOCKED_CLIENT_MESSAGE
      | Plain_Error m \<Rightarrow> Some (redact False m)
      | _ \<Rightarrow> None)"

section \<open>Dispatchers\<close>

text \<open>What the connector is told when it asks for the address of a name: with \<open>all\<close> every vetted
  address, else the first.\<close>

definition pinnedLookup :: "lookup_address list \<Rightarrow> bool \<Rightarrow> string \<Rightarrow> lookup_address list" where
  "pinnedLookup addresses all _ = (if all then addresses else take 1 addresses)"

definition createProxyDispatcher :: "net_env \<Rightarrow> string \<Rightarrow> string list option \<Rightarrow> fetch_error + dispatcher" where
  "createProxyDispatcher env proxyUrl pinned =
     (case ne_url env proxyUrl None of
        None \<Rightarrow> Inl Invalid_Url
      | Some url \<Rightarrow>
          if url_protocol url = ''http:'' \<or> url_protocol url = ''https:'' then Inr (Http_Proxy proxyUrl)
          else if url_protocol url = ''socks4:'' \<or> url_protocol url = ''socks5:''
          then Inr (Socks_Proxy (if url_protocol url = ''socks4:'' then 4 else 5) proxyUrl pinned)
          else Inl (Plain_Error (''Unsupported proxy protocol: '' @ url_protocol url)))"

definition requestDispatcher :: "net_env \<Rightarrow> string option \<Rightarrow> lookup_address list option \<Rightarrow> fetch_error + dispatcher" where
  "requestDispatcher env proxyUrl target =
     (case proxyUrl of
        Some (c # cs) \<Rightarrow> createProxyDispatcher env (c # cs) (map_option (map la_address) target)
      | _ \<Rightarrow> Inr (case target of Some as \<Rightarrow> Pinned_Agent as | None \<Rightarrow> No_Dispatcher))"

text \<open>The destinations a SOCKS request names, in the order they are dialled; \<open>lookup4\<close> is the
  resolver asked for one IPv4 address.\<close>

definition socksDestinations :: "(string \<Rightarrow> string option) \<Rightarrow> nat \<Rightarrow> string \<Rightarrow> string list option \<Rightarrow> fetch_error + string list" where
  "socksDestinations lookup4 type hostname pinned =
     (let hosts = (case pinned of Some (a # as) \<Rightarrow> a # as | _ \<Rightarrow> [strip_brackets hostname]);
          ipv4 = filter net_isIPv4 hosts
      in if type = 5 then Inr hosts
         else if ipv4 \<noteq> [] then Inr ipv4
         else if net_isIPv6 (hd hosts)
         then Inl (Plain_Error (''A SOCKS4 proxy cannot reach the IPv6 destination '' @ join_with '', '' hosts))
         else (case lookup4 (hd hosts) of None \<Rightarrow> Inl (Plain_Error ''lookup failed'') | Some a \<Rightarrow> Inr [a]))"

text \<open>The first destination the proxy can reach.\<close>

fun connectThroughSocks :: "(string \<Rightarrow> string option) \<Rightarrow> string \<Rightarrow> string list \<Rightarrow> string + string" where
  "connectThroughSocks refused lastError [] = Inl lastError"
| "connectThroughSocks refused lastError (h # hs) =
     (case refused h of None \<Rightarrow> Inr h | Some e \<Rightarrow> connectThroughSocks refused e hs)"

definition urlFetchProxy :: "string option \<Rightarrow> string option \<Rightarrow> string option" where
  "urlFetchProxy flag sessionProxyUrl = (if flag = Some ''false'' then None else sessionProxyUrl)"

section \<open>Redirects\<close>

definition MAX_REDIRECT_HOPS :: nat where
  "MAX_REDIRECT_HOPS = 5"

definition REDIRECT_STATUSES :: "nat list" where
  "REDIRECT_STATUSES = [301, 302, 303, 307, 308]"

definition isInsecureRedirectHopAllowed :: "net_env \<Rightarrow> bool" where
  "isInsecureRedirectHopAllowed env \<longleftrightarrow> ne_insecure_hops env = Some ''true''"

text \<open>\<open>new Headers(init)\<close>: names in lower case, values of one name joined. \<open>delete\<close> ignores case.\<close>

definition add_header :: "string \<times> string \<Rightarrow> (string, string) jsmap \<Rightarrow> (string, string) jsmap" where
  "add_header e m =
     (let k = js_lower (fst e)
      in jm_set m k (case jm_get m k of Some w \<Rightarrow> w @ '', '' @ snd e | None \<Rightarrow> snd e))"

definition Headers :: "(string, string) jsmap \<Rightarrow> (string, string) jsmap" where
  "Headers init = fold add_header init []"

definition bodiless_get :: "nat \<Rightarrow> request_init \<Rightarrow> request_init" where
  "bodiless_get status init =
     (if status \<noteq> 307 \<and> status \<noteq> 308 \<and> ri_method init \<notin> {None, Some ''GET'', Some ''HEAD''}
      then init\<lparr>ri_method := Some ''GET'', ri_body := None\<rparr> else init)"

definition strip_credentials :: "(string, string) jsmap \<Rightarrow> (string, string) jsmap" where
  "strip_credentials hs = jm_del (jm_del (Headers hs) ''authorization'') ''cookie''"

definition nextRedirectHopInit :: "net_env \<Rightarrow> request_init \<Rightarrow> nat \<Rightarrow> string \<Rightarrow> string \<Rightarrow> request_init option" where
  "nextRedirectHopInit env init status nextUrl initialOrigin =
     (case ne_url env nextUrl None of
        None \<Rightarrow> None
      | Some url \<Rightarrow>
          let next = bodiless_get status init
          in Some (if url_origin url \<noteq> initialOrigin
                   then next\<lparr>ri_headers := map_option strip_credentials (ri_headers next)\<rparr> else next))"

text \<open>A request between the construction of its dispatcher and the destruction; \<open>undefined\<close> is no
  dispatcher to destroy. An unread body is settled before the sockets go.\<close>

definition with_dispatcher :: "dispatcher \<Rightarrow> fetch_event list \<Rightarrow> fetch_event list" where
  "with_dispatcher d es = (if d = No_Dispatcher then es else Built d # es @ [Destroyed d])"

definition exchange :: "net_env \<Rightarrow> nat \<Rightarrow> request \<Rightarrow> fetch_event list \<times> fetch_answer" where
  "exchange env hop req =
     (let a = ne_fetch env hop req
      in (with_dispatcher (rq_dispatcher req) (Sent req # (case a of Responds _ \<Rightarrow> [Body_Settled] | Fetch_Fails _ \<Rightarrow> [])), a))"

datatype hop_result = Hop_Done "fetch_error + response" | Hop_Next string string request_init bool

text \<open>What a turn of the loop does with the response.\<close>

definition after_response ::
  "net_env \<Rightarrow> string \<Rightarrow> nat \<Rightarrow> url \<Rightarrow> string \<Rightarrow> request_init \<Rightarrow> bool \<Rightarrow> string \<Rightarrow> response \<Rightarrow> hop_result" where
  "after_response env rawUrl hop current origin hopInit sawSecureHop currentUrl r =
     (if rs_status r \<notin> set REDIRECT_STATUSES then Hop_Done (Inr r)
      else if rs_location r \<in> {None, Some []}
      then Hop_Done (Inl (SsrfBlockedError (''Redirect from '' @ currentUrl @ '' carried no Location header'')))
      else if MAX_REDIRECT_HOPS \<le> hop
      then Hop_Done (Inl (Plain_Error (''Too many redirects while fetching '' @ rawUrl)))
      else (case ne_url env (the (rs_location r)) (Some currentUrl) of
              None \<Rightarrow> Hop_Done (Inl Invalid_Url)
            | Some next \<Rightarrow>
                (case nextRedirectHopInit env hopInit (rs_status r) (url_text next) origin of
                   None \<Rightarrow> Hop_Done (Inl Invalid_Url)
                 | Some init' \<Rightarrow> Hop_Next (url_text next) origin init' (sawSecureHop \<or> url_protocol current = ''https:''))))"

text \<open>One turn of the loop.\<close>

definition follow_hop ::
  "net_env \<Rightarrow> string option \<Rightarrow> string \<Rightarrow> nat \<Rightarrow> string \<Rightarrow> string option \<Rightarrow> request_init \<Rightarrow> bool \<Rightarrow> fetch_event list \<times> hop_result" where
  "follow_hop env proxy rawUrl hop currentUrl initialOrigin hopInit sawSecureHop =
     (case (resolveSafeFetchTarget env hop currentUrl, ne_url env currentUrl None) of
        (Inl e, _) \<Rightarrow> ([], Hop_Done (Inl e))
      | (_, None) \<Rightarrow> ([], Hop_Done (Inl Invalid_Url))
      | (Inr target, Some current) \<Rightarrow>
          let origin = (case initialOrigin of Some org \<Rightarrow> org | None \<Rightarrow> url_origin current)
          in if url_protocol current = ''http:'' \<and> sawSecureHop \<and> \<not> isInsecureRedirectHopAllowed env
             then ([], Hop_Done (Inl (Plain_Error (''Refusing redirect that downgrades from https to http: '' @ currentUrl))))
             else (case requestDispatcher env proxy target of
                     Inl e \<Rightarrow> ([], Hop_Done (Inl e))
                   | Inr d \<Rightarrow>
                       (case exchange env hop \<lparr>rq_url = current, rq_init = hopInit, rq_redirect = Manual, rq_dispatcher = d\<rparr> of
                          (es, Fetch_Fails m) \<Rightarrow> (es, Hop_Done (Inl (Plain_Error m)))
                        | (es, Responds r) \<Rightarrow>
                            (es, after_response env rawUrl hop current origin hopInit sawSecureHop currentUrl r))))"

text \<open>A turn that goes on has sent one request, to the target it vetted.\<close>

lemma after_response_next:
  assumes "after_response env raw hop current origin init saw cur r = Hop_Next url' origin' init' saw'"
  shows "hop < MAX_REDIRECT_HOPS" "origin' = origin" "saw' = (saw \<or> url_protocol current = ''https:'')"
    and "nextRedirectHopInit env init (rs_status r) url' origin = Some init'"
  using assms by (auto simp: after_response_def split: option.splits if_splits)

lemma follow_hop_cases:
  assumes "follow_hop env proxy raw hop cur initial init saw = (es, res)"
  obtains (refused) e where "es = []" "res = Hop_Done (Inl e)"
  | (sent) target current d ans origin where
      "resolveSafeFetchTarget env hop cur = Inr target" "ne_url env cur None = Some current"
      "requestDispatcher env proxy target = Inr d"
      "origin = (case initial of Some org \<Rightarrow> org | None \<Rightarrow> url_origin current)"
      "url_protocol current = ''http:'' \<and> saw \<longrightarrow> isInsecureRedirectHopAllowed env"
      "(es, ans) = exchange env hop \<lparr>rq_url = current, rq_init = init, rq_redirect = Manual, rq_dispatcher = d\<rparr>"
      "res = (case ans of Fetch_Fails m \<Rightarrow> Hop_Done (Inl (Plain_Error m))
                        | Responds r \<Rightarrow> after_response env raw hop current origin init saw cur r)"
  using assms
  by (auto simp: follow_hop_def Let_def split: sum.splits option.splits fetch_answer.splits prod.splits if_splits)

lemma follow_hop_next:
  assumes "follow_hop env proxy raw hop cur initial init saw = (es, Hop_Next url origin init' saw')"
  shows "hop < MAX_REDIRECT_HOPS"
  using assms by (cases rule: follow_hop_cases) (auto split: fetch_answer.splits dest: after_response_next(1) [OF sym])

function follow_hops ::
  "net_env \<Rightarrow> string option \<Rightarrow> string \<Rightarrow> nat \<Rightarrow> string \<Rightarrow> string option \<Rightarrow> request_init \<Rightarrow> bool \<Rightarrow> fetch_event list \<times> (fetch_error + response)" where
  "follow_hops env proxy raw hop cur initial init saw =
     (case follow_hop env proxy raw hop cur initial init saw of
        (es, Hop_Done r) \<Rightarrow> (es, r)
      | (es, Hop_Next url origin init' saw') \<Rightarrow>
          (case follow_hops env proxy raw (Suc hop) url (Some origin) init' saw' of (es', r) \<Rightarrow> (es @ es', r)))"
  by pat_completeness auto

termination
  by (relation "measure (\<lambda>(env, proxy, raw, hop, _). MAX_REDIRECT_HOPS - hop)") (auto dest!: sym follow_hop_next)

declare follow_hops.simps [simp del]

section \<open>\<open>withSafeFetch\<close>\<close>

record fetch_opts =
  fo_guard :: "bool option"
  fo_followRedirects :: bool
  fo_proxyUrl :: "string option"

text \<open>The response is handed to \<open>use\<close> exactly when the result is \<open>Inr\<close>.\<close>

definition withSafeFetch :: "net_env \<Rightarrow> string \<Rightarrow> request_init \<Rightarrow> fetch_opts \<Rightarrow> fetch_event list \<times> (fetch_error + response)" where
  "withSafeFetch env rawUrl init opts =
     (if fo_guard opts = Some False
      then (case requestDispatcher env (fo_proxyUrl opts) None of
              Inl e \<Rightarrow> ([], Inl e)
            | Inr d \<Rightarrow>
                (case ne_url env rawUrl None of
                   None \<Rightarrow> (with_dispatcher d [], Inl Invalid_Url)
                 | Some url \<Rightarrow>
                     let req = \<lparr>rq_url = url, rq_init = init,
                                rq_redirect = if ne_ssrf_redirects env = Some ''true'' then Follow else Error_Mode, rq_dispatcher = d\<rparr>
                     in (case exchange env 0 req of
                           (es, Fetch_Fails m) \<Rightarrow> (es, Inl (Plain_Error m))
                         | (es, Responds r) \<Rightarrow> (es, Inr r))))
      else if fo_followRedirects opts then follow_hops env (fo_proxyUrl opts) rawUrl 0 rawUrl None init False
      else (case resolveSafeFetchTarget env 0 rawUrl of
              Inl e \<Rightarrow> ([], Inl e)
            | Inr target \<Rightarrow>
                (case (requestDispatcher env (fo_proxyUrl opts) target, ne_url env rawUrl None) of
                   (Inr d, Some url) \<Rightarrow>
                     let req = \<lparr>rq_url = url, rq_init = init, rq_redirect = Manual, rq_dispatcher = d\<rparr>
                     in (case exchange env 0 req of
                           (es, Fetch_Fails m) \<Rightarrow> (es, Inl (Plain_Error m))
                         | (es, Responds r) \<Rightarrow>
                             (es,
                              (case assertNoRedirect r rawUrl of Some e \<Rightarrow> Inl e | None \<Rightarrow> Inr r)))
                 | (Inl e, _) \<Rightarrow> ([], Inl e)
                 | (_, None) \<Rightarrow> ([], Inl Invalid_Url))))"

section \<open>What a request contacts\<close>

text \<open>The addresses a request makes the gateway dial, or name to a SOCKS proxy. Without a dispatcher the
  host itself is dialled; a pinned name asks the connector's lookup, which a literal does not need; an
  HTTP proxy is handed the name.\<close>

definition target_host :: "request \<Rightarrow> string" where
  "target_host req = strip_brackets (url_hostname (rq_url req))"

definition contacts :: "(string \<Rightarrow> string option) \<Rightarrow> request \<Rightarrow> string list" where
  "contacts lookup4 req =
     (case rq_dispatcher req of
        No_Dispatcher \<Rightarrow> [target_host req]
      | Pinned_Agent as \<Rightarrow>
          if net_isIPv4 (target_host req) \<or> net_isIPv6 (target_host req) then [target_host req]
          else map la_address (pinnedLookup as True (target_host req))
      | Http_Proxy _ \<Rightarrow> []
      | Socks_Proxy type _ pinned \<Rightarrow>
          (case socksDestinations lookup4 type (url_hostname (rq_url req)) pinned of Inr hosts \<Rightarrow> hosts | Inl _ \<Rightarrow> []))"

definition sent :: "fetch_event list \<Rightarrow> request list" where
  "sent es = concat (map (\<lambda>e. case e of Sent r \<Rightarrow> [r] | _ \<Rightarrow> []) es)"

definition built :: "fetch_event list \<Rightarrow> dispatcher list" where
  "built es = concat (map (\<lambda>e. case e of Built d \<Rightarrow> [d] | _ \<Rightarrow> []) es)"

definition destroyed :: "fetch_event list \<Rightarrow> dispatcher list" where
  "destroyed es = concat (map (\<lambda>e. case e of Destroyed d \<Rightarrow> [d] | _ \<Rightarrow> []) es)"

lemma trace_append [simp]:
  "sent (es @ fs) = sent es @ sent fs" "built (es @ fs) = built es @ built fs" "destroyed (es @ fs) = destroyed es @ destroyed fs"
  by (simp_all add: sent_def built_def destroyed_def)

lemma trace_Nil [simp]: "sent [] = []" "built [] = []" "destroyed [] = []"
  by (simp_all add: sent_def built_def destroyed_def)

lemma exchange_trace:
  assumes "(es, a) = exchange env hop req"
  shows "sent es = [req]" "built es = destroyed es" "a = ne_fetch env hop req"
  using assms
  by (auto simp: exchange_def with_dispatcher_def Let_def sent_def built_def destroyed_def split: fetch_answer.splits if_splits)

section \<open>Vetted targets\<close>

definition vetted :: "net_env \<Rightarrow> request \<Rightarrow> bool" where
  "vetted env req \<longleftrightarrow>
     (url_protocol (rq_url req) = ''http:'' \<or> url_protocol (rq_url req) = ''https:'') \<and>
     (js_lower (target_host req) \<in> set (getAllowedHosts env)
      \<or> (\<forall>lookup4. \<forall>a \<in> set (contacts lookup4 req). \<not> isBlockedAddress a))"

lemma first_blocked_None: "first_blocked as = None \<longleftrightarrow> (\<forall>a \<in> set as. \<not> isBlockedAddress (la_address a))"
  by (induction as) auto

lemma resolve_outcome:
  assumes "resolveSafeFetchTarget env hop raw = Inr target" and "ne_url env raw None = Some url"
  shows "url_protocol url = ''http:'' \<or> url_protocol url = ''https:''"
    and "js_lower (strip_brackets (url_hostname url)) \<in> set (getAllowedHosts env)
      \<or> target = None \<and> (net_isIPv4 (strip_brackets (url_hostname url)) \<or> net_isIPv6 (strip_brackets (url_hostname url)))
          \<and> \<not> isBlockedAddress (strip_brackets (url_hostname url))
      \<or> (\<exists>as. target = Some as \<and> as \<noteq> [] \<and> \<not> net_isIPv4 (strip_brackets (url_hostname url))
          \<and> \<not> net_isIPv6 (strip_brackets (url_hostname url)) \<and> (\<forall>a \<in> set as. \<not> isBlockedAddress (la_address a)))"
  using assms
  by (auto simp: resolveSafeFetchTarget_def Let_def first_blocked_None split: if_splits sum.splits option.splits)

lemma socks_destinations_vetted:
  assumes "hosts \<noteq> []" and "\<forall>p \<in> set hosts. net_isIPv4 p \<or> net_isIPv6 p"
    and "hosts = (case pinned of Some (p # ps) \<Rightarrow> p # ps | _ \<Rightarrow> [strip_brackets hostname])"
  shows "set (case socksDestinations lookup4 type hostname pinned of Inr hs \<Rightarrow> hs | Inl _ \<Rightarrow> []) \<subseteq> set hosts"
proof -
  have "filter net_isIPv4 hosts = [] \<Longrightarrow> net_isIPv6 (hd hosts)"
    using assms(1,2) by (cases hosts) (auto split: if_splits)
  then show ?thesis unfolding socksDestinations_def assms(3) [symmetric] Let_def by auto
qed

lemma requestDispatcher_cases:
  assumes "requestDispatcher env proxy target = Inr d"
  obtains "d = No_Dispatcher" "target = None" | as where "d = Pinned_Agent as" "target = Some as" | p where "d = Http_Proxy p"
  | t p where "d = Socks_Proxy t p (map_option (map la_address) target)"
  using assms
  by (auto simp: requestDispatcher_def createProxyDispatcher_def split: option.splits list.splits if_splits)

text \<open>An unblocked address is a literal.\<close>

lemma unblocked_literal: "\<not> isBlockedAddress a \<Longrightarrow> net_isIPv4 a \<or> net_isIPv6 a"
  by (auto simp: isBlockedAddress_def net_isIPv6_def split: if_splits option.splits)

lemma dispatched_vetted:
  assumes r: "resolveSafeFetchTarget env hop raw = Inr target" and u: "ne_url env raw None = Some url"
    and d: "requestDispatcher env proxy target = Inr d"
  shows "vetted env \<lparr>rq_url = url, rq_init = init, rq_redirect = m, rq_dispatcher = d\<rparr>" (is "vetted env ?req")
proof -
  let ?host = "strip_brackets (url_hostname url)"
  note scheme = resolve_outcome(1) [OF r u]
  from resolve_outcome(2) [OF r u] consider (allowed) "js_lower ?host \<in> set (getAllowedHosts env)"
    | (literal) "target = None" "net_isIPv4 ?host \<or> net_isIPv6 ?host" "\<not> isBlockedAddress ?host"
    | (name) as where "target = Some as" "as \<noteq> []" "\<not> net_isIPv4 ?host" "\<not> net_isIPv6 ?host" "\<forall>a \<in> set as. \<not> isBlockedAddress (la_address a)"
    by blast
  then show ?thesis
  proof cases
    case allowed
    then show ?thesis using scheme by (simp add: vetted_def target_host_def)
  next
    case literal
    have socks: "set (case socksDestinations lookup4 t (url_hostname url) None of Inr hs \<Rightarrow> hs | Inl _ \<Rightarrow> []) \<subseteq> {?host}" for lookup4 t
      using socks_destinations_vetted [where hosts = "[?host]" and pinned = None] literal by simp
    from d have "set (contacts lookup4 ?req) \<subseteq> {?host}" for lookup4
      by (cases rule: requestDispatcher_cases) (use literal socks in \<open>auto simp: contacts_def target_host_def\<close>)
    then show ?thesis using scheme literal by (auto simp: vetted_def)
  next
    case name
    let ?as = "map la_address as"
    have socks: "set (case socksDestinations lookup4 t (url_hostname url) (Some ?as) of Inr hs \<Rightarrow> hs | Inl _ \<Rightarrow> []) \<subseteq> set ?as" for lookup4 t
      using name unblocked_literal by (intro socks_destinations_vetted) (auto split: list.splits)
    from d have "set (contacts lookup4 ?req) \<subseteq> set ?as" for lookup4
      by (cases rule: requestDispatcher_cases) (use name socks in \<open>auto simp: contacts_def target_host_def pinnedLookup_def\<close>)
    then show ?thesis using scheme name by (fastforce simp: vetted_def)
  qed
qed

section \<open>The loop\<close>

lemma follow_hops_turn:
  obtains (stop) es r where "follow_hop env proxy raw hop cur initial init saw = (es, Hop_Done r)"
      "follow_hops env proxy raw hop cur initial init saw = (es, r)"
  | (on) es url origin init' saw' where
      "follow_hop env proxy raw hop cur initial init saw = (es, Hop_Next url origin init' saw')" "hop < MAX_REDIRECT_HOPS"
      "follow_hops env proxy raw hop cur initial init saw
         = (es @ fst (follow_hops env proxy raw (Suc hop) url (Some origin) init' saw'),
            snd (follow_hops env proxy raw (Suc hop) url (Some origin) init' saw'))"
proof -
  obtain es res where h: "follow_hop env proxy raw hop cur initial init saw = (es, res)" by fastforce
  show ?thesis
  proof (cases res)
    case (Hop_Done r)
    with h show ?thesis by (intro stop) (simp_all add: follow_hops.simps [of env proxy raw hop])
  next
    case (Hop_Next url origin init' saw')
    with h show ?thesis
      by (intro on) (auto simp: follow_hops.simps [of env proxy raw hop] split: prod.splits dest: follow_hop_next)
  qed
qed

text \<open>A property kept by every turn that goes on holds of every request sent.\<close>

lemma follow_hops_sent:
  assumes turn: "\<And>hop cur initial init saw es res.
      I hop cur initial init saw \<Longrightarrow> follow_hop env proxy raw hop cur initial init saw = (es, res) \<Longrightarrow>
      (\<forall>r \<in> set (sent es). P r) \<and>
      (\<forall>url origin init' saw'. res = Hop_Next url origin init' saw' \<longrightarrow> I (Suc hop) url (Some origin) init' saw')"
    and "I hop cur initial init saw"
  shows "\<forall>r \<in> set (sent (fst (follow_hops env proxy raw hop cur initial init saw))). P r"
  using assms(2)
proof (induction "MAX_REDIRECT_HOPS - hop" arbitrary: hop cur initial init saw rule: less_induct)
  case less
  show ?case
  proof (cases rule: follow_hops_turn [of env proxy raw hop cur initial init saw])
    case stop
    then show ?thesis using turn [OF less.prems stop(1)] by simp
  next
    case (on es url origin init' saw')
    have "I (Suc hop) url (Some origin) init' saw'" and es: "\<forall>r \<in> set (sent es). P r"
      using turn [OF less.prems on(1)] by blast+
    then show ?thesis using less.hyps [of "Suc hop"] on(2,3) es by auto
  qed
qed

lemma turn_sends:
  assumes h: "follow_hop env proxy raw hop cur initial init saw = (es, res)"
  obtains (refused) e where "es = []" "res = Hop_Done (Inl e)"
  | (sent) r origin where
      "sent es = [r]" "built es = destroyed es" "vetted env r" "rq_init r = init" "ne_url env cur None = Some (rq_url r)"
      "url_protocol (rq_url r) = ''http:'' \<and> saw \<longrightarrow> isInsecureRedirectHopAllowed env"
      "origin = (case initial of Some org \<Rightarrow> org | None \<Rightarrow> url_origin (rq_url r))"
      "\<And>url origin' init' saw'. res = Hop_Next url origin' init' saw' \<Longrightarrow>
         origin' = origin \<and> saw' = (saw \<or> url_protocol (rq_url r) = ''https:'') \<and>
         (\<exists>status. nextRedirectHopInit env init status url origin = Some init')"
  using h
proof (cases rule: follow_hop_cases)
  case refused
  then show ?thesis by (rule that(1))
next
  case (sent target current d ans origin)
  let ?r = "\<lparr>rq_url = current, rq_init = init, rq_redirect = Manual, rq_dispatcher = d\<rparr>"
  show ?thesis
  proof (rule that(2))
    show "sent es = [?r]" "built es = destroyed es" using exchange_trace [OF sent(6)] by simp_all
    show "vetted env ?r" using sent(1-3) by (rule dispatched_vetted)
    show "origin' = origin \<and> saw' = (saw \<or> url_protocol (rq_url ?r) = ''https:'') \<and>
        (\<exists>status. nextRedirectHopInit env init status url origin = Some init')"
      if q: "res = Hop_Next url origin' init' saw'" for url origin' init' saw'
    proof -
      obtain r where "after_response env raw hop current origin init saw cur r = Hop_Next url origin' init' saw'"
        using q sent(7) by (cases ans) auto
      from after_response_next(2-4) [OF this] show ?thesis by auto
    qed
    show "origin = (case initial of Some org \<Rightarrow> org | None \<Rightarrow> url_origin (rq_url ?r))"
      using sent(4) by (simp cong: option.case_cong)
  qed (use sent(2,5) in simp_all)
qed

lemma follow_hops_bounds:
  "length (sent (fst (follow_hops env proxy raw hop cur initial init saw))) \<le> Suc (MAX_REDIRECT_HOPS - hop)
   \<and> built (fst (follow_hops env proxy raw hop cur initial init saw)) = destroyed (fst (follow_hops env proxy raw hop cur initial init saw))"
proof (induction "MAX_REDIRECT_HOPS - hop" arbitrary: hop cur initial init saw rule: less_induct)
  case less
  show ?case
  proof (cases rule: follow_hops_turn [of env proxy raw hop cur initial init saw])
    case (stop es r)
    from stop(1) show ?thesis by (cases rule: turn_sends) (simp_all add: stop(2))
  next
    case (on es url origin init' saw')
    have ih: "length (sent (fst (follow_hops env proxy raw (Suc hop) url (Some origin) init' saw'))) \<le> Suc (MAX_REDIRECT_HOPS - Suc hop)
        \<and> built (fst (follow_hops env proxy raw (Suc hop) url (Some origin) init' saw'))
          = destroyed (fst (follow_hops env proxy raw (Suc hop) url (Some origin) init' saw'))"
      using on(2) by (intro less.hyps) auto
    from on(1) have "length (sent es) = 1 \<and> built es = destroyed es" by (cases rule: turn_sends) simp_all
    with ih on(2) show ?thesis unfolding on(3) by auto
  qed
qed

text \<open>Once a hop was secure, no later one is plain.\<close>

definition downgrades :: "request \<Rightarrow> request \<Rightarrow> bool" where
  "downgrades a b \<longleftrightarrow> url_protocol (rq_url a) = ''https:'' \<and> url_protocol (rq_url b) = ''http:''"

lemma follow_hops_secure:
  assumes "\<not> isInsecureRedirectHopAllowed env" and saw
  shows "\<forall>r \<in> set (sent (fst (follow_hops env proxy raw hop cur initial init saw))). url_protocol (rq_url r) \<noteq> ''http:''"
proof (rule follow_hops_sent [where I = "\<lambda>_ _ _ _ saw. saw"])
  fix hop cur initial init saw es res
  assume saw and h: "follow_hop env proxy raw hop cur initial init saw = (es, res)"
  from h show "(\<forall>r \<in> set (sent es). url_protocol (rq_url r) \<noteq> ''http:'') \<and>
      (\<forall>url origin init' saw'. res = Hop_Next url origin init' saw' \<longrightarrow> saw')"
    by (cases rule: turn_sends) (use assms(1) \<open>saw\<close> in auto)
qed fact

lemma follow_hops_no_downgrade:
  assumes "\<not> isInsecureRedirectHopAllowed env"
  shows "sorted_wrt (\<lambda>a b. \<not> downgrades a b) (sent (fst (follow_hops env proxy raw hop cur initial init saw)))"
proof (induction "MAX_REDIRECT_HOPS - hop" arbitrary: hop cur initial init saw rule: less_induct)
  case less
  show ?case
  proof (cases rule: follow_hops_turn [of env proxy raw hop cur initial init saw])
    case (stop es r)
    from stop(1) show ?thesis by (cases rule: turn_sends) (simp_all add: stop(2))
  next
    case (on es url origin init' saw')
    let ?rest = "follow_hops env proxy raw (Suc hop) url (Some origin) init' saw'"
    have ih: "sorted_wrt (\<lambda>a b. \<not> downgrades a b) (sent (fst ?rest))" using less.hyps [of "Suc hop"] on(2) by auto
    from on(1) show ?thesis
    proof (cases rule: turn_sends)
      case (sent r origin)
      have "\<not> downgrades r b" if "b \<in> set (sent (fst ?rest))" for b
        using that sent(8) [OF refl] follow_hops_secure [OF assms, of saw' proxy raw "Suc hop" url "Some origin" init']
        by (auto simp: downgrades_def)
      then show ?thesis using ih sent(1) on(3) by simp
    qed simp
  qed
qed

section \<open>Credentials\<close>

definition carries_credentials :: "request_init \<Rightarrow> bool" where
  "carries_credentials init \<longleftrightarrow>
     (\<exists>k \<in> fst ` set (case ri_headers init of Some hs \<Rightarrow> hs | None \<Rightarrow> []). js_lower k \<in> {''authorization'', ''cookie''})"

lemma add_header_keys: "fst ` set (add_header e m) = insert (js_lower (fst e)) (fst ` set m)"
  by (simp add: add_header_def Let_def keys_set_jm_set)

lemma Headers_lower: "k \<in> fst ` set (Headers hs) \<Longrightarrow> js_lower k = k"
proof -
  have "fst ` set (fold add_header hs m) \<subseteq> js_lower ` UNIV \<union> fst ` set m" for m
  proof (induction hs arbitrary: m)
    case (Cons e hs)
    then show ?case using add_header_keys [of e m] unfolding fold_simps(2) by blast
  qed simp
  from this [of "[]"] show "k \<in> fst ` set (Headers hs) \<Longrightarrow> js_lower k = k" unfolding Headers_def by auto
qed

lemma stripped_clean: "\<not> carries_credentials (init\<lparr>ri_headers := map_option strip_credentials h\<rparr>)"
  using Headers_lower
  by (cases h) (force simp: carries_credentials_def strip_credentials_def jm_del_def)+

lemma bodiless_headers [simp]: "ri_headers (bodiless_get status init) = ri_headers init"
  by (simp add: bodiless_get_def)

lemma carries_bodiless [simp]: "carries_credentials (bodiless_get status init) = carries_credentials init"
  by (simp add: carries_credentials_def)

lemma next_init_credentials:
  assumes "nextRedirectHopInit env init status url origin = Some init'" and "carries_credentials init'"
  shows "carries_credentials init" and "\<exists>u. ne_url env url None = Some u \<and> url_origin u = origin"
  using assms stripped_clean [where h = "ri_headers init"]
  by (auto simp: nextRedirectHopInit_def Let_def split: option.splits if_splits)

section \<open>Properties\<close>

lemma follow_hops_vetted: "\<forall>r \<in> set (sent (fst (follow_hops env proxy raw hop cur initial init saw))). vetted env r"
proof (rule follow_hops_sent [where I = "\<lambda>_ _ _ _ _. True"])
  fix hop cur initial init saw es res
  assume "follow_hop env proxy raw hop cur initial init saw = (es, res)"
  then show "(\<forall>r \<in> set (sent es). vetted env r) \<and> (\<forall>url origin init' saw'. res = Hop_Next url origin init' saw' \<longrightarrow> True)"
    by (cases rule: turn_sends) simp_all
qed simp


text \<open>The escape hatch does not unpin: an allowed host goes out pinned to the addresses it had, not
  unpinned.\<close>

lemma allowed_target_is_pinned:
  assumes "resolveSafeFetchTarget env hop raw = Inr target" and "ne_url env raw None = Some url"
    and "js_lower (strip_brackets (url_hostname url)) \<in> set (getAllowedHosts env)"
  shows "\<exists>as. target = Some as"
  using assms by (cases "lookupWithDeadline env hop (strip_brackets (url_hostname url))") (auto simp: resolveSafeFetchTarget_def Let_def split: if_splits)

text \<open>The redirect loop ends and leaves nothing open: one call sends at most six requests, the
  dispatchers it destroys are exactly those it built, and unless the operator allowed it no plain http
  request follows an https one.\<close>

theorem redirects_bounded_and_secure:
  "length (sent (fst (withSafeFetch env raw init opts))) \<le> 6
   \<and> built (fst (withSafeFetch env raw init opts)) = destroyed (fst (withSafeFetch env raw init opts))
   \<and> (isInsecureRedirectHopAllowed env
      \<or> sorted_wrt (\<lambda>a b. url_protocol (rq_url a) = ''https:'' \<longrightarrow> url_protocol (rq_url b) \<noteq> ''http:'')
          (sent (fst (withSafeFetch env raw init opts))))"
proof (cases "fo_guard opts \<noteq> Some False \<and> fo_followRedirects opts")
  case True
  then have "withSafeFetch env raw init opts = follow_hops env (fo_proxyUrl opts) raw 0 raw None init False"
    by (simp add: withSafeFetch_def)
  then show ?thesis
    using follow_hops_bounds [of env "fo_proxyUrl opts" raw 0 raw None init False]
      follow_hops_no_downgrade [of env "fo_proxyUrl opts" raw 0 raw None init False]
    by (auto simp: MAX_REDIRECT_HOPS_def downgrades_def)
next
  case False
  let ?es = "fst (withSafeFetch env raw init opts)"
  have tr: "sent (with_dispatcher d []) = [] \<and> built (with_dispatcher d []) = destroyed (with_dispatcher d [])" for d
    by (simp add: with_dispatcher_def sent_def built_def destroyed_def)
  have "length (sent ?es) \<le> 1 \<and> built ?es = destroyed ?es"
    using False by (auto simp: withSafeFetch_def Let_def tr exchange_trace [OF sym]
        split: sum.splits option.splits prod.splits fetch_answer.splits)
  moreover from this have "sent ?es = [] \<or> (\<exists>r. sent ?es = [r])" by (cases "sent ?es") auto
  ultimately show ?thesis by auto
qed

text \<open>C27. Credentials stay with the origin they were given for: on a guarded download no request to
  another origin than that of the first URL carries an authorization or cookie header, in any spelling.\<close>

theorem credentials_stay_at_origin:
  assumes "fo_guard opts \<noteq> Some False" and "fo_followRedirects opts" and "ne_url env raw None = Some first"
    and "r \<in> set (sent (fst (withSafeFetch env raw init opts)))" and "url_origin (rq_url r) \<noteq> url_origin first"
  shows "\<forall>k \<in> fst ` set (case ri_headers (rq_init r) of Some hs \<Rightarrow> hs | None \<Rightarrow> []). js_lower k \<notin> {''authorization'', ''cookie''}"
proof -
  let ?I = "\<lambda>(hop::nat) cur initial init (saw::bool). initial \<in> {None, Some (url_origin first)} \<and> (initial = None \<longrightarrow> cur = raw) \<and>
      (carries_credentials init \<longrightarrow> (\<exists>u. ne_url env cur None = Some u \<and> url_origin u = url_origin first))"
  have "\<forall>r \<in> set (sent (fst (follow_hops env (fo_proxyUrl opts) raw 0 raw None init False))).
      carries_credentials (rq_init r) \<longrightarrow> url_origin (rq_url r) = url_origin first"
  proof (rule follow_hops_sent [where I = ?I])
    fix hop cur initial init saw es res
    assume I: "?I hop cur initial init saw" and h: "follow_hop env (fo_proxyUrl opts) raw hop cur initial init saw = (es, res)"
    from h show "(\<forall>r \<in> set (sent es). carries_credentials (rq_init r) \<longrightarrow> url_origin (rq_url r) = url_origin first) \<and>
        (\<forall>url origin init' saw'. res = Hop_Next url origin init' saw' \<longrightarrow> ?I (Suc hop) url (Some origin) init' saw')"
    proof (cases rule: turn_sends)
      case (sent r origin)
      have "origin = url_origin first" using I sent(5,7) assms(3) by (auto split: option.splits)
      have next': "origin' = url_origin first \<and>
          (carries_credentials init' \<longrightarrow> (\<exists>u. ne_url env url None = Some u \<and> url_origin u = url_origin first))"
        if q: "res = Hop_Next url origin' init' saw'" for url origin' init' saw'
      proof -
        obtain status where "origin' = url_origin first" "nextRedirectHopInit env init status url (url_origin first) = Some init'"
          using sent(8) [OF q] \<open>origin = url_origin first\<close> by auto
        then show ?thesis using next_init_credentials(2) by simp
      qed
      have "carries_credentials (rq_init r) \<longrightarrow> url_origin (rq_url r) = url_origin first" using I sent(4,5) by auto
      then show ?thesis using sent(1) by (auto dest!: next')
    qed simp
  qed (use assms(3) in auto)
  then show ?thesis using assms by (auto simp: withSafeFetch_def carries_credentials_def)
qed

section \<open>Witnesses\<close>

text \<open>A download that is redirected to another host.\<close>

definition demo_url :: "string \<Rightarrow> string option \<Rightarrow> url option" where
  "demo_url s base =
     (if s = ''https://a/'' then Some \<lparr>url_text = s, url_protocol = ''https:'', url_hostname = ''a'', url_origin = ''https://a''\<rparr>
      else if s = ''https://b/'' then Some \<lparr>url_text = s, url_protocol = ''https:'', url_hostname = ''b'', url_origin = ''https://b''\<rparr>
      else None)"

definition demo_env :: net_env where
  "demo_env =
     \<lparr>ne_allowed_hosts = None, ne_dns_timeout = None, ne_insecure_hops = None, ne_ssrf_redirects = None, ne_url = demo_url,
      ne_aborted = (\<lambda>_. False), ne_lookup = (\<lambda>_ _. Lookup_Answers [\<lparr>la_address = ''8.8.8.8'', la_family = 4\<rparr>]),
      ne_aborted_late = (\<lambda>_. False),
      ne_fetch = (\<lambda>hop _. Responds (if hop = 0 then \<lparr>rs_status = 302, rs_type = [], rs_location = Some ''https://b/''\<rparr>
                                  else \<lparr>rs_status = 200, rs_type = [], rs_location = None\<rparr>))\<rparr>"

definition demo_request :: request where
  "demo_request =
     last (sent (fst (withSafeFetch demo_env ''https://a/''
       \<lparr>ri_method = None, ri_headers = Some [(''Authorization'', ''s''), (''Accept'', ''*'')], ri_body = None\<rparr>
       \<lparr>fo_guard = None, fo_followRedirects = True, fo_proxyUrl = None\<rparr>)))"

lemma demo_facts:
  "sent (fst (withSafeFetch demo_env ''https://a/''
       \<lparr>ri_method = None, ri_headers = Some [(''Authorization'', ''s''), (''Accept'', ''*'')], ri_body = None\<rparr>
       \<lparr>fo_guard = None, fo_followRedirects = True, fo_proxyUrl = None\<rparr>)) \<noteq> []"
  "url_origin (rq_url demo_request) = ''https://b''" "getAllowedHosts demo_env = []"
  "contacts (\<lambda>_. None) demo_request = [''8.8.8.8'']" "ri_headers (rq_init demo_request) = Some [(''accept'', ''*'')]"
  by code_simp+


lemma credentials_stay_at_origin_witness:
  "fst ` set (case ri_headers (rq_init demo_request) of Some hs \<Rightarrow> hs | None \<Rightarrow> []) = {''accept''} \<and> js_lower ''accept'' \<noteq> ''authorization''"
proof -
  have "demo_url ''https://a/'' None = Some \<lparr>url_text = ''https://a/'', url_protocol = ''https:'', url_hostname = ''a'', url_origin = ''https://a''\<rparr>"
    "ne_url demo_env = demo_url" by (simp_all add: demo_url_def demo_env_def)
  then show ?thesis
    using credentials_stay_at_origin [OF _ _ _ last_in_set [OF demo_facts(1)], folded demo_request_def] demo_facts(2,5) by simp
qed

text \<open>What the redaction lets through: a refused connection to an IPv4 address loses the address, one
  to an IPv6 address keeps it, because the expression has no place for the colons.\<close>

theorem ipv6_address_is_not_redacted:
  "redactSsrfError (Plain_Error ''connect ECONNREFUSED 10.0.0.1:443'') = Some ''connect ECONNREFUSED [redacted]''
   \<and> redactSsrfError (Plain_Error ''connect ECONNREFUSED fd00::1:443'') = Some ''connect ECONNREFUSED fd00::1:443''"
  by code_simp

lemma redirects_bounded_and_secure_witness:
  "sorted_wrt (\<lambda>a b. url_protocol (rq_url a) = ''https:'' \<longrightarrow> url_protocol (rq_url b) \<noteq> ''http:'')
     (sent (fst (withSafeFetch demo_env ''https://a/''
       \<lparr>ri_method = None, ri_headers = Some [(''Authorization'', ''s''), (''Accept'', ''*'')], ri_body = None\<rparr>
       \<lparr>fo_guard = None, fo_followRedirects = True, fo_proxyUrl = None\<rparr>)))
   \<and> \<not> isInsecureRedirectHopAllowed demo_env"
proof -
  have "\<not> isInsecureRedirectHopAllowed demo_env" by (simp add: isInsecureRedirectHopAllowed_def demo_env_def)
  then show ?thesis using redirects_bounded_and_secure by blast
qed

end
