(* ===== verification/Messages.thy ===== *)
theory Messages
  imports Json Env_Options
begin

text \<open>
  The messages table and everything that writes it: the projection of engine events
  (src/src/modules/session/message-projector.service.ts and its helpers), the send path
  (src/src/modules/message/message-send.service.ts) and the reaper of pending rows
  (src/src/modules/message/pending-message-reaper.service.ts). A step is one statement on the table, so
  that the writers interleave as they do in the program; between its statements a send, a sweep or a
  queued mutation is a value of the state. Of the row the columns no statement reads back (names,
  author, archive) are left out. Faults of the database, liveness of the engine and the clock come with
  the event.
\<close>

section \<open>Status\<close>

datatype message_status = PENDING | SENT | DELIVERED | READ | FAILED

datatype delivery_status = DS_pending | DS_sent | DS_delivered | DS_read | DS_failed

fun deliveryStatusToMessageStatus :: "delivery_status \<Rightarrow> message_status option" where
  "deliveryStatusToMessageStatus DS_failed = Some FAILED"
| "deliveryStatusToMessageStatus DS_read = Some READ"
| "deliveryStatusToMessageStatus DS_delivered = Some DELIVERED"
| "deliveryStatusToMessageStatus _ = None"

fun deliveryStatusToAck :: "delivery_status \<Rightarrow> int" where
  "deliveryStatusToAck DS_failed = -1"
| "deliveryStatusToAck DS_read = 3"
| "deliveryStatusToAck DS_delivered = 2"
| "deliveryStatusToAck DS_sent = 1"
| "deliveryStatusToAck DS_pending = 0"

fun ackStatusTransitionFrom :: "message_status \<Rightarrow> message_status list" where
  "ackStatusTransitionFrom DELIVERED = [PENDING, SENT]"
| "ackStatusTransitionFrom READ = [PENDING, SENT, DELIVERED]"
| "ackStatusTransitionFrom FAILED = [PENDING, SENT]"
| "ackStatusTransitionFrom _ = []"

section \<open>Rows\<close>

datatype direction = INCOMING | OUTGOING

record message_row =
  mr_id :: nat
  mr_sessionId :: string
  mr_waMessageId :: "string option"
  mr_chatId :: string
  mr_from :: string
  mr_to :: string
  mr_body :: string
  mr_type :: string
  mr_direction :: direction
  mr_timestamp :: "int option"
  mr_status :: message_status
  mr_metadata :: "payload option"
  mr_createdAt :: millis

record incoming =
  im_id :: string
  im_chatId :: string
  im_from :: string
  im_to :: string
  im_body :: string
  im_type :: string
  im_fromMe :: bool
  im_timestamp :: int
  im_isStatusBroadcast :: bool
  im_ephemeralDuration :: "int option"
  im_media :: "payload option"
  im_quotedMessage :: "payload option"
  im_call :: "payload option"
  im_buttons :: "jsval list"

definition MEDIA_MESSAGE_TYPES :: "string list" where
  "MEDIA_MESSAGE_TYPES = [''image'', ''video'', ''audio'', ''voice'', ''sticker'', ''document'']"

definition OMITTED_MEDIA :: payload where
  "OMITTED_MEDIA = [(''mimetype'', JStr ''''), (''omitted'', JBool True)]"

definition opt_member :: "string \<Rightarrow> payload option \<Rightarrow> payload" where
  "opt_member k v = (case v of Some o1 \<Rightarrow> [(k, JObj o1)] | None \<Rightarrow> [])"

definition buildMessageMetadata :: "incoming \<Rightarrow> bool \<Rightarrow> payload option" where
  "buildMessageMetadata m synthesize =
     (let media = (case im_media m of
                     Some md \<Rightarrow> Some md
                   | None \<Rightarrow> if synthesize \<and> im_type m \<in> set MEDIA_MESSAGE_TYPES then Some OMITTED_MEDIA else None);
          metadata = opt_member ''media'' media @ opt_member ''quotedMessage'' (im_quotedMessage m) @ opt_member ''call'' (im_call m)
                       @ (if im_buttons m \<noteq> [] then [(''buttons'', JArr (im_buttons m))] else [])
      in if metadata = [] then None else Some metadata)"

definition storableWaMessageId :: "string \<Rightarrow> string option" where
  "storableWaMessageId i = (if i = [] then None else Some i)"

definition is_ephemeral :: "incoming \<Rightarrow> bool" where
  "is_ephemeral m \<longleftrightarrow> (case im_ephemeralDuration m of Some d \<Rightarrow> 0 < d | None \<Rightarrow> False)"

definition row_of :: "string \<Rightarrow> incoming \<Rightarrow> direction \<Rightarrow> bool \<Rightarrow> millis \<Rightarrow> message_row" where
  "row_of sid m dir synthesize createdAt =
     \<lparr>mr_id = 0, mr_sessionId = sid, mr_waMessageId = storableWaMessageId (im_id m), mr_chatId = im_chatId m, mr_from = im_from m,
      mr_to = im_to m, mr_body = im_body m, mr_type = im_type m, mr_direction = dir, mr_timestamp = Some (im_timestamp m),
      mr_status = SENT, mr_metadata = buildMessageMetadata m synthesize, mr_createdAt = createdAt\<rparr>"

section \<open>State\<close>

datatype send_phase = Sending | Merging string int | Dropping string | Settled

record send_flow =
  sf_entity :: message_row
  sf_phase :: send_phase

datatype mutation = React string string | Write_Metadata payload | Edit_Inbound string | Edit_Outbound string

record message_store =
  ms_rows :: "message_row list"
  ms_next :: nat
  ms_flows :: "send_flow list"
  ms_retries :: "(string \<times> string \<times> message_status) list"  \<comment> \<open>armed ack timers\<close>
  ms_reaping :: "message_row list"                          \<comment> \<open>read by the sweep, not yet written\<close>
  ms_chains :: "((string \<times> string) \<times> mutation list) list"    \<comment> \<open>the mutation queue, by message\<close>
  ms_log :: "(string \<times> string \<times> string) list"               \<comment> \<open>dispatched: event, session, message id\<close>

definition empty_store :: message_store where
  "empty_store = \<lparr>ms_rows = [], ms_next = 0, ms_flows = [], ms_retries = [], ms_reaping = [], ms_chains = [], ms_log = []\<rparr>"

subsection \<open>Statements\<close>

text \<open>The unique index on \<open>(sessionId, waMessageId)\<close>, which exempts NULL.\<close>

definition names_message :: "string \<Rightarrow> string \<Rightarrow> message_row \<Rightarrow> bool" where
  "names_message sid wa r \<longleftrightarrow> mr_sessionId r = sid \<and> mr_waMessageId r = Some wa"

definition unique_violation :: "message_row \<Rightarrow> message_row list \<Rightarrow> bool" where
  "unique_violation r rows \<longleftrightarrow>
     (case mr_waMessageId r of
        None \<Rightarrow> False
      | Some wa \<Rightarrow> list_ex (\<lambda>x. mr_id x \<noteq> mr_id r \<and> names_message (mr_sessionId r) wa x) rows)"

definition insert_row :: "message_row \<Rightarrow> message_store \<Rightarrow> message_store option" where
  "insert_row r s =
     (let r' = r\<lparr>mr_id := ms_next s\<rparr>
      in if unique_violation r' (ms_rows s) then None
         else Some (s\<lparr>ms_rows := ms_rows s @ [r'], ms_next := Suc (ms_next s)\<rparr>))"

definition update_rows :: "(message_row \<Rightarrow> bool) \<Rightarrow> (message_row \<Rightarrow> message_row) \<Rightarrow> message_store \<Rightarrow> message_store" where
  "update_rows P f s = s\<lparr>ms_rows := map (\<lambda>r. if P r then f r else r) (ms_rows s)\<rparr>"

definition affected :: "(message_row \<Rightarrow> bool) \<Rightarrow> message_store \<Rightarrow> nat" where
  "affected P s = length (filter P (ms_rows s))"

definition log_event :: "string \<Rightarrow> string \<Rightarrow> string \<Rightarrow> message_store \<Rightarrow> message_store" where
  "log_event ev sid wa s = s\<lparr>ms_log := ms_log s @ [(ev, sid, wa)]\<rparr>"

section \<open>Engine events\<close>

definition shouldSkipEphemeralMessage :: "bool \<Rightarrow> incoming \<Rightarrow> bool" where
  "shouldSkipEphemeralMessage storeEphemeral m \<longleftrightarrow> \<not> storeEphemeral \<and> is_ephemeral m"

datatype persist_outcome = Persisted | Not_Stored | Stop_Pipeline

definition persistInboundMessage :: "string \<Rightarrow> bool \<Rightarrow> bool \<Rightarrow> millis \<Rightarrow> incoming \<Rightarrow> message_store \<Rightarrow> persist_outcome \<times> message_store" where
  "persistInboundMessage sid live fault now m s =
     (if \<not> live then (Stop_Pipeline, s)
      else if fault then (Not_Stored, s)
      else (case insert_row (row_of sid m (if im_fromMe m then OUTGOING else INCOMING) False now) s of
              None \<Rightarrow> (Stop_Pipeline, s)
            | Some s' \<Rightarrow> (Persisted, s')))"

text \<open>\<open>live\<close> and \<open>liveLater\<close> are the checks before and after the hook chain, \<open>m\<close> the message as the engine
  fires it and \<open>final\<close> as the chain returns it.\<close>

definition handleInboundMessage ::
  "string \<Rightarrow> bool \<Rightarrow> bool \<Rightarrow> bool \<Rightarrow> bool \<Rightarrow> millis \<Rightarrow> incoming \<Rightarrow> incoming \<Rightarrow> message_store \<Rightarrow> message_store" where
  "handleInboundMessage sid storeEphemeral live liveLater fault now m final s =
     (if \<not> live \<or> im_isStatusBroadcast m \<or> shouldSkipEphemeralMessage storeEphemeral m then s
      else (case persistInboundMessage sid liveLater fault now final s of
              (Stop_Pipeline, s') \<Rightarrow> s'
            | (_, s') \<Rightarrow> log_event ''message.received'' sid (im_id final) s'))"

definition handleOwnSendEcho ::
  "string \<Rightarrow> bool \<Rightarrow> bool \<Rightarrow> bool \<Rightarrow> bool \<Rightarrow> millis \<Rightarrow> incoming \<Rightarrow> incoming \<Rightarrow> message_store \<Rightarrow> message_store" where
  "handleOwnSendEcho sid storeEphemeral live liveLater fault now m final s =
     (if \<not> live \<or> \<not> im_fromMe m \<or> im_isStatusBroadcast m then s
      else if \<not> shouldSkipEphemeralMessage storeEphemeral final
      then if \<not> liveLater then s
           else log_event ''message.sent'' sid (im_id final)
                  (if fault then s
                   else (case insert_row (row_of sid final OUTGOING True now) s of Some s' \<Rightarrow> s' | None \<Rightarrow> s))
      else log_event ''message.sent'' sid (im_id final) s)"

definition advance_rows :: "string \<Rightarrow> string \<Rightarrow> message_status \<Rightarrow> message_row \<Rightarrow> bool" where
  "advance_rows sid wa target r \<longleftrightarrow> names_message sid wa r \<and> mr_status r \<in> set (ackStatusTransitionFrom target)"

definition advanceAck :: "string \<Rightarrow> string \<Rightarrow> message_status \<Rightarrow> message_store \<Rightarrow> message_store" where
  "advanceAck sid wa target s = update_rows (advance_rows sid wa target) (\<lambda>r. r\<lparr>mr_status := target\<rparr>) s"

definition handleMessageAck :: "string \<Rightarrow> bool \<Rightarrow> bool \<Rightarrow> string \<Rightarrow> delivery_status \<Rightarrow> message_store \<Rightarrow> message_store" where
  "handleMessageAck sid live fault wa status s =
     (if \<not> live then s
      else let s1 = (case deliveryStatusToMessageStatus status of
                       None \<Rightarrow> s
                     | Some target \<Rightarrow>
                         if fault then s
                         else if affected (advance_rows sid wa target) s > 0 then advanceAck sid wa target s
                         else s\<lparr>ms_retries := ms_retries s @ [(sid, wa, target)]\<rparr>);
               s2 = log_event ''message.ack'' sid wa s1
        in if status = DS_failed then log_event ''message.failed'' sid wa s2 else s2)"

text \<open>The timer of the \<open>i\<close>-th ack that matched no row: it is retried once.\<close>

definition ack_retry :: "nat \<Rightarrow> message_store \<Rightarrow> message_store" where
  "ack_retry i s =
     (if i < length (ms_retries s)
      then (case ms_retries s ! i of
              (sid, wa, target) \<Rightarrow> (advanceAck sid wa target s)\<lparr>ms_retries := take i (ms_retries s) @ drop (Suc i) (ms_retries s)\<rparr>)
      else s)"

definition handleMessageRevoked :: "string \<Rightarrow> bool \<Rightarrow> bool \<Rightarrow> string \<Rightarrow> string option \<Rightarrow> message_store \<Rightarrow> message_store" where
  "handleMessageRevoked sid live fault i revokedId s =
     (if \<not> live then s
      else log_event ''message.revoked'' sid i
             (if fault then s
              else update_rows (names_message sid (case revokedId of Some r \<Rightarrow> r | None \<Rightarrow> i)) (\<lambda>r. r\<lparr>mr_body := [], mr_type := ''revoked''\<rparr>) s))"

subsection \<open>History\<close>

definition history_candidate :: "bool \<Rightarrow> incoming \<Rightarrow> bool" where
  "history_candidate storeEphemeral m \<longleftrightarrow>
     \<not> (im_id m = [] \<or> im_isStatusBroadcast m \<or> im_chatId m = [] \<or> im_from m = [] \<or> im_to m = [])
     \<and> \<not> (\<not> storeEphemeral \<and> is_ephemeral m)"

definition history_row :: "string \<Rightarrow> millis \<Rightarrow> incoming \<Rightarrow> message_row" where
  "history_row sid now m =
     row_of sid m (if im_fromMe m then OUTGOING else INCOMING) True (if im_timestamp m = 0 then now else im_timestamp m * 1000)"

definition insert_or_ignore :: "message_row \<Rightarrow> message_store \<Rightarrow> message_store" where
  "insert_or_ignore r s = (case insert_row r s of Some s' \<Rightarrow> s' | None \<Rightarrow> s)"

text \<open>The rows already there are left out before the insert, and the insert ignores conflicts.\<close>

definition persistHistoryMessages :: "string \<Rightarrow> bool \<Rightarrow> millis \<Rightarrow> incoming list \<Rightarrow> message_store \<Rightarrow> message_store" where
  "persistHistoryMessages sid storeEphemeral now ms s =
     (let byId = fold (\<lambda>m acc. jm_set acc (im_id m) m) (filter (history_candidate storeEphemeral) ms) []
      in fold (\<lambda>(i, m) st. insert_or_ignore (history_row sid now m) st) byId s)"

subsection \<open>Queued mutations\<close>

definition chain_of :: "message_store \<Rightarrow> string \<times> string \<Rightarrow> mutation list" where
  "chain_of s k = (case jm_get (ms_chains s) k of Some ws \<Rightarrow> ws | None \<Rightarrow> [])"

definition enqueueMessageMutation :: "string \<Rightarrow> string \<Rightarrow> mutation \<Rightarrow> message_store \<Rightarrow> message_store" where
  "enqueueMessageMutation sid wa w s = s\<lparr>ms_chains := jm_set (ms_chains s) (sid, wa) (chain_of s (sid, wa) @ [w])\<rparr>"

text \<open>The next work of a chain; the entry goes when the chain has drained.\<close>

definition set_chain :: "string \<times> string \<Rightarrow> mutation list \<Rightarrow> message_store \<Rightarrow> message_store" where
  "set_chain k ws s = s\<lparr>ms_chains := if ws = [] then jm_del (ms_chains s) k else jm_set (ms_chains s) k ws\<rparr>"

definition react :: "string \<Rightarrow> string \<Rightarrow> payload \<Rightarrow> payload" where
  "react sender reaction metadata =
     (let reactions = (case field_of metadata ''reactions'' of JObj fs \<Rightarrow> fs | _ \<Rightarrow> [])
      in set_field metadata ''reactions''
           (JObj (if reaction = [] then jm_del reactions sender else set_field reactions sender (JStr reaction))))"

text \<open>One statement of the work at the head: a reaction reads the row, then writes its metadata.\<close>

definition mutation_step :: "string \<Rightarrow> string \<Rightarrow> bool \<Rightarrow> message_store \<Rightarrow> message_store" where
  "mutation_step sid wa fault s =
     (case chain_of s (sid, wa) of
        [] \<Rightarrow> s
      | React sender reaction # ws \<Rightarrow>
          if wa = [] \<or> fault then set_chain (sid, wa) ws s
          else (case find (names_message sid wa) (ms_rows s) of
                  None \<Rightarrow> log_event ''message.reaction'' sid wa (set_chain (sid, wa) ws s)
                | Some r \<Rightarrow>
                    set_chain (sid, wa)
                      (Write_Metadata (react sender reaction (case mr_metadata r of Some md \<Rightarrow> md | None \<Rightarrow> [])) # ws) s)
      | Write_Metadata md # ws \<Rightarrow>
          if fault then set_chain (sid, wa) ws s
          else log_event ''message.reaction'' sid wa
                 (set_chain (sid, wa) ws (update_rows (names_message sid wa) (\<lambda>r. r\<lparr>mr_metadata := Some md\<rparr>) s))
      | Edit_Inbound body # ws \<Rightarrow>
          log_event ''message.edited'' sid wa
            (set_chain (sid, wa) ws
              (if fault then s else update_rows (names_message sid wa) (\<lambda>r. r\<lparr>mr_body := body\<rparr>) s))
      | Edit_Outbound body # ws \<Rightarrow>
          set_chain (sid, wa) ws
            (if fault then s else update_rows (names_message sid wa) (\<lambda>r. r\<lparr>mr_body := body\<rparr>) s))"

subsection \<open>Sending\<close>

definition isUrlPointerMetadata :: "payload option \<Rightarrow> bool" where
  "isUrlPointerMetadata metadata =
     (case metadata of
        None \<Rightarrow> False
      | Some md \<Rightarrow>
          (case field_of md ''media'' of
             JObj m \<Rightarrow>
               (case field_of m ''data'' of
                  JStr d \<Rightarrow> starts_with ''http://'' (js_lower d) \<or> starts_with ''https://'' (js_lower d)
                | _ \<Rightarrow> False)
           | _ \<Rightarrow> False))"

record save_data =
  sd_waMessageId :: "string option"
  sd_chatId :: string
  sd_body :: string
  sd_type :: string
  sd_timestamp :: "int option"
  sd_status :: message_status
  sd_metadata :: "payload option"

definition outgoing_row :: "string \<Rightarrow> string \<Rightarrow> millis \<Rightarrow> save_data \<Rightarrow> message_row" where
  "outgoing_row sid phone now d =
     \<lparr>mr_id = 0, mr_sessionId = sid,
      mr_waMessageId = (case sd_waMessageId d of Some (c # cs) \<Rightarrow> Some (c # cs) | _ \<Rightarrow> None),
      mr_chatId = sd_chatId d, mr_from = (if phone = [] then ''me'' else phone), mr_to = sd_chatId d, mr_body = sd_body d,
      mr_type = sd_type d, mr_direction = OUTGOING, mr_timestamp = sd_timestamp d, mr_status = sd_status d,
      mr_metadata = sd_metadata d, mr_createdAt = now\<rparr>"

text \<open>The state of a send that lost the race against its own echo goes onto the echo's row.\<close>

definition merge_patch :: "int option \<Rightarrow> payload option \<Rightarrow> message_row \<Rightarrow> message_row" where
  "merge_patch ts metadata r =
     (let r' = (if ts = None then r else r\<lparr>mr_timestamp := ts\<rparr>)
      in if metadata \<noteq> None \<and> \<not> isUrlPointerMetadata metadata then r'\<lparr>mr_metadata := metadata\<rparr> else r')"

definition saveOutgoingMessage :: "string \<Rightarrow> string \<Rightarrow> millis \<Rightarrow> save_data \<Rightarrow> message_store \<Rightarrow> message_row option \<times> message_store" where
  "saveOutgoingMessage sid phone now d s =
     (let r = outgoing_row sid phone now d
      in case insert_row r s of
           Some s' \<Rightarrow> (Some (r\<lparr>mr_id := ms_next s\<rparr>), s')
         | None \<Rightarrow>
             let wa = the (mr_waMessageId r);
                 s' = update_rows (names_message sid wa) (merge_patch (mr_timestamp r) (mr_metadata r)) s
             in (find (names_message sid wa) (ms_rows s'), s'))"

text \<open>A single send starts by saving its row as pending, without an id.\<close>

definition start_send :: "string \<Rightarrow> string \<Rightarrow> millis \<Rightarrow> save_data \<Rightarrow> message_store \<Rightarrow> message_store" where
  "start_send sid phone now d s =
     (case saveOutgoingMessage sid phone now (d\<lparr>sd_waMessageId := None, sd_status := PENDING\<rparr>) s of
        (Some r, s') \<Rightarrow> s'\<lparr>ms_flows := ms_flows s' @ [\<lparr>sf_entity = r, sf_phase = Sending\<rparr>]\<rparr>
      | (None, s') \<Rightarrow> s')"

text \<open>\<open>save\<close> of an entity that was stored before: its columns replace those of its row.\<close>

definition save_entity :: "message_row \<Rightarrow> message_store \<Rightarrow> message_store option" where
  "save_entity e s =
     (if unique_violation e (ms_rows s) then None
      else Some (if list_ex (\<lambda>r. mr_id r = mr_id e) (ms_rows s) then update_rows (\<lambda>r. mr_id r = mr_id e) (\<lambda>_. e) s
                 else s\<lparr>ms_rows := ms_rows s @ [e]\<rparr>))"

definition set_flow :: "nat \<Rightarrow> message_row \<Rightarrow> send_phase \<Rightarrow> message_store \<Rightarrow> message_store" where
  "set_flow i e p s = s\<lparr>ms_flows := (ms_flows s)[i := \<lparr>sf_entity = e, sf_phase = p\<rparr>]\<rparr>"

text \<open>\<open>persistSentState\<close>: the save, and after a conflict the merge and the removal of the pending row.\<close>

definition sent_entity :: "message_row \<Rightarrow> string \<Rightarrow> int \<Rightarrow> message_row" where
  "sent_entity e resultId ts =
     e\<lparr>mr_waMessageId := if resultId \<noteq> [] then Some resultId else mr_waMessageId e, mr_status := SENT, mr_timestamp := Some ts\<rparr>"

definition persistSentState :: "nat \<Rightarrow> string \<Rightarrow> int \<Rightarrow> bool \<Rightarrow> message_store \<Rightarrow> message_store" where
  "persistSentState i resultId ts fault s =
     (if i < length (ms_flows s) \<and> sf_phase (ms_flows s ! i) = Sending
      then let e = sent_entity (sf_entity (ms_flows s ! i)) resultId ts
           in if fault then set_flow i e Settled s
              else (case save_entity e s of
                      Some s' \<Rightarrow> set_flow i e Settled s'
                    | None \<Rightarrow> set_flow i e (if resultId \<noteq> [] then Merging resultId ts else Settled) s)
      else s)"

definition merge_sent :: "nat \<Rightarrow> bool \<Rightarrow> message_store \<Rightarrow> message_store" where
  "merge_sent i fault s =
     (if i < length (ms_flows s)
      then let e = sf_entity (ms_flows s ! i)
           in case sf_phase (ms_flows s ! i) of
                Merging wa ts \<Rightarrow>
                  set_flow i e (Dropping wa)
                    (if fault then s
                     else update_rows (names_message (mr_sessionId e) wa) (merge_patch (Some ts) (mr_metadata e)) s)
              | _ \<Rightarrow> s
      else s)"

definition drop_pending :: "nat \<Rightarrow> bool \<Rightarrow> message_store \<Rightarrow> message_store" where
  "drop_pending i fault s =
     (if i < length (ms_flows s)
      then let e = sf_entity (ms_flows s ! i)
           in case sf_phase (ms_flows s ! i) of
                Dropping wa \<Rightarrow>
                  set_flow i e Settled (if fault then s else s\<lparr>ms_rows := filter (\<lambda>r. mr_id r \<noteq> mr_id e) (ms_rows s)\<rparr>)
              | _ \<Rightarrow> s
      else s)"

definition drop_media_data :: "payload option \<Rightarrow> payload option" where
  "drop_media_data metadata =
     (case metadata of
        None \<Rightarrow> None
      | Some md \<Rightarrow> (case field_of md ''media'' of
                      JObj m \<Rightarrow> Some (set_field md ''media'' (JObj (jm_del m ''data'')))
                    | _ \<Rightarrow> Some md))"

definition saveFailedMessage :: "nat \<Rightarrow> message_store \<Rightarrow> message_store" where
  "saveFailedMessage i s =
     (if i < length (ms_flows s) \<and> sf_phase (ms_flows s ! i) = Sending
      then let e0 = sf_entity (ms_flows s ! i);
               e = e0\<lparr>mr_metadata := drop_media_data (mr_metadata e0), mr_status := FAILED\<rparr>
           in (case save_entity e s of Some s' \<Rightarrow> set_flow i e Settled s' | None \<Rightarrow> set_flow i e Settled s)
      else s)"

subsection \<open>The reaper\<close>

record reaper_options =
  rp_intervalMs :: int
  rp_graceMs :: int
  rp_batchSize :: int

definition resolvePendingMessageReaperOptions :: "(string \<Rightarrow> string option) \<Rightarrow> reaper_options" where
  "resolvePendingMessageReaperOptions env =
     \<lparr>rp_intervalMs = resolveNonNegativeIntEnv (env ''MESSAGE_REAPER_INTERVAL_MS'') (10 * 60000),
      rp_graceMs = resolveNonNegativeIntEnv (env ''MESSAGE_REAPER_GRACE_MS'') (60 * 60000),
      rp_batchSize = positive_int_or 50 (env ''MESSAGE_REAPER_BATCH_SIZE'')\<rparr>"

definition reapable :: "millis \<Rightarrow> message_row \<Rightarrow> bool" where
  "reapable cutoff r \<longleftrightarrow> mr_direction r = OUTGOING \<and> mr_status r = PENDING \<and> mr_createdAt r < cutoff"

text \<open>The sweep reads its batch unless one is under way, and then writes row by row.\<close>

definition reaper_find :: "reaper_options \<Rightarrow> millis \<Rightarrow> message_store \<Rightarrow> message_store" where
  "reaper_find opts now s =
     (if ms_reaping s \<noteq> [] then s
      else s\<lparr>ms_reaping := take (nat (rp_batchSize opts)) (sort_key mr_createdAt (filter (reapable (now - rp_graceMs opts)) (ms_rows s)))\<rparr>)"

definition reaped_metadata :: "millis \<Rightarrow> message_row \<Rightarrow> payload option" where
  "reaped_metadata now r =
     (let md = (case drop_media_data (mr_metadata r) of Some md \<Rightarrow> md | None \<Rightarrow> [])
      in Some (set_field md ''reapedAt'' (JNum now)))"

definition reapRow :: "millis \<Rightarrow> bool \<Rightarrow> message_store \<Rightarrow> message_store" where
  "reapRow now fault s =
     (case ms_reaping s of
        [] \<Rightarrow> s
      | row # rest \<Rightarrow>
          (if fault then s
           else update_rows (\<lambda>r. mr_id r = mr_id row \<and> mr_status r = PENDING)
                  (\<lambda>r. r\<lparr>mr_status := FAILED, mr_metadata := reaped_metadata now row\<rparr>) s)\<lparr>ms_reaping := rest\<rparr>)"

section \<open>Runs\<close>

datatype event =
    Inbound string bool bool bool bool millis incoming incoming
  | Echo string bool bool bool bool millis incoming incoming
  | Ack string bool bool string delivery_status
  | Ack_Retry nat
  | Revoked string bool bool string "string option"
  | History string bool millis "incoming list"
  | Enqueue string string mutation
  | Mutate string string bool
  | Save_Bulk string string millis save_data
  | Send_Start string string millis save_data
  | Send_Accepted nat string int bool
  | Send_Merged nat bool
  | Send_Dropped nat bool
  | Send_Failed nat
  | Reap_Find reaper_options millis
  | Reap_Row millis bool

fun step :: "event \<Rightarrow> message_store \<Rightarrow> message_store" where
  "step (Inbound sid eph live liveLater fault now m final) s = handleInboundMessage sid eph live liveLater fault now m final s"
| "step (Echo sid eph live liveLater fault now m final) s = handleOwnSendEcho sid eph live liveLater fault now m final s"
| "step (Ack sid live fault wa status) s = handleMessageAck sid live fault wa status s"
| "step (Ack_Retry i) s = ack_retry i s"
| "step (Revoked sid live fault i revokedId) s = handleMessageRevoked sid live fault i revokedId s"
| "step (History sid eph now ms) s = persistHistoryMessages sid eph now ms s"
| "step (Enqueue sid wa w) s = (case w of Write_Metadata _ \<Rightarrow> s | _ \<Rightarrow> enqueueMessageMutation sid wa w s)"
| "step (Mutate sid wa fault) s = mutation_step sid wa fault s"
| "step (Save_Bulk sid phone now d) s = snd (saveOutgoingMessage sid phone now (d\<lparr>sd_status := SENT\<rparr>) s)"
| "step (Send_Start sid phone now d) s = start_send sid phone now d s"
| "step (Send_Accepted i resultId ts fault) s = persistSentState i resultId ts fault s"
| "step (Send_Merged i fault) s = merge_sent i fault s"
| "step (Send_Dropped i fault) s = drop_pending i fault s"
| "step (Send_Failed i) s = saveFailedMessage i s"
| "step (Reap_Find opts now) s = reaper_find opts now s"
| "step (Reap_Row now fault) s = reapRow now fault s"

definition run :: "event list \<Rightarrow> message_store" where
  "run es = fold step es empty_store"

section \<open>The keys of the table\<close>

text \<open>What the identity of rows and the sends under way have to do with each other: ids are fresh, the
  index is unique, and the row of a send that is not settled has no message id yet.\<close>

definition row_key :: "message_row \<Rightarrow> nat \<times> string \<times> string option" where
  "row_key r = (mr_id r, mr_sessionId r, mr_waMessageId r)"

definition flow_id :: "send_flow \<Rightarrow> nat" where
  "flow_id f = mr_id (sf_entity f)"

definition well_keyed :: "(nat \<times> string \<times> string option) list \<Rightarrow> nat \<Rightarrow> bool" where
  "well_keyed ks n \<longleftrightarrow>
     distinct (map fst ks) \<and> (\<forall>k \<in> set ks. fst k < n)
     \<and> (\<forall>i j sid wa. (i, sid, Some wa) \<in> set ks \<longrightarrow> (j, sid, Some wa) \<in> set ks \<longrightarrow> i = j)"

definition well_flowed :: "(nat \<times> string \<times> string option) list \<Rightarrow> nat \<Rightarrow> send_flow list \<Rightarrow> bool" where
  "well_flowed ks n fs \<longleftrightarrow>
     distinct (map flow_id fs) \<and> (\<forall>f \<in> set fs. flow_id f < n)
     \<and> (\<forall>f \<in> set fs. sf_phase f \<noteq> Settled \<longrightarrow> (\<forall>sid w. (flow_id f, sid, w) \<in> set ks \<longrightarrow> w = None))"

definition well_stored :: "message_store \<Rightarrow> bool" where
  "well_stored s \<longleftrightarrow>
     well_keyed (map row_key (ms_rows s)) (ms_next s) \<and> well_flowed (map row_key (ms_rows s)) (ms_next s) (ms_flows s)"

lemma well_stored_same:
  "map row_key (ms_rows s') = map row_key (ms_rows s) \<Longrightarrow> ms_next s' = ms_next s \<Longrightarrow> ms_flows s' = ms_flows s \<Longrightarrow>
     well_stored s' = well_stored s"
  by (simp add: well_stored_def)

text \<open>Updates in place leave the keys alone, whatever else they do.\<close>

lemma update_rows_keys [simp]:
  assumes "\<And>r. row_key (f r) = row_key r" shows "map row_key (ms_rows (update_rows P f s)) = map row_key (ms_rows s)"
  using assms by (simp add: update_rows_def)

lemma update_rows_rest [simp]:
  "ms_next (update_rows P f s) = ms_next s" "ms_flows (update_rows P f s) = ms_flows s" "ms_log (update_rows P f s) = ms_log s"
  "ms_reaping (update_rows P f s) = ms_reaping s" "ms_chains (update_rows P f s) = ms_chains s"
  by (simp_all add: update_rows_def)

lemma merge_patch_key [simp]: "row_key (merge_patch ts md r) = row_key r" "mr_status (merge_patch ts md r) = mr_status r"
  by (simp_all add: merge_patch_def row_key_def Let_def)

lemma log_event_rest [simp]:
  "ms_rows (log_event ev sid wa s) = ms_rows s" "ms_next (log_event ev sid wa s) = ms_next s" "ms_flows (log_event ev sid wa s) = ms_flows s"
  "ms_log (log_event ev sid wa s) = ms_log s @ [(ev, sid, wa)]"
  by (simp_all add: log_event_def)

lemma set_chain_rest [simp]:
  "ms_rows (set_chain k ws s) = ms_rows s" "ms_next (set_chain k ws s) = ms_next s" "ms_flows (set_chain k ws s) = ms_flows s"
  "ms_log (set_chain k ws s) = ms_log s"
  by (simp_all add: set_chain_def)

lemma set_flow_rest [simp]:
  "ms_rows (set_flow i e p s) = ms_rows s" "ms_next (set_flow i e p s) = ms_next s" "ms_log (set_flow i e p s) = ms_log s"
  by (simp_all add: set_flow_def)

lemma unique_violation_keys:
  "unique_violation r rows \<longleftrightarrow> (\<exists>wa i. mr_waMessageId r = Some wa \<and> i \<noteq> mr_id r \<and> (i, mr_sessionId r, Some wa) \<in> row_key ` set rows)"
  by (force simp: unique_violation_def names_message_def row_key_def list_ex_iff split: option.splits)

text \<open>A new row gets a new key.\<close>

lemma insert_row_Some:
  assumes "insert_row r s = Some s'"
  shows "s' = s\<lparr>ms_rows := ms_rows s @ [r\<lparr>mr_id := ms_next s\<rparr>], ms_next := Suc (ms_next s)\<rparr>"
    and "\<And>wa i. mr_waMessageId r = Some wa \<Longrightarrow> (i, mr_sessionId r, Some wa) \<in> row_key ` set (ms_rows s) \<Longrightarrow> i = ms_next s"
  using assms by (auto simp: insert_row_def Let_def unique_violation_keys split: if_splits)

lemma well_keyed_snoc:
  assumes "well_keyed ks n" and "\<And>wa i. w = Some wa \<Longrightarrow> (i, sid, Some wa) \<notin> set ks"
  shows "well_keyed (ks @ [(n, sid, w)]) (Suc n)"
proof -
  have "n \<notin> fst ` set ks" using assms(1) by (force simp: well_keyed_def)
  moreover have "\<forall>k \<in> set ks. fst k < Suc n" using assms(1) by (auto simp: well_keyed_def less_Suc_eq)
  ultimately show ?thesis using assms by (auto simp: well_keyed_def)
qed

lemma well_flowed_snoc: "well_flowed ks n fs \<Longrightarrow> well_flowed (ks @ [(n, sid, w)]) (Suc n) fs"
  by (fastforce simp: well_flowed_def less_Suc_eq)

lemma well_flowed_settle:
  assumes w: "well_flowed ks n fs" and i: "i < length fs" and e: "mr_id e = flow_id (fs ! i)"
    and p: "sf_phase (fs ! i) \<noteq> Settled \<or> p = Settled"
  shows "well_flowed ks n (fs[i := \<lparr>sf_entity = e, sf_phase = p\<rparr>])"
proof -
  let ?g = "\<lparr>sf_entity = e, sf_phase = p\<rparr>"
  have ids: "map flow_id (fs[i := ?g]) = map flow_id fs"
    using i e by (intro nth_equalityI) (auto simp: nth_list_update flow_id_def)
  have g: "flow_id ?g = flow_id (fs ! i)" using e by (simp add: flow_id_def)
  have mem: "fs ! i \<in> set fs" using i by simp
  have "flow_id f < n \<and> (sf_phase f \<noteq> Settled \<longrightarrow> (\<forall>sid w. (flow_id f, sid, w) \<in> set ks \<longrightarrow> w = None))"
    if "f \<in> set (fs[i := ?g])" for f
  proof (cases "f = ?g")
    case True
    then have "flow_id f = flow_id (fs ! i)" "sf_phase f = p" using g by simp_all
    then show ?thesis using w mem p unfolding well_flowed_def by auto
  next
    case False
    then have "f \<in> set fs" using that set_update_subset_insert [of fs i ?g] by auto
    then show ?thesis using w unfolding well_flowed_def by blast
  qed
  moreover have "distinct (map flow_id (fs[i := ?g]))" unfolding ids using w by (simp add: well_flowed_def)
  ultimately show ?thesis unfolding well_flowed_def by blast
qed

lemma set_flow_well:
  assumes "well_stored s" and "i < length (ms_flows s)" and "mr_id e = flow_id (ms_flows s ! i)" and "sf_phase (ms_flows s ! i) \<noteq> Settled \<or> p = Settled"
  shows "well_stored (set_flow i e p s)"
  using assms well_flowed_settle [of _ _ "ms_flows s" i e p] by (simp add: well_stored_def set_flow_def)

lemma insert_row_well:
  assumes "well_stored s" and "insert_row r s = Some s'" shows "well_stored s'"
proof -
  note s' = insert_row_Some [OF assms(2)]
  have "fst k < ms_next s" if "k \<in> row_key ` set (ms_rows s)" for k
    using assms(1) that by (auto simp: well_stored_def well_keyed_def)
  then have "(i, mr_sessionId r, Some wa) \<notin> set (map row_key (ms_rows s))" if "mr_waMessageId r = Some wa" for i wa
    using s'(2) [OF that] by fastforce
  moreover have "row_key (r\<lparr>mr_id := ms_next s\<rparr>) = (ms_next s, mr_sessionId r, mr_waMessageId r)" by (simp add: row_key_def)
  ultimately show ?thesis
    using assms(1) unfolding s'(1) well_stored_def by (simp add: well_keyed_snoc well_flowed_snoc)
qed

text \<open>Saving the entity of a send under way: its row gets the id, unless the echo has it.\<close>

definition replace_row :: "message_row \<Rightarrow> message_row list \<Rightarrow> message_row list" where
  "replace_row e rows =
     (if list_ex (\<lambda>r. mr_id r = mr_id e) rows then map (\<lambda>r. if mr_id r = mr_id e then e else r) rows else rows @ [e])"

lemma save_entity_Some:
  assumes "save_entity e s = Some s'"
  shows "s' = s\<lparr>ms_rows := replace_row e (ms_rows s)\<rparr>"
    and "\<And>wa i. mr_waMessageId e = Some wa \<Longrightarrow> (i, mr_sessionId e, Some wa) \<in> row_key ` set (ms_rows s) \<Longrightarrow> i = mr_id e"
  using assms by (auto simp: save_entity_def update_rows_def replace_row_def unique_violation_keys split: if_splits)

lemma fst_row_key [simp]: "fst (row_key r) = mr_id r"
  by (simp add: row_key_def)

lemma map_row_ids: "map fst (map row_key rows) = map mr_id rows"
  by simp

lemma replace_row_keys: "row_key ` set (replace_row e rows) = insert (row_key e) {k \<in> row_key ` set rows. fst k \<noteq> mr_id e}"
proof (cases "list_ex (\<lambda>r. mr_id r = mr_id e) rows")
  case True
  then obtain r where r: "r \<in> set rows" "mr_id r = mr_id e" by (auto simp: list_ex_iff)
  have "row_key ` set (replace_row e rows) = (\<lambda>r. if mr_id r = mr_id e then row_key e else row_key r) ` set rows"
    using True unfolding replace_row_def by (auto simp: image_image)
  also have "\<dots> = insert (row_key e) (row_key ` {r \<in> set rows. mr_id r \<noteq> mr_id e})" using r by auto
  also have "row_key ` {r \<in> set rows. mr_id r \<noteq> mr_id e} = {k \<in> row_key ` set rows. fst k \<noteq> mr_id e}" by auto
  finally show ?thesis .
next
  case False
  then have "\<forall>r \<in> set rows. mr_id r \<noteq> mr_id e" by (simp add: list_ex_iff)
  then have "{k \<in> row_key ` set rows. fst k \<noteq> mr_id e} = row_key ` set rows" by auto
  with False show ?thesis by (simp add: replace_row_def)
qed

lemma replace_row_ids: "map mr_id (replace_row e rows) = (if mr_id e \<in> mr_id ` set rows then map mr_id rows else map mr_id rows @ [mr_id e])"
proof -
  have "list_ex (\<lambda>r. mr_id r = mr_id e) rows \<longleftrightarrow> mr_id e \<in> mr_id ` set rows" by (auto simp: list_ex_iff) (metis image_eqI)
  then show ?thesis by (simp add: replace_row_def cong: map_cong)
qed

lemma well_keyed_mono:
  assumes "well_keyed ks n" and "set ks' \<subseteq> set ks" and "distinct (map fst ks')" shows "well_keyed ks' n"
  using assms unfolding well_keyed_def by (meson subsetD)

lemma well_keyed_replace:
  assumes w: "well_keyed (map row_key rows) n" and n: "mr_id e < n"
    and u: "\<And>wa i. mr_waMessageId e = Some wa \<Longrightarrow> (i, mr_sessionId e, Some wa) \<in> row_key ` set rows \<Longrightarrow> i = mr_id e"
  shows "well_keyed (map row_key (replace_row e rows)) n"
proof -
  have d: "distinct (map fst (map row_key (replace_row e rows)))"
    using w unfolding well_keyed_def map_row_ids replace_row_ids by (auto simp: image_iff)
  have k: "k = row_key e \<or> k \<in> row_key ` set rows" if "k \<in> row_key ` set (replace_row e rows)" for k
    using that unfolding replace_row_keys by blast
  have lt: "fst k < n" if "k \<in> row_key ` set (replace_row e rows)" for k
    using k [OF that] w n by (auto simp: well_keyed_def)
  have old: "i = j" if "(i, sid, Some wa) \<in> row_key ` set rows" "(j, sid, Some wa) \<in> row_key ` set rows" for i j sid wa
    using w that unfolding well_keyed_def set_map by blast
  have uniq: "i = mr_id e" if "(i, sid, Some wa) \<in> row_key ` set (replace_row e rows)" "row_key e = (j, sid, Some wa)" for i j sid wa
    using k [OF that(1)] that(2) u [of wa i] by (auto simp: row_key_def)
  have "i = j" if m: "(i, sid, Some wa) \<in> row_key ` set (replace_row e rows)" "(j, sid, Some wa) \<in> row_key ` set (replace_row e rows)" for i j sid wa
  proof (cases "row_key e = (i, sid, Some wa) \<or> row_key e = (j, sid, Some wa)")
    case True
    then show ?thesis using uniq [OF m(1)] uniq [OF m(2)] by blast
  next
    case False
    then have "(i, sid, Some wa) \<in> row_key ` set rows" "(j, sid, Some wa) \<in> row_key ` set rows"
      using k [OF m(1)] k [OF m(2)] by metis+
    then show ?thesis by (rule old)
  qed
  with d lt show ?thesis unfolding well_keyed_def set_map by blast
qed

lemma well_flowed_replace:
  assumes w: "well_flowed (map row_key rows) n fs" and st: "\<forall>f \<in> set fs. flow_id f = mr_id e \<longrightarrow> sf_phase f = Settled"
  shows "well_flowed (map row_key (replace_row e rows)) n fs"
proof -
  have "w = None" if f: "f \<in> set fs" "sf_phase f \<noteq> Settled" and k: "(flow_id f, sid, w) \<in> row_key ` set (replace_row e rows)" for f sid w
  proof -
    have "flow_id f \<noteq> mr_id e" using f st by auto
    then have "(flow_id f, sid, w) \<in> row_key ` set rows" using k unfolding replace_row_keys by (auto simp: row_key_def)
    then show ?thesis using w f unfolding well_flowed_def set_map by blast
  qed
  then show ?thesis using w unfolding well_flowed_def set_map by blast
qed

lemma save_entity_well:
  assumes "well_stored s" and "save_entity e s = Some s'" and "mr_id e < ms_next s"
    and "\<forall>f \<in> set (ms_flows s). flow_id f = mr_id e \<longrightarrow> sf_phase f = Settled"
  shows "well_stored s'"
proof -
  have "well_keyed (map row_key (replace_row e (ms_rows s))) (ms_next s)"
    using assms(1,3) save_entity_Some(2) [OF assms(2)] by (intro well_keyed_replace) (auto simp: well_stored_def)
  moreover have "well_flowed (map row_key (replace_row e (ms_rows s))) (ms_next s) (ms_flows s)"
    using assms(1,4) by (intro well_flowed_replace) (auto simp: well_stored_def)
  ultimately show ?thesis unfolding save_entity_Some(1) [OF assms(2)] by (simp add: well_stored_def)
qed

lemma drop_row_well:
  assumes "well_stored s" shows "well_stored (s\<lparr>ms_rows := filter P (ms_rows s)\<rparr>)"
proof -
  have sub: "set (map row_key (filter P (ms_rows s))) \<subseteq> set (map row_key (ms_rows s))" by auto
  have "distinct (map mr_id (ms_rows s))" using assms unfolding well_stored_def well_keyed_def map_row_ids by simp
  then have "distinct (map fst (map row_key (filter P (ms_rows s))))" unfolding map_row_ids by (simp add: distinct_map_filter)
  with sub have "well_keyed (map row_key (filter P (ms_rows s))) (ms_next s)"
    using assms well_keyed_mono unfolding well_stored_def by blast
  moreover have "well_flowed (map row_key (filter P (ms_rows s))) (ms_next s) (ms_flows s)"
    using assms sub unfolding well_stored_def well_flowed_def by (meson subsetD)
  ultimately show ?thesis by (simp add: well_stored_def)
qed

text \<open>The flow of a send under way, settled before its row is saved.\<close>

lemma save_settled_well:
  assumes s: "well_stored s" and i: "i < length (ms_flows s)" and e: "mr_id e = flow_id (ms_flows s ! i)" and sv: "save_entity e s = Some s'"
  shows "well_stored (set_flow i e Settled s')"
proof -
  have "save_entity e (set_flow i e Settled s) = Some (set_flow i e Settled s')"
    using sv by (auto simp: save_entity_def update_rows_def set_flow_def split: if_splits)
  moreover have "well_stored (set_flow i e Settled s)" using s i e by (rule set_flow_well) simp
  moreover have "mr_id e < ms_next (set_flow i e Settled s)"
    using s i e nth_mem [OF i] by (auto simp: well_stored_def well_flowed_def set_flow_def)
  moreover have "sf_phase f = Settled" if "f \<in> set (ms_flows (set_flow i e Settled s))" "flow_id f = mr_id e" for f
  proof -
    have d: "distinct (map flow_id (ms_flows (set_flow i e Settled s)))"
      using \<open>well_stored (set_flow i e Settled s)\<close> by (simp add: well_stored_def well_flowed_def)
    let ?g = "\<lparr>sf_entity = e, sf_phase = Settled\<rparr>"
    have "?g \<in> set (ms_flows (set_flow i e Settled s))" using i by (simp add: set_flow_def set_update_memI)
    then have "f = ?g" using d that by (auto simp: distinct_map inj_on_def flow_id_def)
    then show ?thesis by simp
  qed
  ultimately show ?thesis using save_entity_well by blast
qed

section \<open>Every step keeps the keys\<close>

lemma status_key [simp]: "row_key (r\<lparr>mr_status := x\<rparr>) = row_key r" "row_key (r\<lparr>mr_metadata := md\<rparr>) = row_key r"
  "row_key (r\<lparr>mr_body := b\<rparr>) = row_key r" "row_key (r\<lparr>mr_type := t\<rparr>) = row_key r"
  by (simp_all add: row_key_def)

lemma update_rows_well:
  assumes "well_stored s" and "\<And>r. row_key (f r) = row_key r" shows "well_stored (update_rows P f s)"
  using assms by (simp add: well_stored_def)

lemma log_event_well [simp]: "well_stored (log_event ev sid wa s) = well_stored s"
  by (rule well_stored_same) simp_all

lemma set_chain_well [simp]: "well_stored (set_chain k ws s) = well_stored s"
  by (rule well_stored_same) simp_all

lemma rest_well [simp]: "well_stored (s\<lparr>ms_retries := a\<rparr>) = well_stored s" "well_stored (s\<lparr>ms_reaping := b\<rparr>) = well_stored s"
  "well_stored (s\<lparr>ms_chains := c\<rparr>) = well_stored s"
  by (rule well_stored_same; simp)+

lemma advanceAck_well: "well_stored s \<Longrightarrow> well_stored (advanceAck sid wa t s)"
  unfolding advanceAck_def by (rule update_rows_well) simp_all

lemma insert_or_ignore_well: "well_stored s \<Longrightarrow> well_stored (insert_or_ignore r s)"
  by (auto simp: insert_or_ignore_def insert_row_well split: option.splits)

lemma history_well: "well_stored s \<Longrightarrow> well_stored (fold (\<lambda>(i, m) st. insert_or_ignore (history_row sid now m) st) ms s)"
  by (induction ms arbitrary: s) (auto simp: insert_or_ignore_well)

lemma mutation_well: "well_stored s \<Longrightarrow> well_stored (mutation_step sid wa fault s)"
  by (auto simp: mutation_step_def intro!: update_rows_well split: list.splits mutation.splits option.splits)

lemma saveOutgoing_cases:
  obtains (inserted) s' where "insert_row (outgoing_row sid phone now d) s = Some s'"
      "saveOutgoingMessage sid phone now d s = (Some ((outgoing_row sid phone now d)\<lparr>mr_id := ms_next s\<rparr>), s')"
  | (merged) wa where "mr_waMessageId (outgoing_row sid phone now d) = Some wa"
      "snd (saveOutgoingMessage sid phone now d s)
         = update_rows (names_message sid wa) (merge_patch (sd_timestamp d) (sd_metadata d)) s"
proof (cases "insert_row (outgoing_row sid phone now d) s")
  case None
  then obtain wa where "mr_waMessageId (outgoing_row sid phone now d) = Some wa"
    by (auto simp: insert_row_def Let_def unique_violation_def split: if_splits option.splits)
  then show ?thesis using None by (intro merged) (simp_all add: saveOutgoingMessage_def Let_def outgoing_row_def)
next
  case (Some s')
  then show ?thesis by (intro inserted) (simp_all add: saveOutgoingMessage_def Let_def)
qed

lemma saveOutgoing_well: "well_stored s \<Longrightarrow> well_stored (snd (saveOutgoingMessage sid phone now d s))"
  by (cases rule: saveOutgoing_cases [of sid phone now d s]) (simp_all add: insert_row_well update_rows_well)

lemma start_send_cases:
  obtains s' where "insert_row (outgoing_row sid phone now (d\<lparr>sd_waMessageId := None, sd_status := PENDING\<rparr>)) s = Some s'"
    "start_send sid phone now d s = s'\<lparr>ms_flows := ms_flows s @
       [\<lparr>sf_entity = (outgoing_row sid phone now (d\<lparr>sd_waMessageId := None, sd_status := PENDING\<rparr>))\<lparr>mr_id := ms_next s\<rparr>, sf_phase = Sending\<rparr>]\<rparr>"
proof (cases rule: saveOutgoing_cases [of sid phone now "d\<lparr>sd_waMessageId := None, sd_status := PENDING\<rparr>" s])
  case (inserted s')
  then show ?thesis using insert_row_Some(1) [OF inserted(1)] by (intro that [of s']) (simp_all add: start_send_def)
next
  case (merged wa)
  then show ?thesis by (simp add: outgoing_row_def)
qed

lemma start_send_well: assumes "well_stored s" shows "well_stored (start_send sid phone now d s)"
proof -
  let ?r = "outgoing_row sid phone now (d\<lparr>sd_waMessageId := None, sd_status := PENDING\<rparr>)"
  obtain s' where s': "insert_row ?r s = Some s'"
    "start_send sid phone now d s = s'\<lparr>ms_flows := ms_flows s @ [\<lparr>sf_entity = ?r\<lparr>mr_id := ms_next s\<rparr>, sf_phase = Sending\<rparr>]\<rparr>"
    by (rule start_send_cases)
  have w: "well_stored s'" using insert_row_well [OF assms s'(1)] .
  have rows: "ms_rows s' = ms_rows s @ [?r\<lparr>mr_id := ms_next s\<rparr>]" "ms_next s' = Suc (ms_next s)" "ms_flows s' = ms_flows s"
    using insert_row_Some(1) [OF s'(1)] by simp_all
  have fresh: "\<forall>f \<in> set (ms_flows s). flow_id f < ms_next s" "\<forall>r \<in> set (ms_rows s). mr_id r < ms_next s"
    using assms by (auto simp: well_stored_def well_flowed_def well_keyed_def)
  have nw: "mr_waMessageId (?r\<lparr>mr_id := ms_next s\<rparr>) = None" by (simp add: outgoing_row_def)
  have "well_flowed (map row_key (ms_rows s')) (ms_next s') (ms_flows s @ [\<lparr>sf_entity = ?r\<lparr>mr_id := ms_next s\<rparr>, sf_phase = Sending\<rparr>])"
    using w fresh nw unfolding well_stored_def well_flowed_def rows
    by (auto simp: flow_id_def row_key_def)
  then show ?thesis using w unfolding s'(2) well_stored_def by simp
qed

lemma persistSentState_well: assumes "well_stored s" shows "well_stored (persistSentState i wa ts fault s)"
proof (cases "i < length (ms_flows s) \<and> sf_phase (ms_flows s ! i) = Sending")
  case True
  let ?e = "sent_entity (sf_entity (ms_flows s ! i)) wa ts"
  have e: "mr_id ?e = flow_id (ms_flows s ! i)" by (simp add: sent_entity_def flow_id_def)
  have sf: "well_stored (set_flow i ?e p s)" for p using assms True e by (intro set_flow_well) auto
  show ?thesis
    using True sf save_settled_well [OF assms _ e] by (auto simp: persistSentState_def Let_def split: option.splits)
next
  case False
  then have "persistSentState i wa ts fault s = s" unfolding persistSentState_def by (rule if_not_P)
  then show ?thesis using assms by simp
qed

lemma saveFailed_well: assumes "well_stored s" shows "well_stored (saveFailedMessage i s)"
proof (cases "i < length (ms_flows s) \<and> sf_phase (ms_flows s ! i) = Sending")
  case True
  let ?e0 = "sf_entity (ms_flows s ! i)"
  let ?e = "?e0\<lparr>mr_metadata := drop_media_data (mr_metadata ?e0), mr_status := FAILED\<rparr>"
  have e: "mr_id ?e = flow_id (ms_flows s ! i)" by (simp add: flow_id_def)
  have sf: "well_stored (set_flow i ?e Settled s)" using assms True e by (intro set_flow_well) auto
  show ?thesis
    using True sf save_settled_well [OF assms _ e] by (auto simp: saveFailedMessage_def Let_def split: option.splits)
next
  case False
  then have "saveFailedMessage i s = s" unfolding saveFailedMessage_def by (rule if_not_P)
  then show ?thesis using assms by simp
qed

lemma merge_sent_well: assumes "well_stored s" shows "well_stored (merge_sent i fault s)"
proof (cases "i < length (ms_flows s)")
  case True
  have "well_stored (set_flow i (sf_entity (ms_flows s ! i)) p (update_rows P (merge_patch ts md) s))"
    and "well_stored (set_flow i (sf_entity (ms_flows s ! i)) p s)" if "sf_phase (ms_flows s ! i) \<noteq> Settled" for p P ts md
    using that assms True by (auto intro!: set_flow_well update_rows_well simp: flow_id_def)
  then show ?thesis using assms True by (auto simp: merge_sent_def Let_def split: send_phase.splits)
qed (use assms in \<open>simp add: merge_sent_def\<close>)

lemma drop_pending_well: assumes "well_stored s" shows "well_stored (drop_pending i fault s)"
proof (cases "i < length (ms_flows s)")
  case True
  have "well_stored (set_flow i (sf_entity (ms_flows s ! i)) Settled (s\<lparr>ms_rows := filter P (ms_rows s)\<rparr>))"
    and "well_stored (set_flow i (sf_entity (ms_flows s ! i)) Settled s)" for P
    using assms True drop_row_well [of s P] by (auto intro!: set_flow_well simp: flow_id_def)
  then show ?thesis using assms True by (auto simp: drop_pending_def Let_def split: send_phase.splits)
qed (use assms in \<open>simp add: drop_pending_def\<close>)

lemma step_well: "well_stored s \<Longrightarrow> well_stored (step e s)"
proof (cases e)
  case (Inbound sid eph live liveLater fault now m final)
  assume "well_stored s"
  then show ?thesis unfolding Inbound
    by (auto simp: handleInboundMessage_def persistInboundMessage_def insert_row_well split: option.splits persist_outcome.splits prod.splits if_splits)
next
  case (Echo sid eph live liveLater fault now m final)
  assume "well_stored s"
  then show ?thesis unfolding Echo by (auto simp: handleOwnSendEcho_def insert_row_well split: option.splits)
next
  case (Ack sid live fault wa status)
  assume "well_stored s"
  then show ?thesis unfolding Ack by (auto simp: handleMessageAck_def Let_def advanceAck_well split: option.splits)
next
  case (Reap_Row now fault)
  assume "well_stored s"
  moreover have "well_stored (update_rows P (\<lambda>r. r\<lparr>mr_status := FAILED, mr_metadata := md\<rparr>) s)" if "well_stored s" for P md
    using that by (rule update_rows_well) (simp add: row_key_def)
  ultimately show ?thesis unfolding Reap_Row by (auto simp: reapRow_def split: list.splits)
next
  case (Revoked sid live fault i revokedId)
  assume "well_stored s"
  moreover have "well_stored (update_rows P (\<lambda>r. r\<lparr>mr_body := [], mr_type := t\<rparr>) s)" if "well_stored s" for P t
    using that by (rule update_rows_well) (simp add: row_key_def)
  ultimately show ?thesis unfolding Revoked by (auto simp: handleMessageRevoked_def)
qed (auto simp: ack_retry_def advanceAck_well history_well persistHistoryMessages_def Let_def enqueueMessageMutation_def
      mutation_well saveOutgoing_well start_send_well persistSentState_well merge_sent_well drop_pending_well saveFailed_well
      reaper_find_def split: prod.splits mutation.splits)

interpretation messages: event_machine step well_stored
  by unfold_locales (rule step_well)

lemma run_well: "well_stored (run es)"
  unfolding run_def by (rule messages.run_inv) (simp add: well_stored_def well_keyed_def well_flowed_def empty_store_def)

section \<open>Rows are never lost, and their state only advances\<close>

definition advances :: "message_status \<Rightarrow> message_status \<Rightarrow> bool" where
  "advances a b \<longleftrightarrow>
     a = b \<or> a \<in> {PENDING, SENT} \<and> b \<in> {DELIVERED, READ, FAILED} \<or> a = DELIVERED \<and> b = READ"

lemma advances_from: "a \<in> set (ackStatusTransitionFrom b) \<Longrightarrow> advances a b"
  by (cases b) (auto simp: advances_def)

lemma advances_refl [simp]: "advances a a"
  by (simp add: advances_def)

lemma advances_trans: "advances a b \<Longrightarrow> advances b c \<Longrightarrow> advances a c"
  unfolding advances_def by (cases a; cases b; cases c) simp_all

definition keeps :: "message_store \<Rightarrow> message_store \<Rightarrow> bool" where
  "keeps s s' \<longleftrightarrow>
     (\<forall>r \<in> set (ms_rows s). mr_waMessageId r \<noteq> None \<longrightarrow>
        (\<exists>r' \<in> set (ms_rows s'). row_key r' = row_key r \<and> advances (mr_status r) (mr_status r')))"

lemma keeps_same: "ms_rows s' = ms_rows s \<Longrightarrow> keeps s s'"
  by (auto simp: keeps_def)

lemma keeps_trans:
  assumes "keeps s1 s2" and "keeps s2 s3" shows "keeps s1 s3"
proof -
  have "\<exists>r3 \<in> set (ms_rows s3). row_key r3 = row_key r \<and> advances (mr_status r) (mr_status r3)"
    if r: "r \<in> set (ms_rows s1)" "mr_waMessageId r \<noteq> None" for r
  proof -
    obtain r2 where r2: "r2 \<in> set (ms_rows s2)" "row_key r2 = row_key r" "advances (mr_status r) (mr_status r2)"
      using assms(1) r unfolding keeps_def by blast
    then have "mr_waMessageId r2 \<noteq> None" using r(2) by (simp add: row_key_def)
    then show ?thesis using assms(2) r2 advances_trans unfolding keeps_def by metis
  qed
  then show ?thesis by (simp add: keeps_def)
qed

lemma keeps_update:
  assumes "\<And>r. row_key (f r) = row_key r" and "\<And>r. P r \<Longrightarrow> advances (mr_status r) (mr_status (f r))"
  shows "keeps s (update_rows P f s)"
proof -
  have "\<exists>r' \<in> set (ms_rows (update_rows P f s)). row_key r' = row_key r \<and> advances (mr_status r) (mr_status r')"
    if "r \<in> set (ms_rows s)" for r
    using that assms [of r] by (intro bexI [of _ "if P r then f r else r"]) (auto simp: update_rows_def)
  then show ?thesis by (simp add: keeps_def)
qed

lemma keeps_insert: "insert_row r s = Some s' \<Longrightarrow> keeps s s'"
  using insert_row_Some(1) [of r s s'] by (auto simp: keeps_def)

text \<open>Only rows without an id are replaced or removed.\<close>

lemma unsettled_row:
  assumes "well_stored s" and "i < length (ms_flows s)" and "sf_phase (ms_flows s ! i) \<noteq> Settled"
    and "r \<in> set (ms_rows s)" and "mr_id r = flow_id (ms_flows s ! i)"
  shows "mr_waMessageId r = None"
proof -
  have "(flow_id (ms_flows s ! i), mr_sessionId r, mr_waMessageId r) \<in> set (map row_key (ms_rows s))"
    using imageI [OF assms(4), of row_key] assms(5) by (simp add: row_key_def)
  then show ?thesis using assms(1-3) nth_mem unfolding well_stored_def well_flowed_def by blast
qed

lemma keeps_replace:
  assumes "\<forall>r \<in> set (ms_rows s). mr_id r = mr_id e \<longrightarrow> mr_waMessageId r = None" and "save_entity e s = Some s'"
  shows "keeps s s'"
  using assms(1) save_entity_Some(1) [OF assms(2)] by (auto simp: keeps_def replace_row_def)

lemma keeps_drop:
  assumes "\<forall>r \<in> set (ms_rows s). mr_id r = k \<longrightarrow> mr_waMessageId r = None"
  shows "keeps s (s\<lparr>ms_rows := filter (\<lambda>r. mr_id r \<noteq> k) (ms_rows s)\<rparr>)"
  using assms by (auto simp: keeps_def)

lemma keeps_rows: "ms_rows s2 = ms_rows s1 \<Longrightarrow> keeps s s1 \<Longrightarrow> keeps s s2"
  by (simp add: keeps_def)

lemma keeps_advanceAck: "keeps s (advanceAck sid wa t s)"
  unfolding advanceAck_def by (rule keeps_update) (simp_all add: advance_rows_def advances_from)

lemma keeps_history: "keeps s (fold (\<lambda>(i, m) st. insert_or_ignore (history_row sid now m) st) ms s)"
proof (induction ms arbitrary: s)
  case (Cons e ms)
  have "keeps s (insert_or_ignore (history_row sid now (snd e)) s)"
    by (auto simp: insert_or_ignore_def keeps_insert keeps_same split: option.splits)
  then show ?case using Cons keeps_trans by (auto simp: split_beta)
qed (simp add: keeps_same)

lemma step_keeps:
  assumes w: "well_stored s" shows "keeps s (step e s)"
proof (cases e)
  case (Inbound sid eph live liveLater fault now m final)
  show ?thesis unfolding Inbound
    by (auto simp: handleInboundMessage_def persistInboundMessage_def intro: keeps_same keeps_rows [OF _ keeps_insert]
        split: option.splits persist_outcome.splits prod.splits if_splits)
next
  case (Echo sid eph live liveLater fault now m final)
  show ?thesis unfolding Echo
    by (auto simp: handleOwnSendEcho_def intro: keeps_same keeps_rows [OF _ keeps_insert] split: option.splits)
next
  case (Ack sid live fault wa status)
  show ?thesis unfolding Ack
    by (auto simp: handleMessageAck_def Let_def intro: keeps_same keeps_rows [OF _ keeps_advanceAck] split: option.splits)
next
  case (Ack_Retry i)
  show ?thesis unfolding Ack_Retry by (auto simp: ack_retry_def intro: keeps_same keeps_rows [OF _ keeps_advanceAck] split: prod.splits)
next
  case (Revoked sid live fault i revokedId)
  have "keeps s (update_rows P (\<lambda>r. r\<lparr>mr_body := [], mr_type := t\<rparr>) s)" for P t
    by (rule keeps_update) (simp_all add: row_key_def)
  then show ?thesis unfolding Revoked by (auto simp: handleMessageRevoked_def intro: keeps_same keeps_rows)
next
  case (History sid eph now ms)
  then show ?thesis by (simp add: persistHistoryMessages_def Let_def keeps_history)
next
  case (Enqueue sid wa mu)
  then show ?thesis by (auto simp: enqueueMessageMutation_def intro: keeps_same split: mutation.splits)
next
  case (Mutate sid wa fault)
  have "keeps s (update_rows P (\<lambda>r. r\<lparr>mr_metadata := md\<rparr>) s)" "keeps s (update_rows P (\<lambda>r. r\<lparr>mr_body := b\<rparr>) s)" for P md b
    by (rule keeps_update; simp)+
  then show ?thesis unfolding Mutate
    by (auto simp: mutation_step_def intro: keeps_same keeps_rows split: list.splits mutation.splits option.splits)
next
  case (Save_Bulk sid phone now d)
  show ?thesis unfolding Save_Bulk step.simps
    by (cases rule: saveOutgoing_cases [of sid phone now "d\<lparr>sd_status := SENT\<rparr>" s]) (simp_all add: keeps_insert keeps_update)
next
  case (Send_Start sid phone now d)
  obtain s' where "insert_row (outgoing_row sid phone now (d\<lparr>sd_waMessageId := None, sd_status := PENDING\<rparr>)) s = Some s'"
    "ms_rows (start_send sid phone now d s) = ms_rows s'"
    by (rule start_send_cases [of sid phone now d s]) simp
  then show ?thesis unfolding Send_Start step.simps by (metis keeps_insert keeps_rows)
next
  case (Send_Accepted i resultId ts fault)
  have "keeps s s'" if "i < length (ms_flows s)" "sf_phase (ms_flows s ! i) = Sending"
    "save_entity (sent_entity (sf_entity (ms_flows s ! i)) resultId ts) s = Some s'" for s'
    using that unsettled_row [OF w that(1)] by (intro keeps_replace) (auto simp: sent_entity_def flow_id_def)
  then show ?thesis unfolding Send_Accepted
    by (auto simp: persistSentState_def Let_def intro: keeps_same keeps_rows split: option.splits)
next
  case (Send_Failed i)
  have "keeps s s'" if "i < length (ms_flows s)" "sf_phase (ms_flows s ! i) = Sending"
    "save_entity ((sf_entity (ms_flows s ! i))\<lparr>mr_metadata := md, mr_status := FAILED\<rparr>) s = Some s'" for s' md
    using that unsettled_row [OF w that(1)] by (intro keeps_replace) (auto simp: flow_id_def)
  then show ?thesis unfolding Send_Failed
    by (auto simp: saveFailedMessage_def Let_def intro: keeps_same keeps_rows split: option.splits)
next
  case (Send_Merged i fault)
  have "keeps s (update_rows P (merge_patch ts md) s)" for P ts md by (rule keeps_update) simp_all
  then show ?thesis unfolding Send_Merged
    by (auto simp: merge_sent_def Let_def intro: keeps_same keeps_rows split: send_phase.splits)
next
  case (Send_Dropped i fault)
  have "keeps s (s\<lparr>ms_rows := filter (\<lambda>r. mr_id r \<noteq> mr_id (sf_entity (ms_flows s ! i))) (ms_rows s)\<rparr>)"
    if "i < length (ms_flows s)" "sf_phase (ms_flows s ! i) = Dropping x" for x
    using that unsettled_row [OF w that(1)] by (intro keeps_drop) (auto simp: flow_id_def)
  then show ?thesis unfolding Send_Dropped
    by (auto simp: drop_pending_def Let_def intro: keeps_same keeps_rows [OF set_flow_rest(1)] split: send_phase.splits)
next
  case (Reap_Find opts now)
  then show ?thesis by (simp add: reaper_find_def keeps_same)
next
  case (Reap_Row now fault)
  have "keeps s (update_rows (\<lambda>r. mr_id r = k \<and> mr_status r = PENDING) (\<lambda>r. r\<lparr>mr_status := FAILED, mr_metadata := md\<rparr>) s)" for k md
    by (rule keeps_update) (auto simp: row_key_def advances_def)
  then show ?thesis unfolding Reap_Row by (auto simp: reapRow_def intro: keeps_same keeps_rows split: list.splits)
qed

section \<open>Counting dispatches\<close>

definition received_count :: "string \<Rightarrow> string \<Rightarrow> message_store \<Rightarrow> nat" where
  "received_count sid wa s = length (filter (\<lambda>x. x = (''message.received'', sid, wa)) (ms_log s))"

definition stored :: "string \<Rightarrow> string \<Rightarrow> message_store \<Rightarrow> bool" where
  "stored sid wa s \<longleftrightarrow> list_ex (names_message sid wa) (ms_rows s)"

fun faulted_inbound :: "string \<Rightarrow> string \<Rightarrow> event \<Rightarrow> bool" where
  "faulted_inbound sid wa (Inbound sid' _ _ _ fault _ _ m) \<longleftrightarrow> fault \<and> sid' = sid \<and> im_id m = wa"
| "faulted_inbound _ _ _ \<longleftrightarrow> False"

lemma stored_keeps:
  assumes "keeps s s'" and "stored sid wa s" shows "stored sid wa s'"
proof -
  obtain r where r: "r \<in> set (ms_rows s)" "mr_sessionId r = sid" "mr_waMessageId r = Some wa"
    using assms(2) by (auto simp: stored_def list_ex_iff names_message_def)
  then obtain r' where "r' \<in> set (ms_rows s')" "row_key r' = row_key r" using assms(1) unfolding keeps_def by blast
  then have "r' \<in> set (ms_rows s')" "mr_sessionId r' = sid" "mr_waMessageId r' = Some wa" using r by (simp_all add: row_key_def)
  then show ?thesis by (auto simp: stored_def list_ex_iff names_message_def)
qed

lemma received_log [simp]:
  "received_count sid wa (log_event ev sid' wa' s)
     = received_count sid wa s + (if ev = ''message.received'' \<and> sid' = sid \<and> wa' = wa then 1 else 0)"
  by (simp add: received_count_def log_event_def)

lemma received_same: "ms_log s' = ms_log s \<Longrightarrow> received_count sid wa s' = received_count sid wa s"
  by (simp add: received_count_def)

lemma insert_row_log: "insert_row r s = Some s' \<Longrightarrow> ms_log s' = ms_log s"
  using insert_row_Some(1) by fastforce

lemma insert_named:
  assumes "insert_row r s = Some s'" and "mr_waMessageId r = Some wa" and "well_stored s"
  shows "\<not> stored (mr_sessionId r) wa s \<and> stored (mr_sessionId r) wa s'"
proof
  show "stored (mr_sessionId r) wa s'"
    using insert_row_Some(1) [OF assms(1)] assms(2) by (simp add: stored_def names_message_def)
  show "\<not> stored (mr_sessionId r) wa s"
  proof
    assume "stored (mr_sessionId r) wa s"
    then obtain x where x: "x \<in> set (ms_rows s)" "mr_sessionId x = mr_sessionId r" "mr_waMessageId x = Some wa"
      by (auto simp: stored_def list_ex_iff names_message_def)
    then have "(mr_id x, mr_sessionId r, Some wa) \<in> row_key ` set (ms_rows s)" by (force simp: row_key_def image_iff)
    then have "mr_id x = ms_next s" using insert_row_Some(2) [OF assms(1,2)] by blast
    then show False using assms(3) x(1) by (auto simp: well_stored_def well_keyed_def)
  qed
qed

lemma other_steps_log:
  assumes "\<And>sid eph live liveLater fault now m final. e \<noteq> Inbound sid eph live liveLater fault now m final"
  shows "received_count sid wa (step e s) = received_count sid wa s"
proof (cases e)
  case (Inbound sid' eph live liveLater fault now m final)
  with assms show ?thesis by blast
next
  case (Echo sid' eph live liveLater fault now m final)
  then show ?thesis
    by (auto simp: handleOwnSendEcho_def received_count_def dest!: insert_row_log split: option.splits)
next
  case (Ack sid' live fault wa' status)
  then show ?thesis
    by (auto simp: handleMessageAck_def Let_def received_count_def advanceAck_def split: option.splits)
next
  case (History sid' eph now ms)
  have "ms_log (fold (\<lambda>(i::string, m) st. insert_or_ignore (history_row sid' now m) st) ms s) = ms_log s" for ms
  proof (induction ms arbitrary: s)
    case (Cons e ms)
    have "ms_log (insert_or_ignore r s) = ms_log s" for r
      by (auto simp: insert_or_ignore_def dest!: insert_row_log split: option.splits)
    then show ?case using Cons by (simp add: split_beta)
  qed simp
  with History show ?thesis by (simp add: persistHistoryMessages_def Let_def received_count_def)
next
  case (Save_Bulk sid' phone now d)
  then show ?thesis
    by (cases rule: saveOutgoing_cases [of sid' phone now "d\<lparr>sd_status := SENT\<rparr>" s]) (auto simp: received_count_def dest!: insert_row_log)
next
  case (Send_Start sid' phone now d)
  obtain s' where "insert_row (outgoing_row sid' phone now (d\<lparr>sd_waMessageId := None, sd_status := PENDING\<rparr>)) s = Some s'"
    "ms_log (start_send sid' phone now d s) = ms_log s'"
    by (rule start_send_cases [of sid' phone now d s]) simp
  with Send_Start show ?thesis by (auto simp: received_count_def dest!: insert_row_log)
qed (auto simp: ack_retry_def advanceAck_def handleMessageRevoked_def enqueueMessageMutation_def mutation_step_def persistSentState_def
      save_entity_def merge_sent_def drop_pending_def saveFailedMessage_def reaper_find_def reapRow_def Let_def received_count_def
      split: prod.splits mutation.splits list.splits option.splits send_phase.splits if_splits)

lemma inbound_count:
  assumes "well_stored s" and "wa \<noteq> []"
  shows "received_count sid wa (step e s) + (if stored sid wa s then 1 else 0)
       \<le> received_count sid wa s + (if faulted_inbound sid wa e then 1 else 0) + (if stored sid wa (step e s) then 1 else 0)"
proof (cases "\<exists>sid' eph live liveLater fault now m0 m. e = Inbound sid' eph live liveLater fault now m0 m")
  case False
  then show ?thesis using other_steps_log [of e sid wa s] stored_keeps [OF step_keeps [OF assms(1), of e], of sid wa] by auto
next
  case True
  then obtain sid' eph live liveLater fault now m0 m where e: "e = Inbound sid' eph live liveLater fault now m0 m" by blast
  let ?r = "row_of sid' m (if im_fromMe m then OUTGOING else INCOMING) False now"
  have row: "mr_sessionId ?r = sid'" "im_id m \<noteq> [] \<longrightarrow> mr_waMessageId ?r = Some (im_id m)"
    by (simp_all add: row_of_def storableWaMessageId_def)
  have "received_count sid wa (step e s) = received_count sid wa s \<or> (sid' = sid \<and> im_id m = wa)"
    unfolding e by (auto simp: handleInboundMessage_def persistInboundMessage_def received_count_def dest!: insert_row_log
        split: option.splits persist_outcome.splits prod.splits if_splits)
  moreover have "received_count sid wa (step e s) + (if stored sid wa s then 1 else 0)
       \<le> received_count sid wa s + (if faulted_inbound sid wa e then 1 else 0) + (if stored sid wa (step e s) then 1 else 0)"
    if same: "sid' = sid" "im_id m = wa"
  proof (cases "insert_row ?r s")
    case None
    then show ?thesis using same stored_keeps [OF step_keeps [OF assms(1), of e], of sid wa] unfolding e
      by (auto simp: handleInboundMessage_def persistInboundMessage_def)
  next
    case (Some s')
    have ins: "\<not> stored sid wa s" "stored sid wa s'" "received_count sid wa s' = received_count sid wa s"
      using insert_named [OF Some] row same assms received_same [OF insert_row_log [OF Some]] by auto
    moreover have "stored sid wa (log_event ev sid wa s') = stored sid wa s'" for ev by (simp add: stored_def)
    ultimately show ?thesis using Some same unfolding e
      by (auto simp: handleInboundMessage_def persistInboundMessage_def)
  qed
  ultimately show ?thesis
    using stored_keeps [OF step_keeps [OF assms(1), of e], of sid wa] by auto
qed

lemma run_count:
  assumes "wa \<noteq> []"
  shows "received_count sid wa (run es) \<le> length (filter (faulted_inbound sid wa) es) + (if stored sid wa (run es) then 1 else 0)"
proof (induction es rule: rev_induct)
  case Nil
  show ?case by (simp add: run_def empty_store_def received_count_def stored_def)
next
  case (snoc e es)
  have "run (es @ [e]) = step e (run es)" by (simp add: run_def)
  then show ?case using snoc inbound_count [OF run_well assms, of sid e es] by (auto split: if_splits)
qed

section \<open>Acks\<close>

definition ack_advance :: "delivery_status \<Rightarrow> message_status \<Rightarrow> message_status" where
  "ack_advance d st =
     (case deliveryStatusToMessageStatus d of
        None \<Rightarrow> st
      | Some t \<Rightarrow> if st \<in> set (ackStatusTransitionFrom t) then t else st)"

text \<open>What a sequence of acks comes to: the first one that says anything decides between failed and
  not, and among the others the furthest counts.\<close>

definition ack_outcome :: "delivery_status list \<Rightarrow> message_status" where
  "ack_outcome ds =
     (case dropWhile (\<lambda>d. deliveryStatusToMessageStatus d = None) ds of
        DS_failed # _ \<Rightarrow> FAILED
      | _ \<Rightarrow> if DS_read \<in> set ds then READ else if DS_delivered \<in> set ds then DELIVERED else SENT)"

lemma ack_table [simp]:
  "ack_advance DS_pending st = st" "ack_advance DS_sent st = st"
  "ack_advance DS_delivered SENT = DELIVERED" "ack_advance DS_read SENT = READ" "ack_advance DS_failed SENT = FAILED"
  "ack_advance DS_delivered DELIVERED = DELIVERED" "ack_advance DS_read DELIVERED = READ" "ack_advance DS_failed DELIVERED = DELIVERED"
  "ack_advance d READ = READ" "ack_advance d FAILED = FAILED"
  by (cases d; simp add: ack_advance_def)+

lemma ack_stays: "fold ack_advance ds READ = READ" "fold ack_advance ds FAILED = FAILED"
  "fold ack_advance ds DELIVERED = (if DS_read \<in> set ds then READ else DELIVERED)"
proof -
  show read: "fold ack_advance ds READ = READ" for ds by (induction ds) simp_all
  show "fold ack_advance ds FAILED = FAILED" by (induction ds) simp_all
  show "fold ack_advance ds DELIVERED = (if DS_read \<in> set ds then READ else DELIVERED)"
  proof (induction ds)
    case (Cons d ds)
    then show ?case using read by (cases d) simp_all
  qed simp
qed

lemma ack_fold: "fold ack_advance ds SENT = ack_outcome ds"
proof (induction ds)
  case (Cons d ds)
  then show ?case by (cases d) (simp_all add: ack_outcome_def ack_stays)
qed (simp add: ack_outcome_def)

lemma ack_rows:
  "ms_rows (step (Ack sid True False wa d) s)
     = map (\<lambda>r. if names_message sid wa r then r\<lparr>mr_status := ack_advance d (mr_status r)\<rparr> else r) (ms_rows s)"
proof (cases "deliveryStatusToMessageStatus d")
  case None
  then show ?thesis by (cases d) (simp_all add: handleMessageAck_def Let_def map_idI)
next
  case (Some t)
  have "ms_rows (advanceAck sid wa t s)
      = map (\<lambda>r. if names_message sid wa r then r\<lparr>mr_status := ack_advance d (mr_status r)\<rparr> else r) (ms_rows s)"
    using Some by (auto simp: advanceAck_def update_rows_def advance_rows_def ack_advance_def)
  moreover have "ms_rows (advanceAck sid wa t s) = ms_rows s" if "affected (advance_rows sid wa t) s = 0"
    using that by (auto simp: affected_def advanceAck_def update_rows_def filter_empty_conv map_idI)
  ultimately show ?thesis using Some by (auto simp: handleMessageAck_def Let_def)
qed

lemma ack_run:
  "r \<in> set (ms_rows s) \<Longrightarrow> names_message sid wa r \<Longrightarrow>
     r\<lparr>mr_status := fold ack_advance ds (mr_status r)\<rparr> \<in> set (ms_rows (fold (\<lambda>d. step (Ack sid True False wa d)) ds s))"
proof (induction ds arbitrary: r s)
  case (Cons d ds)
  let ?r = "r\<lparr>mr_status := ack_advance d (mr_status r)\<rparr>"
  have "?r \<in> set (ms_rows (step (Ack sid True False wa d) s))" using Cons.prems unfolding ack_rows by force
  moreover have "names_message sid wa ?r" using Cons.prems(2) by (simp add: names_message_def)
  ultimately have "?r\<lparr>mr_status := fold ack_advance ds (mr_status ?r)\<rparr>
      \<in> set (ms_rows (fold (\<lambda>d. step (Ack sid True False wa d)) ds (step (Ack sid True False wa d) s)))"
    by (rule Cons.IH)
  then show ?case by (simp del: step.simps)
qed simp

section \<open>A send and its echo\<close>

lemma filter_replace:
  assumes "distinct (map mr_id rows)" and "filter (names_message sid wa) rows = []" and "names_message sid wa e"
  shows "filter (names_message sid wa) (replace_row e rows) = [e]"
proof -
  have "filter (names_message sid wa) (map (\<lambda>r. if mr_id r = mr_id e then e else r) rows) = (if mr_id e \<in> mr_id ` set rows then [e] else [])"
    using assms(1,2)
  proof (induction rows)
    case (Cons r rows)
    have "mr_id r = mr_id e \<Longrightarrow> mr_id e \<notin> mr_id ` set rows" using Cons.prems(1) by auto
    then show ?case using Cons assms(3) by (auto split: if_splits)
  qed simp
  moreover have "list_ex (\<lambda>r. mr_id r = mr_id e) rows \<Longrightarrow> mr_id e \<in> mr_id ` set rows" by (auto simp: list_ex_iff) (metis image_eqI)
  ultimately show ?thesis using assms(2,3) by (simp add: replace_row_def)
qed

lemma not_stored_filter: "\<not> stored sid wa s \<longleftrightarrow> filter (names_message sid wa) (ms_rows s) = []"
  by (auto simp: stored_def list_ex_iff filter_empty_conv)

lemma echo_step:
  assumes "im_fromMe m" "\<not> im_isStatusBroadcast m" "im_id m = wa" "wa \<noteq> []" "\<not> stored sid wa s"
  obtains r0 where "ms_rows (step (Echo sid True True True False now m m) s) = ms_rows s @ [r0]" "mr_id r0 = ms_next s"
    "names_message sid wa r0" "mr_status r0 = SENT" "ms_flows (step (Echo sid True True True False now m m) s) = ms_flows s"
proof -
  let ?r = "(row_of sid m OUTGOING True now)\<lparr>mr_id := ms_next s\<rparr>"
  have wa: "mr_waMessageId ?r = Some wa" "mr_sessionId ?r = sid" using assms(3,4) by (simp_all add: row_of_def storableWaMessageId_def)
  then have "\<not> unique_violation ?r (ms_rows s)" using assms(5) by (auto simp: unique_violation_def stored_def list_ex_iff)
  then have "insert_row (row_of sid m OUTGOING True now) s = Some (s\<lparr>ms_rows := ms_rows s @ [?r], ms_next := Suc (ms_next s)\<rparr>)"
    by (simp add: insert_row_def Let_def)
  then show ?thesis using assms(1,2) wa
    by (intro that [of ?r]) (simp_all add: handleOwnSendEcho_def shouldSkipEphemeralMessage_def names_message_def row_of_def)
qed

section \<open>The reaper\<close>

lemma reap_rows:
  "\<forall>r \<in> set (ms_rows s). reapable c r \<longrightarrow> mr_id r \<in> mr_id ` set (ms_reaping s) \<Longrightarrow>
     (\<forall>r \<in> set (ms_rows (fold (\<lambda>_. step (Reap_Row now False)) (ms_reaping s) s)). \<not> reapable c r)"
proof (induction "ms_reaping s" arbitrary: s)
  case (Cons row rest)
  let ?s = "step (Reap_Row now False) s"
  have q: "ms_reaping s = row # rest" using Cons.hyps(2) by simp
  then have q': "ms_reaping ?s = rest" by (simp add: reapRow_def)
  have "mr_id r \<in> mr_id ` set rest" if r: "r \<in> set (ms_rows ?s)" "reapable c r" for r
  proof -
    have "r \<in> set (ms_rows s)" "mr_id r \<noteq> mr_id row"
      using r q by (auto simp: reapRow_def update_rows_def reapable_def split: if_splits)
    then show ?thesis using Cons.prems r(2) q by auto
  qed
  then have "\<forall>r \<in> set (ms_rows (fold (\<lambda>_. step (Reap_Row now False)) (ms_reaping ?s) ?s)). \<not> reapable c r"
    using Cons.hyps(1) [of ?s] q' by blast
  then show ?case unfolding q q' by (simp del: step.simps)
qed auto

section \<open>Properties\<close>



text \<open>C23. An inbound message is announced at most once: however often the engine fires it again, and
  however inserts interleave, \<open>message.received\<close> goes out once per message, plus once for every time the
  insert failed on a fault of the database, where the pipeline fails open.\<close>

theorem received_at_most_once:
  assumes "wa \<noteq> []"
  shows "length (filter (\<lambda>x. x = (''message.received'', sid, wa)) (ms_log (run es)))
    \<le> Suc (length (filter (faulted_inbound sid wa) es))"
  using run_count [OF assms, of sid es] by (auto simp: received_count_def split: if_splits)

text \<open>The stored status is what the acks say, in whatever order they come: a late ack never takes back
  a further one, and failed counts exactly when nothing else was reported before it.\<close>

theorem acks_settle:
  assumes "r \<in> set (ms_rows (run es))" and "names_message sid wa r" and "mr_status r = SENT"
  shows "r\<lparr>mr_status := ack_outcome ds\<rparr> \<in> set (ms_rows (run (es @ map (\<lambda>d. Ack sid True False wa d) ds)))"
  using ack_run [OF assms(1,2), of ds] assms(3) by (simp add: ack_fold run_def fold_map comp_def)


text \<open>No send stays pending for ever: a sweep that has room for the backlog and meets no fault leaves
  no outgoing row pending that was older than the grace period when it began.\<close>

theorem reaper_settles_stranded_sends:
  assumes "ms_reaping (run es) = []"
    and "length (filter (reapable (now - rp_graceMs opts)) (ms_rows (run es))) \<le> nat (rp_batchSize opts)"
    and "s = run (es @ [Reap_Find opts now])"
  shows "\<forall>r \<in> set (ms_rows (fold (\<lambda>_. step (Reap_Row later False)) (ms_reaping s) s)). \<not> reapable (now - rp_graceMs opts) r"
proof -
  have s: "s = step (Reap_Find opts now) (run es)" using assms(3) by (simp add: run_def)
  have rows: "ms_rows s = ms_rows (run es)" and q: "set (ms_reaping s) = {r \<in> set (ms_rows (run es)). reapable (now - rp_graceMs opts) r}"
    using assms(1,2) by (simp_all add: s reaper_find_def)
  show ?thesis by (rule reap_rows) (auto simp: rows q)
qed

text \<open>The oracle that filters repetitions cannot tell who wrote the row: a message that the history
  sync stored before the live event arrives is never announced at all.\<close>

theorem history_swallows_announcement:
  assumes "im_id m \<noteq> []" and "\<not> im_isStatusBroadcast m" and "im_chatId m \<noteq> []" "im_from m \<noteq> []" "im_to m \<noteq> []"
  shows "stored sid (im_id m) (run [History sid True now [m]])
    \<and> ms_log (run [History sid True now [m], Inbound sid True True True False later m m]) = []"
proof -
  have cand: "history_candidate True m" using assms by (simp add: history_candidate_def)
  have mid: "mr_waMessageId (history_row sid now m) = Some (im_id m)" "mr_sessionId (history_row sid now m) = sid"
    using assms(1) by (simp_all add: history_row_def row_of_def storableWaMessageId_def)
  have wf: "well_stored empty_store" using run_well [of "[]"] by (simp add: run_def)
  obtain s1 where s1: "insert_row (history_row sid now m) empty_store = Some s1"
    by (simp add: insert_row_def unique_violation_def empty_store_def Let_def mid)
  have r1: "run [History sid True now [m]] = s1"
    using s1 cand by (simp add: run_def persistHistoryMessages_def insert_or_ignore_def)
  have st: "stored sid (im_id m) s1" using insert_named [OF s1 mid(1) wf] mid(2) by simp
  have "insert_row (row_of sid m d False later) s1 = None" for d
    using insert_named [of "row_of sid m d False later" s1 _ "im_id m"] st insert_row_well [OF wf s1] assms(1)
    by (cases "insert_row (row_of sid m d False later) s1") (auto simp: row_of_def storableWaMessageId_def)
  moreover have "ms_log s1 = []" using insert_row_log [OF s1] by (simp add: empty_store_def)
  moreover have "run [History sid True now [m], Inbound sid True True True False later m m] = step (Inbound sid True True True False later m m) s1"
    using r1 by (simp add: run_def)
  ultimately show ?thesis
    using st r1 assms(2) by (simp add: handleInboundMessage_def persistInboundMessage_def shouldSkipEphemeralMessage_def)
qed

section \<open>Witnesses\<close>

definition demo_message :: incoming where
  "demo_message =
     \<lparr>im_id = ''w'', im_chatId = ''c'', im_from = ''a'', im_to = ''b'', im_body = ''x'', im_type = ''image'', im_fromMe = True,
      im_timestamp = 7, im_isStatusBroadcast = False, im_ephemeralDuration = None, im_media = None, im_quotedMessage = None,
      im_call = None, im_buttons = []\<rparr>"

definition demo_echo :: event where
  "demo_echo = Echo ''s'' True True True False 0 demo_message demo_message"

definition demo_send :: event where
  "demo_send = Send_Start ''s'' ''1'' 0 \<lparr>sd_waMessageId = None, sd_chatId = ''c'', sd_body = ''x'', sd_type = ''image'', sd_timestamp = None,
     sd_status = PENDING, sd_metadata = Some [(''media'', JObj [(''data'', JStr ''QUJD'')])]\<rparr>"

lemma demo_echo_row: "ms_rows (run [demo_echo]) \<noteq> []" "mr_waMessageId (hd (ms_rows (run [demo_echo]))) = Some ''w''"
  "mr_sessionId (hd (ms_rows (run [demo_echo]))) = ''s''" "mr_status (hd (ms_rows (run [demo_echo]))) = SENT"
  by code_simp+


lemma received_at_most_once_witness:
  "length (filter (\<lambda>x. x = (''message.received'', ''s'', ''w''))
     (ms_log (run [Inbound ''s'' True True True False 0 demo_message demo_message, Inbound ''s'' True True True False 1 demo_message demo_message]))) \<le> 1"
  using received_at_most_once [of "''w''" "''s''" "[Inbound ''s'' True True True False 0 demo_message demo_message, Inbound ''s'' True True True False 1 demo_message demo_message]"]
  by simp

lemma acks_settle_witness:
  "READ \<in> mr_status ` set (ms_rows (run [demo_echo, Ack ''s'' True False ''w'' DS_read, Ack ''s'' True False ''w'' DS_delivered]))"
proof -
  have "names_message ''s'' ''w'' (hd (ms_rows (run [demo_echo])))" using demo_echo_row(2,3) by (simp add: names_message_def)
  from acks_settle [OF list.set_sel(1) [OF demo_echo_row(1)] this demo_echo_row(4), of "[DS_read, DS_delivered]"]
  have "(hd (ms_rows (run [demo_echo])))\<lparr>mr_status := ack_outcome [DS_read, DS_delivered]\<rparr>
      \<in> set (ms_rows (run [demo_echo, Ack ''s'' True False ''w'' DS_read, Ack ''s'' True False ''w'' DS_delivered]))"
    by simp
  moreover have "ack_outcome [DS_read, DS_delivered] = READ" by code_simp
  ultimately show ?thesis by force
qed

definition demo_entity :: message_row where
  "demo_entity = sf_entity (ms_flows (run [demo_send]) ! 0)"

lemma demo_send_facts: "length (ms_flows (run [demo_send])) = 1" "sf_phase (ms_flows (run [demo_send]) ! 0) = Sending"
  "mr_sessionId demo_entity = ''s''" "mr_metadata demo_entity = Some [(''media'', JObj [(''data'', JStr ''QUJD'')])]"
  "\<not> isUrlPointerMetadata (Some [(''media'', JObj [(''data'', JStr ''QUJD'')])])" "\<not> stored ''s'' ''w'' (run [demo_send])"
  by code_simp+


definition demo_options :: reaper_options where
  "demo_options = \<lparr>rp_intervalMs = 1, rp_graceMs = 5, rp_batchSize = 50\<rparr>"

lemma reaper_settles_stranded_sends_witness:
  "ms_reaping (run [demo_send, Reap_Find demo_options 10]) \<noteq> []
   \<and> (\<forall>r \<in> set (ms_rows (fold (\<lambda>_. step (Reap_Row 11 False)) (ms_reaping (run [demo_send, Reap_Find demo_options 10]))
         (run [demo_send, Reap_Find demo_options 10]))). \<not> reapable 5 r)"
proof
  show "ms_reaping (run [demo_send, Reap_Find demo_options 10]) \<noteq> []" by code_simp
  have "ms_reaping (run [demo_send]) = []" "length (filter (reapable 5) (ms_rows (run [demo_send]))) = 1" by code_simp+
  then show "\<forall>r \<in> set (ms_rows (fold (\<lambda>_. step (Reap_Row 11 False)) (ms_reaping (run [demo_send, Reap_Find demo_options 10]))
         (run [demo_send, Reap_Find demo_options 10]))). \<not> reapable 5 r"
    using reaper_settles_stranded_sends [of "[demo_send]" 10 demo_options "run [demo_send, Reap_Find demo_options 10]" 11]
    by (simp add: demo_options_def del: step.simps)
qed

lemma history_swallows_announcement_witness:
  "ms_log (run [History ''s'' True 0 [demo_message], Inbound ''s'' True True True False 1 demo_message demo_message]) = []"
  using history_swallows_announcement [of demo_message "''s''" 0 1] by (simp add: demo_message_def)

text \<open>A reaction that was read before a send merged its metadata onto the echo's row, and is written
  after it, takes the media of the send away again.\<close>

theorem stale_reaction_drops_media:
  "let s = run [demo_send, demo_echo, Send_Accepted 0 ''w'' 9 False, Enqueue ''s'' ''w'' (React ''b'' ''y''), Mutate ''s'' ''w'' False,
                Send_Merged 0 False, Mutate ''s'' ''w'' False, Send_Dropped 0 False]
   in map mr_metadata (ms_rows s)
        = [Some [(''media'', JObj OMITTED_MEDIA), (''reactions'', JObj [(''b'', JStr ''y'')])]]"
  by code_simp

end
