(* ===== verification/Reconnect.thy ===== *)
theory Reconnect
  imports Json Js_Number Complex_Main
begin

text \<open>
  The reconnect decision of a session (src/src/modules/session/reconnect-policy.ts), the knobs it is
  given (\<open>resolveReconnectConfig\<close> of session-engine-lifecycle.service.ts) and the classification of
  engine failures (src/src/engine/terminal-engine-failure.ts). Delays are rational milliseconds; the
  one place where the range of a double shows, the overflow of the backoff, is written out.
\<close>

section \<open>The knobs\<close>

text \<open>\<open>Number(value)\<close> on a member of the opaque session configuration.\<close>

fun array_text :: "jsval \<Rightarrow> string" where
  "array_text JUndefined = []"
| "array_text JNull = []"
| "array_text (JBool b) = (if b then ''true'' else ''false'')"
| "array_text (JNum i) = show_int i"
| "array_text (JStr s) = s"
| "array_text (JArr vs) = join_with '','' (map array_text vs)"
| "array_text (JObj fs) = ''[object Object]''"

definition to_number :: "jsval \<Rightarrow> jsnum" where
  "to_number v =
     (case v of
        JUndefined \<Rightarrow> NaN
      | JNull \<Rightarrow> Dec 0 0
      | JBool b \<Rightarrow> Dec (if b then 1 else 0) 0
      | JNum i \<Rightarrow> Dec i 0
      | JStr s \<Rightarrow> js_Number s
      | JArr vs \<Rightarrow> js_Number (array_text (JArr vs))
      | JObj fs \<Rightarrow> NaN)"

fun num_rat :: "jsnum \<Rightarrow> rat" where
  "num_rat (Dec m e) = (if 0 \<le> e then of_int (m * 10 ^ nat e) else of_int m / 10 ^ nat (- e))"
| "num_rat _ = 0"

definition clampNumber :: "rat \<Rightarrow> rat \<Rightarrow> rat \<Rightarrow> rat" where
  "clampNumber v lo hi = min (max v lo) hi"

definition RECONNECT_DELAY_CAP_MS :: rat where "RECONNECT_DELAY_CAP_MS = 300000"
definition RECONNECT_LOOP_ALERT_INTERVAL_ATTEMPTS :: nat where "RECONNECT_LOOP_ALERT_INTERVAL_ATTEMPTS = 5"

text \<open>The maximum of attempts is \<open>None\<close> where the code has \<open>Infinity\<close>.\<close>

definition resolveReconnectConfig :: "payload \<Rightarrow> nat option \<times> rat" where
  "resolveReconnectConfig config =
     (let baseRaw = to_number (field_of config ''reconnectBaseDelay'');
          attemptsRaw = to_number (field_of config ''maxReconnectAttempts'')
      in (if num_finite attemptsRaw then Some (nat \<lfloor>clampNumber (num_rat attemptsRaw) 0 20\<rfloor>) else None,
          clampNumber (if num_finite baseRaw then num_rat baseRaw else 5000) 1000 300000))"

section \<open>The decision\<close>

record reconnect_attempts =
  ra_attempts :: nat
  ra_max :: "nat option"
  ra_base :: rat

text \<open>The reason of an exhausted budget, and what a decision says.\<close>

datatype exhausted_reason = Reconnect_Disabled | Attempts_Failed nat

datatype reconnect_decision =
    Exhausted exhausted_reason
  | Scheduled rat nat bool

text \<open>A double overflows to infinity from the midpoint above the largest one on.\<close>

definition double_finite :: "rat \<Rightarrow> bool" where
  "double_finite x \<longleftrightarrow> \<bar>x\<bar> < 2 ^ 1024 - 2 ^ 970"

text \<open>Evaluation compares with the small bound first.\<close>

lemma double_finite_code [code]: "double_finite x \<longleftrightarrow> (if \<bar>x\<bar> < 10 ^ 9 then True else \<bar>x\<bar> < 2 ^ 1024 - 2 ^ 970)"
proof -
  have "(10::rat) ^ 9 \<le> 2 ^ 1024 - 2 ^ 970" by simp
  then show ?thesis unfolding double_finite_def by auto
qed

definition clampReconnectDelay :: "rat \<Rightarrow> rat \<Rightarrow> rat" where
  "clampReconnectDelay rawDelay baseDelay =
     clampNumber (if double_finite rawDelay then rawDelay else baseDelay) 0 RECONNECT_DELAY_CAP_MS"

definition decideReconnect :: "rat \<Rightarrow> reconnect_attempts \<Rightarrow> reconnect_decision \<times> reconnect_attempts" where
  "decideReconnect jitter st =
     (if (case ra_max st of Some m \<Rightarrow> m \<le> ra_attempts st | None \<Rightarrow> False)
      then (Exhausted (if ra_max st = Some 0 then Reconnect_Disabled else Attempts_Failed (ra_attempts st)), st)
      else
        let delayMs = clampReconnectDelay (ra_base st * 2 ^ ra_attempts st + jitter) (ra_base st);
            n = ra_attempts st + 1
        in (Scheduled delayMs n (0 < n \<and> n mod RECONNECT_LOOP_ALERT_INTERVAL_ATTEMPTS = 0), st\<lparr>ra_attempts := n\<rparr>))"

section \<open>Failures an automatic retry cannot fix\<close>

definition terminal_prefixes :: "string list" where
  "terminal_prefixes =
     [''Authentication failed'', ''Connection replaced by another instance (440)'', ''Account rejected by WhatsApp (403)'',
      ''Logged out by WhatsApp, but the local credential cleanup failed'']"

definition STALE_PROFILE_ADVICE :: string where
  "STALE_PROFILE_ADVICE = ''WhatsApp Web'' @ [CHR 0x27] @ ''s page context was destroyed during startup.''"

fun str_includes :: "string \<Rightarrow> string \<Rightarrow> bool" where
  "str_includes [] t = (t = [])"
| "str_includes (c # s) t = (take (length t) (c # s) = t \<or> str_includes s t)"

definition isKnownTerminalEngineFailure :: "string \<Rightarrow> bool" where
  "isKnownTerminalEngineFailure reason \<longleftrightarrow>
     list_ex (\<lambda>p. take (length p) reason = p) terminal_prefixes \<or> str_includes reason STALE_PROFILE_ADVICE"

section \<open>The budget\<close>

text \<open>Consecutive decisions of one outage, the jitter of each given.\<close>

fun outage :: "rat list \<Rightarrow> reconnect_attempts \<Rightarrow> reconnect_decision list" where
  "outage [] st = []"
| "outage (j # js) st = (case decideReconnect j st of (d, st') \<Rightarrow> d # outage js st')"

definition is_scheduled :: "reconnect_decision \<Rightarrow> bool" where
  "is_scheduled d \<longleftrightarrow> (case d of Scheduled _ _ _ \<Rightarrow> True | Exhausted _ \<Rightarrow> False)"

lemma outage_from:
  "i < length js \<Longrightarrow> outage js st ! i =
     (case ra_max st of
        Some m \<Rightarrow> if ra_attempts st + i < m then fst (decideReconnect (js ! i) (st\<lparr>ra_attempts := ra_attempts st + i\<rparr>))
          else Exhausted (if m = 0 then Reconnect_Disabled else Attempts_Failed (max m (ra_attempts st)))
      | None \<Rightarrow> fst (decideReconnect (js ! i) (st\<lparr>ra_attempts := ra_attempts st + i\<rparr>)))"
proof (induction js arbitrary: i st)
  case (Cons j js)
  show ?case
  proof (cases i)
    case 0
    then show ?thesis by (auto simp: decideReconnect_def Let_def split: option.splits)
  next
    case (Suc k)
    then show ?thesis
      using Cons.IH [of k "snd (decideReconnect j st)"] Cons.prems
      by (auto simp: decideReconnect_def Let_def split: option.splits)
  qed
qed simp

text \<open>C35. With a budget of \<open>m\<close> attempts an outage schedules exactly \<open>m\<close> reconnects, numbered from 1,
  and every later decision gives up; without one it never gives up. Every scheduled delay is between
  0 and 5 minutes.\<close>

theorem outage_spends_its_budget:
  assumes "ra_attempts st = 0" and "i < length js" and "\<forall>j \<in> set js. 0 \<le> j" and "0 \<le> ra_base st"
  shows "case outage js st ! i of
           Scheduled delayMs n alert \<Rightarrow>
             n = i + 1 \<and> (\<forall>m. ra_max st = Some m \<longrightarrow> i < m) \<and> 0 \<le> delayMs \<and> delayMs \<le> 300000 \<and> (alert \<longleftrightarrow> n mod 5 = 0)
         | Exhausted r \<Rightarrow> \<exists>m. ra_max st = Some m \<and> m \<le> i \<and> r = (if m = 0 then Reconnect_Disabled else Attempts_Failed m)"
  using assms
  by (auto simp: outage_from decideReconnect_def Let_def clampReconnectDelay_def clampNumber_def RECONNECT_DELAY_CAP_MS_def
      RECONNECT_LOOP_ALERT_INTERVAL_ATTEMPTS_def split: option.splits)

text \<open>The backoff grows with the attempts up to the cap and stays there as long as the raw delay
  is finite: a longer streak never waits less.\<close>

theorem backoff_grows_until_overflow:
  assumes "decideReconnect j st = (Scheduled d n a, st')" and "decideReconnect j (st\<lparr>ra_attempts := k\<rparr>) = (Scheduled d' n' a', st'')"
    and "ra_attempts st \<le> k" and "0 \<le> ra_base st" and "0 \<le> j" and "double_finite (ra_base st * 2 ^ k + j)"
  shows "d \<le> d'"
proof -
  have le: "ra_base st * 2 ^ ra_attempts st + j \<le> ra_base st * 2 ^ k + j"
    using assms(3,4) by (simp add: mult_left_mono power_increasing)
  moreover have "0 \<le> ra_base st * 2 ^ ra_attempts st + j" using assms(4,5) by simp
  ultimately have "double_finite (ra_base st * 2 ^ ra_attempts st + j)"
    using assms(6) unfolding double_finite_def by linarith
  then show ?thesis
    using assms le unfolding decideReconnect_def Let_def clampReconnectDelay_def clampNumber_def
    by (auto split: if_splits option.splits intro: min.mono max.mono)
qed

text \<open>C36. Past the range of a double the backoff collapses: from the 1013th consecutive attempt on,
  with the default base delay of 5 seconds, a reconnect is scheduled every 5 seconds and not every 5
  minutes, for as long as the outage lasts.\<close>

theorem overflowed_backoff_hammers:
  assumes "ra_max st = None" and "ra_base st = 5000" and "1012 \<le> ra_attempts st" and "0 \<le> j"
  shows "\<exists>n a st'. decideReconnect j st = (Scheduled 5000 n a, st')"
proof -
  have "(2::rat) ^ 1012 \<le> 2 ^ ra_attempts st" using assms(3) by (intro power_increasing) simp_all
  then have "5000 * 2 ^ 1012 \<le> 5000 * (2::rat) ^ ra_attempts st + j" using assms(4) by linarith
  moreover have "2 ^ 1024 - 2 ^ 970 \<le> 5000 * (2::rat) ^ 1012" by simp
  ultimately have "\<not> double_finite (5000 * 2 ^ ra_attempts st + j)" unfolding double_finite_def by linarith
  then show ?thesis
    using assms by (simp add: decideReconnect_def Let_def clampReconnectDelay_def clampNumber_def RECONNECT_DELAY_CAP_MS_def)
qed

text \<open>The attempt before still waits for the cap.\<close>

lemma last_capped_attempt:
  "fst (decideReconnect 0 \<lparr>ra_attempts = 1011, ra_max = None, ra_base = 5000\<rparr>) = Scheduled 300000 1012 False"
  by (simp add: decideReconnect_def clampReconnectDelay_def clampNumber_def RECONNECT_DELAY_CAP_MS_def double_finite_def
      RECONNECT_LOOP_ALERT_INTERVAL_ATTEMPTS_def)

text \<open>Whatever the opaque configuration holds, the base delay is between 1 second and 5 minutes and
  a finite budget is at most 20; a budget written as null counts as 0 and disables reconnects.\<close>

theorem reconnect_knobs_are_bounded:
  "1000 \<le> snd (resolveReconnectConfig config) \<and> snd (resolveReconnectConfig config) \<le> 300000
   \<and> (case fst (resolveReconnectConfig config) of Some m \<Rightarrow> m \<le> 20 | None \<Rightarrow> True)
   \<and> fst (resolveReconnectConfig ((''maxReconnectAttempts'', JNull) # config)) = Some 0
   \<and> resolveReconnectConfig [] = (None, 5000)"
proof -
  have "nat \<lfloor>clampNumber x 0 20\<rfloor> \<le> 20" for x :: rat
    unfolding clampNumber_def by (simp add: nat_le_iff floor_le_iff min_less_iff_disj)
  then show ?thesis
    by (simp add: resolveReconnectConfig_def Let_def to_number_def field_of_def clampNumber_def)
qed

section \<open>Witnesses\<close>

lemma outage_spends_its_budget_witness:
  "outage [0, 10, 20] \<lparr>ra_attempts = 0, ra_max = Some 2, ra_base = 1000\<rparr>
     = [Scheduled 1000 1 False, Scheduled 2010 2 False, Exhausted (Attempts_Failed 2)]
   \<and> is_scheduled (outage [0, 10, 20] \<lparr>ra_attempts = 0, ra_max = Some 2, ra_base = 1000\<rparr> ! 1)"
proof -
  have "outage [0, 10, 20] \<lparr>ra_attempts = 0, ra_max = Some 2, ra_base = 1000\<rparr>
     = [Scheduled 1000 1 False, Scheduled 2010 2 False, Exhausted (Attempts_Failed 2)]"
    by (simp add: decideReconnect_def Let_def clampReconnectDelay_def clampNumber_def RECONNECT_DELAY_CAP_MS_def double_finite_def
        RECONNECT_LOOP_ALERT_INTERVAL_ATTEMPTS_def)
  then show ?thesis
    using outage_spends_its_budget [of "\<lparr>ra_attempts = 0, ra_max = Some 2, ra_base = 1000\<rparr>" 1 "[0, 10, 20]"]
    by (simp add: is_scheduled_def)
qed

lemma backoff_grows_until_overflow_witness: "(2000::rat) \<le> 300000"
  by (rule backoff_grows_until_overflow [of 0 "\<lparr>ra_attempts = 1, ra_max = None, ra_base = 1000\<rparr>" 2000 2 False
        "\<lparr>ra_attempts = 2, ra_max = None, ra_base = 1000\<rparr>" 20 300000 21 False "\<lparr>ra_attempts = 21, ra_max = None, ra_base = 1000\<rparr>"])
    (simp_all add: decideReconnect_def Let_def clampReconnectDelay_def clampNumber_def RECONNECT_DELAY_CAP_MS_def double_finite_def
      RECONNECT_LOOP_ALERT_INTERVAL_ATTEMPTS_def)

lemma overflowed_backoff_hammers_witness:
  "\<exists>n a st'. decideReconnect 250 \<lparr>ra_attempts = 2000, ra_max = None, ra_base = 5000\<rparr> = (Scheduled 5000 n a, st')"
  by (rule overflowed_backoff_hammers) simp_all

end
