(* ===== verification/Session_State.thy ===== *)
theory Session_State
  imports Reconnect Wa_Id
begin

text \<open>
  The lifecycle of one session on one node: src/src/modules/session/session-engine-lifecycle.service.ts,
  its control verbs (session-engine-controls.ts), fences (session-lifecycle-fences.ts), status
  broadcaster and engine callbacks (session-engine-event-wiring.ts), over the engine registry
  (src/src/engine/engine-registry.service.ts). Every map of the code that is keyed by the session id is
  here the entry of the one session; the other sessions only count against the concurrency cap.

  An async function is a flow: its program counter says at which await it stands and holds the local
  variables that are read after it. A step of the machine is one call from outside or one resumption
  of a flow, with the answer of what it awaited; what the code does between two awaits is one step, and
  flows interleave freely at their awaits. Engines are numbered in the order of their creation.
\<close>

section \<open>Data\<close>

datatype session_status =
  SCreated | SInitializing | SQr_Ready | SAuthenticating | SReady | SDisconnected | SAction_Required | SFailed

record session_row =
  sr_name :: string
  sr_phone :: "string option"
  sr_config :: payload
  sr_status :: session_status

datatype life_reason =
    Engine_Reason string
  | Init_Timed_Out
  | Gateway_Timeout
  | Auth_Timed_Out
  | Loop_Banner nat
  | Rebind_Rejected string string
  | Gave_Up exhausted_reason "life_reason option"
  | Fence_Closed
  | Db_Error

text \<open>How an awaited operation ends: it resolves, it rejects, or its deadline passes first.\<close>

datatype answer = Resolves | Rejects life_reason | Deadline

datatype outcome =
    Done | Not_Found | Already_Starting | Already_Started | At_Capacity | Teardown_Pending | Not_Started
  | Stop_Incomplete | Logout_Incomplete | Held_Elsewhere | Failed_With life_reason

datatype timer = No_Timer | Armed | Fired

text \<open>The side effects of a parked failure.\<close>

datatype parked_run = Run_Fail nat life_reason | Run_Persist_Failed

text \<open>A \<open>ReconnectState\<close> object; \<open>rt_row\<close> is the session its timer closes over.\<close>

record rstate =
  rt_try :: reconnect_attempts
  rt_timer :: timer
  rt_row :: "session_row option"
  rt_inInit :: bool
  rt_parked :: "(parked_run \<times> bool) option"

datatype verb = Stop | Logout | Force_Kill | Delete

text \<open>Who runs \<open>initializeEngine\<close>: a start, or a reconnect with its state object.\<close>

datatype builder = By_Start | By_Reconnect nat

datatype pc =
    S_Row
  | S_Fence session_row "nat list"
  | S_Hook session_row
  | I_Write builder nat session_row
  | I_Init builder nat session_row
  | I_Kill builder nat session_row
  | I_Down builder session_row
  | S_CatchKill life_reason
  | S_CatchWrite life_reason
  | Retired builder
  | Retire_Kill builder nat
  | Purge builder
  | S_Final
  | R_Destroy nat nat session_row
  | R_Force nat nat session_row
  | R_Fence nat session_row "nat list"
  | D_Row nat string
  | V_Owner verb
  | V_Row verb
  | V_Initial verb nat session_row "nat option"
  | V_Teardown verb nat session_row "nat option"
  | V_Escalate nat
  | V_Incomplete nat
  | V_Write verb nat bool
  | Stop_Write
  | L_Phone bool
  | V_Final
  | X_Fence session_row "nat list"
  | X_Fence2 bool session_row "nat list"
  | X_Refused
  | X_Hook session_row
  | X_Remove
  | X_Purge
  | B_Logout nat nat
  | B_Write
  | O_Destroy nat
  | Q_Destroy
  | W_Status session_status
  | W_Phone
  | W_Ready string
  | Ended outcome

datatype life_event =
    Ev_Status session_status
  | Ev_Disconnected string
  | Ev_Authenticated string
  | Ev_Qr
  | Ev_Loop nat
  | Ev_Error life_reason

text \<open>
  The state. \<open>lf_teardown\<close> holds the operations that the promise in \<open>pendingTeardowns\<close> waits for and
  \<open>lf_outstanding\<close> those that did not settle; \<open>lf_pendingInitial\<close> names the engine and the flow whose
  write is in flight; \<open>lf_bound\<close> is the phone each engine's callbacks were built with. The last fields
  record what happened: the engines a teardown was called on, the flows whose first write failed, the
  engines that were granted a credential reset, and whether a refusal left a stop mark behind.
\<close>

record life =
  lf_row :: "session_row option"
  lf_dirs :: bool   \<comment> \<open>the auth directory is on disk\<close>
  lf_engine :: "nat option"
  lf_initializing :: bool
  lf_stopping :: bool
  lf_reconnect :: "nat option"
  lf_states :: "rstate list"
  lf_pendingInitial :: "(nat \<times> nat) option"
  lf_teardown :: "nat list"
  lf_outstanding :: "nat list"
  lf_ops :: nat
  lf_operator :: "nat option"
  lf_stuckUsed :: bool
  lf_error :: "life_reason option"
  lf_dispatched :: "session_status option"
  lf_owned :: bool
  lf_shutting :: bool
  lf_others :: nat
  lf_cap :: "nat option"
  lf_made :: nat
  lf_bound :: "string option list"
  lf_flows :: "pc list"
  lf_events :: "life_event list"
  lf_asked :: "nat list"
  lf_failedInit :: "nat list"
  lf_granted :: "nat list"
  lf_refused :: bool

section \<open>Primitives\<close>

definition go :: "nat \<Rightarrow> pc \<Rightarrow> life \<Rightarrow> life" where
  "go i p s = s\<lparr>lf_flows := (lf_flows s)[i := p]\<rparr>"

definition spawn :: "pc \<Rightarrow> life \<Rightarrow> life" where
  "spawn p s = s\<lparr>lf_flows := lf_flows s @ [p]\<rparr>"

definition record_event :: "life_event \<Rightarrow> life \<Rightarrow> life" where
  "record_event e s = s\<lparr>lf_events := lf_events s @ [e]\<rparr>"

text \<open>Calling a teardown method of an engine, and the registry operations.\<close>

definition ask :: "nat \<Rightarrow> life \<Rightarrow> life" where
  "ask e s = s\<lparr>lf_asked := lf_asked s @ [e]\<rparr>"

definition isLiveEngine :: "nat \<Rightarrow> life \<Rightarrow> bool" where
  "isLiveEngine e s \<longleftrightarrow> lf_engine s = Some e"

definition deleteIfLive :: "nat \<Rightarrow> life \<Rightarrow> life" where
  "deleteIfLive e s = (if isLiveEngine e s then s\<lparr>lf_engine := None\<rparr> else s)"

definition evictAndForceDestroy :: "nat \<Rightarrow> life \<Rightarrow> life" where
  "evictAndForceDestroy e s = ask e (s\<lparr>lf_engine := None\<rparr>)"

text \<open>\<open>SessionStatusBroadcaster\<close>: \<open>announce\<close>, and what follows the write of \<open>updateStatus\<close>.\<close>

definition announce :: "session_status \<Rightarrow> life \<Rightarrow> life" where
  "announce st s =
     (if lf_dispatched s = Some st then s else record_event (Ev_Status st) (s\<lparr>lf_dispatched := Some st\<rparr>))"

definition write_status :: "session_status \<Rightarrow> life \<Rightarrow> life" where
  "write_status st s = announce st (s\<lparr>lf_row := map_option (\<lambda>r. r\<lparr>sr_status := st\<rparr>) (lf_row s)\<rparr>)"

definition write_phone :: "string option \<Rightarrow> life \<Rightarrow> life" where
  "write_phone p s = s\<lparr>lf_row := map_option (\<lambda>r. r\<lparr>sr_phone := p\<rparr>) (lf_row s)\<rparr>"

text \<open>A status write the caller does not wait for, fenced on the ownership of the session.\<close>

definition persistStatus :: "session_status \<Rightarrow> life \<Rightarrow> life" where
  "persistStatus st s = (if lf_owned s then spawn (W_Status st) s else s)"

text \<open>\<open>readyRowUpdate\<close>: an empty phone keeps the stored one.\<close>

definition write_ready :: "string \<Rightarrow> life \<Rightarrow> life" where
  "write_ready phone s =
     s\<lparr>lf_row := map_option (\<lambda>r. r\<lparr>sr_status := SReady, sr_phone := (if phone = [] then sr_phone r else Some phone)\<rparr>) (lf_row s)\<rparr>"

definition set_rstate :: "nat \<Rightarrow> (rstate \<Rightarrow> rstate) \<Rightarrow> life \<Rightarrow> life" where
  "set_rstate st f s = s\<lparr>lf_states := (lf_states s)[st := f (lf_states s ! st)]\<rparr>"

definition cancelReconnect :: "life \<Rightarrow> life" where
  "cancelReconnect s =
     (case lf_reconnect s of
        None \<Rightarrow> s
      | Some st \<Rightarrow> (set_rstate st (\<lambda>r. r\<lparr>rt_timer := No_Timer\<rparr>) s)\<lparr>lf_reconnect := None\<rparr>)"

section \<open>Fences\<close>

definition trackPendingCredentialTeardown :: "life \<Rightarrow> life" where
  "trackPendingCredentialTeardown s =
     s\<lparr>lf_teardown := lf_teardown s @ [lf_ops s], lf_outstanding := lf_outstanding s @ [lf_ops s], lf_ops := Suc (lf_ops s)\<rparr>"

definition settle_teardown :: "nat \<Rightarrow> life \<Rightarrow> life" where
  "settle_teardown k s =
     (let out = removeAll k (lf_outstanding s)
      in s\<lparr>lf_outstanding := out, lf_teardown := (if set (lf_teardown s) \<inter> set out = {} then [] else lf_teardown s)\<rparr>)"

text \<open>\<open>awaitPendingTeardown\<close> with the operations of the entry it found: it passes once they have settled,
  and fails closed when the deadline comes first.\<close>

datatype fence = Fence_Passes | Fence_Waits | Fence_Fails

definition fence_result :: "nat list \<Rightarrow> answer \<Rightarrow> life \<Rightarrow> fence" where
  "fence_result ops a s =
     (if set ops \<inter> set (lf_outstanding s) = {} then Fence_Passes else if a = Deadline then Fence_Fails else Fence_Waits)"

definition writing :: "nat \<Rightarrow> life \<Rightarrow> bool" where
  "writing j s \<longleftrightarrow> (case lf_flows s ! j of I_Write _ _ _ \<Rightarrow> True | _ \<Rightarrow> False)"

text \<open>The promise \<open>awaitInitialStatus\<close> waits for, if it is that of the captured engine.\<close>

definition initial_write :: "nat \<Rightarrow> life \<Rightarrow> nat option" where
  "initial_write e s =
     (case lf_pendingInitial s of Some (e', j) \<Rightarrow> if e' = e then Some j else None | None \<Rightarrow> None)"

definition clear_operator :: "nat \<Rightarrow> life \<Rightarrow> life" where
  "clear_operator e s = (if lf_operator s = Some e then s\<lparr>lf_operator := None\<rparr> else s)"

end
