(* ===== verification/Session_Lifecycle.thy ===== *)
theory Session_Lifecycle
  imports Session_State
begin

text \<open>
  The operations on the state of Session_State: the reconnect effects, the engine callbacks, the
  control verbs and \<open>initializeEngine\<close>, each cut at its awaits, and the machine that interleaves them.
\<close>

section \<open>Reconnects\<close>

definition known_terminal :: "life_reason \<Rightarrow> bool" where
  "known_terminal r = (case r of Engine_Reason t \<Rightarrow> isKnownTerminalEngineFailure t | _ \<Rightarrow> False)"

definition run_parked :: "parked_run \<Rightarrow> life \<Rightarrow> life" where
  "run_parked p s =
     (case p of
        Run_Persist_Failed \<Rightarrow> persistStatus SFailed s
      | Run_Fail e r \<Rightarrow> evictAndForceDestroy e (persistStatus SFailed (record_event (Ev_Error r) (cancelReconnect s))))"

text \<open>\<open>parkReconnectInitFailure\<close>: whether the failure was parked, and the state after it.\<close>

definition parkReconnectInitFailure :: "parked_run \<Rightarrow> life_reason option \<Rightarrow> life \<Rightarrow> bool \<times> life" where
  "parkReconnectInitFailure run reason s =
     (case lf_reconnect s of
        None \<Rightarrow> (False, s)
      | Some st \<Rightarrow>
          let r = lf_states s ! st in
          if \<not> rt_inInit r then (False, s)
          else
            let terminal = (case reason of Some x \<Rightarrow> known_terminal x | None \<Rightarrow> False);
                displaced = (case rt_parked r of None \<Rightarrow> True | Some (_, t) \<Rightarrow> reason \<noteq> None \<and> \<not> t)
            in (True, if displaced then set_rstate st (\<lambda>r. r\<lparr>rt_parked := Some (run, terminal)\<rparr>) s else s))"

definition gave_up_reason :: "exhausted_reason \<Rightarrow> life \<Rightarrow> life_reason" where
  "gave_up_reason x s =
     Gave_Up x (case lf_error s of Some (Loop_Banner n) \<Rightarrow> None | other \<Rightarrow> other)"

definition scheduleReconnect :: "rat \<Rightarrow> session_row \<Rightarrow> life \<Rightarrow> life" where
  "scheduleReconnect jitter row s =
     (if lf_shutting s then s
      else case lf_reconnect s of
        None \<Rightarrow> s
      | Some st \<Rightarrow>
          (case decideReconnect jitter (rt_try (lf_states s ! st)) of
             (Exhausted x, _) \<Rightarrow>
               let r = gave_up_reason x s;
                   s1 = record_event (Ev_Error r) (persistStatus SFailed (s\<lparr>lf_error := Some r\<rparr>));
                   s2 = (case lf_engine s1 of Some e \<Rightarrow> evictAndForceDestroy e s1 | None \<Rightarrow> s1)
               in cancelReconnect s2
           | (Scheduled delayMs n alert, t) \<Rightarrow>
               (let s1 = (if alert then record_event (Ev_Loop n) s else s)
                in set_rstate st (\<lambda>r. r\<lparr>rt_try := t, rt_timer := Armed, rt_row := Some row\<rparr>) s1)))"

section \<open>Engine callbacks\<close>

definition terminal_unlink_reasons :: "string list" where
  "terminal_unlink_reasons = [''LOGOUT'', ''UNPAIRED'', ''UNPAIRED_IDLE'', ''logged out'']"

definition handleEngineReady :: "nat \<Rightarrow> string \<Rightarrow> life \<Rightarrow> life" where
  "handleEngineReady e phone s =
     (if \<not> isLiveEngine e s then s
      else
        let s1 = record_event (Ev_Authenticated phone) s;
            s2 = (case lf_reconnect s1 of
                    Some st \<Rightarrow> set_rstate st (\<lambda>r. r\<lparr>rt_try := (rt_try r)\<lparr>ra_attempts := 0\<rparr>\<rparr>) s1
                  | None \<Rightarrow> s1)
        in spawn (W_Ready phone) (s2\<lparr>lf_error := None, lf_stuckUsed := False\<rparr>))"

text \<open>\<open>rejectRebind\<close> up to the await of the logout.\<close>

definition rejectRebind :: "nat \<Rightarrow> string \<Rightarrow> string \<Rightarrow> life \<Rightarrow> life" where
  "rejectRebind e previous incoming s =
     (if \<not> isLiveEngine e s then s
      else
        let s1 = (cancelReconnect (s\<lparr>lf_stopping := True\<rparr>))\<lparr>lf_error := Some (Rebind_Rejected previous incoming)\<rparr>;
            s2 = trackPendingCredentialTeardown (ask e s1)
        in spawn (B_Logout e (lf_ops s1)) s2)"

datatype callback =
    On_QR
  | On_Ready string
  | On_Reconnecting nat
  | On_Disconnected string
  | On_State session_status
  | On_Action_Required string
  | On_Error string
  | On_Teardown_Started
  | Claim_Stuck_Auth

definition onReady :: "nat \<Rightarrow> string \<Rightarrow> life \<Rightarrow> life" where
  "onReady e phone s =
     (case lf_bound s ! e of
        Some previous \<Rightarrow>
          if previous \<noteq> [] \<and> phone \<noteq> [] \<and> userPart phone \<noteq> userPart previous then rejectRebind e previous phone s
          else handleEngineReady e phone s
      | None \<Rightarrow> handleEngineReady e phone s)"

definition onQRCode :: "life \<Rightarrow> life" where
  "onQRCode s =
     (let s1 = (case lf_error s of Some (Loop_Banner _) \<Rightarrow> s\<lparr>lf_error := None\<rparr> | _ \<Rightarrow> s)
      in persistStatus SQr_Ready (record_event Ev_Qr s1))"

definition onReconnecting :: "nat \<Rightarrow> life \<Rightarrow> life" where
  "onReconnecting n s =
     (if n < RECONNECT_LOOP_ALERT_INTERVAL_ATTEMPTS then s
      else let s1 = s\<lparr>lf_error := Some (Loop_Banner n)\<rparr>
        in if n mod RECONNECT_LOOP_ALERT_INTERVAL_ATTEMPTS \<noteq> 0 then s1 else record_event (Ev_Loop n) s1)"

definition onStateChanged :: "nat \<Rightarrow> session_status \<Rightarrow> life \<Rightarrow> life" where
  "onStateChanged e st s =
     (if st = SDisconnected \<and> lf_operator s = Some e then s
      else if st = SFailed then
        (case parkReconnectInitFailure Run_Persist_Failed None s of
           (True, s1) \<Rightarrow> s1
         | (False, _) \<Rightarrow> persistStatus st s)
      else persistStatus st s)"

definition onError :: "nat \<Rightarrow> string \<Rightarrow> life \<Rightarrow> life" where
  "onError e t s =
     (let s1 = s\<lparr>lf_error := Some (Engine_Reason t)\<rparr>
      in case parkReconnectInitFailure (Run_Fail e (Engine_Reason t)) (Some (Engine_Reason t)) s1 of
           (True, s2) \<Rightarrow> s2
         | (False, _) \<Rightarrow> run_parked (Run_Fail e (Engine_Reason t)) s1)"

definition claimStuckAuthRecovery :: "nat \<Rightarrow> life \<Rightarrow> life" where
  "claimStuckAuthRecovery e s =
     (if \<not> isLiveEngine e s \<or> lf_stuckUsed s then s
      else s\<lparr>lf_stuckUsed := True, lf_granted := lf_granted s @ [e]\<rparr>)"

text \<open>The table of callbacks of an engine; the report of a credential teardown is not gated on liveness.\<close>

fun callback_step :: "nat \<Rightarrow> callback \<Rightarrow> life \<Rightarrow> life" where
  "callback_step e (On_Ready phone) s = onReady e phone s"
| "callback_step e On_Teardown_Started s = trackPendingCredentialTeardown s"
| "callback_step e Claim_Stuck_Auth s = claimStuckAuthRecovery e s"
| "callback_step e On_QR s = (if isLiveEngine e s then onQRCode s else s)"
| "callback_step e (On_Reconnecting n) s = (if isLiveEngine e s then onReconnecting n s else s)"
| "callback_step e (On_Disconnected reason) s = (if isLiveEngine e s then spawn (D_Row e reason) s else s)"
| "callback_step e (On_State st) s = (if isLiveEngine e s then onStateChanged e st s else s)"
| "callback_step e (On_Action_Required t) s =
     (if isLiveEngine e s then record_event (Ev_Error (Engine_Reason t)) (s\<lparr>lf_error := Some (Engine_Reason t)\<rparr>) else s)"
| "callback_step e (On_Error t) s = (if isLiveEngine e s then onError e t s else s)"

text \<open>\<open>handleEngineDisconnected\<close> after the row was read.\<close>

definition disconnected_row :: "nat \<Rightarrow> nat \<Rightarrow> string \<Rightarrow> answer \<Rightarrow> rat \<Rightarrow> life \<Rightarrow> life" where
  "disconnected_row i e reason a jitter s =
     (case (a, lf_row s) of
        (Resolves, Some row) \<Rightarrow>
          if \<not> isLiveEngine e s then go i (Ended Done) s
          else
            let s1 = (if reason \<in> set terminal_unlink_reasons \<and> lf_owned s then spawn W_Phone s else s);
                s2 = spawn (W_Status SDisconnected) (record_event (Ev_Disconnected reason) s1)
            in scheduleReconnect jitter row (go i (Ended Done) s2)
      | _ \<Rightarrow> go i (Ended Done) s)"

section \<open>Starting an engine\<close>

text \<open>The \<open>finally\<close> of \<open>start\<close>.\<close>

definition leave_start :: "nat \<Rightarrow> outcome \<Rightarrow> life \<Rightarrow> life" where
  "leave_start i r s = go i (Ended r) (s\<lparr>lf_initializing := False\<rparr>)"

text \<open>\<open>initializeEngine\<close> up to the await of the INITIALIZING write.\<close>

definition initializeEngine :: "nat \<Rightarrow> builder \<Rightarrow> session_row \<Rightarrow> life \<Rightarrow> life" where
  "initializeEngine i who row s =
     (let e = lf_made s in
      go i (I_Write who e row)
        (s\<lparr>lf_made := Suc e, lf_bound := lf_bound s @ [sr_phone row], lf_engine := Some e, lf_error := None,
           lf_pendingInitial := Some (e, i)\<rparr>))"

text \<open>What follows the end of \<open>initializeEngine\<close>: the retirement check, or the catch of the caller.\<close>

definition retire_now :: "nat \<Rightarrow> builder \<Rightarrow> life \<Rightarrow> life" where
  "retire_now i who s =
     (case lf_engine s of
        Some e \<Rightarrow> go i (Retire_Kill who e) (ask e s)
      | None \<Rightarrow> go i (Purge who) s)"

definition check_retired :: "nat \<Rightarrow> builder \<Rightarrow> life \<Rightarrow> life" where
  "check_retired i who s = (if lf_stopping s then retire_now i who s else go i (Retired who) s)"

definition init_resolved :: "nat \<Rightarrow> builder \<Rightarrow> life \<Rightarrow> life" where
  "init_resolved i who s =
     (case who of
        By_Start \<Rightarrow> check_retired i who s
      | By_Reconnect st \<Rightarrow>
          let parked = rt_parked (lf_states s ! st);
              s1 = set_rstate st (\<lambda>r. r\<lparr>rt_inInit := False, rt_parked := None\<rparr>) s;
              s2 = (case parked of
                      Some (run, _) \<Rightarrow> if lf_reconnect s1 = Some st then run_parked run s1 else s1
                    | None \<Rightarrow> s1)
          in check_retired i who s2)"

definition start_failed :: "nat \<Rightarrow> life_reason \<Rightarrow> life \<Rightarrow> life" where
  "start_failed i r s =
     (case lf_engine s of
        Some e \<Rightarrow> go i (S_CatchKill r) (ask e (s\<lparr>lf_engine := None, lf_error := Some r\<rparr>))
      | None \<Rightarrow> leave_start i (Failed_With r) (cancelReconnect s))"

text \<open>The catch of \<open>executeReconnect\<close>.\<close>

definition reconnect_failed :: "nat \<Rightarrow> nat \<Rightarrow> session_row \<Rightarrow> life_reason \<Rightarrow> rat \<Rightarrow> life \<Rightarrow> life" where
  "reconnect_failed i st row reason jitter s =
     (let parked = rt_parked (lf_states s ! st);
          s1 = go i (Ended (Failed_With reason)) (set_rstate st (\<lambda>r. r\<lparr>rt_parked := None\<rparr>) s)
      in if lf_reconnect s1 \<noteq> Some st then s1
         else case parked of
           Some (run, terminal) \<Rightarrow>
             if terminal \<or> known_terminal reason then run_parked run s1
             else
               let s2 = (case lf_engine s1 of Some e \<Rightarrow> evictAndForceDestroy e s1 | None \<Rightarrow> s1)
               in if lf_stopping s2 then cancelReconnect s2 else scheduleReconnect jitter row s2
         | None \<Rightarrow>
             let s2 = (case lf_engine s1 of Some e \<Rightarrow> evictAndForceDestroy e s1 | None \<Rightarrow> s1)
             in if lf_stopping s2 then cancelReconnect s2 else scheduleReconnect jitter row s2)"

definition init_rejected :: "nat \<Rightarrow> builder \<Rightarrow> session_row \<Rightarrow> life_reason \<Rightarrow> rat \<Rightarrow> life \<Rightarrow> life" where
  "init_rejected i who row r jitter s =
     (case who of
        By_Start \<Rightarrow> start_failed i r s
      | By_Reconnect st \<Rightarrow> reconnect_failed i st row r jitter (set_rstate st (\<lambda>r. r\<lparr>rt_inInit := False\<rparr>) s))"

definition reason_of :: "answer \<Rightarrow> life_reason" where
  "reason_of a = (case a of Rejects r \<Rightarrow> r | _ \<Rightarrow> Db_Error)"

text \<open>After the INITIALIZING write: only an engine that is still registered, of a session that is not
  being stopped, is initialised.\<close>

definition init_written :: "nat \<Rightarrow> builder \<Rightarrow> nat \<Rightarrow> session_row \<Rightarrow> answer \<Rightarrow> rat \<Rightarrow> life \<Rightarrow> life" where
  "init_written i who e row a jitter s =
     (let s1 = (if lf_pendingInitial s = Some (e, i) then s\<lparr>lf_pendingInitial := None\<rparr> else s) in
      if a = Resolves then
        let s2 = write_status SInitializing s1
        in if \<not> isLiveEngine e s2 \<or> lf_stopping s2 then init_resolved i who s2
           else go i (I_Init who e row) (s2\<lparr>lf_dirs := True\<rparr>)
      else init_rejected i who row (reason_of a) jitter (s1\<lparr>lf_failedInit := lf_failedInit s1 @ [i]\<rparr>))"

text \<open>After the race of \<open>engine.initialize\<close> with its deadline. The directory is written until it settles.\<close>

definition init_raced :: "nat \<Rightarrow> builder \<Rightarrow> nat \<Rightarrow> session_row \<Rightarrow> answer \<Rightarrow> rat \<Rightarrow> life \<Rightarrow> life" where
  "init_raced i who e row a jitter s =
     (let s1 = s\<lparr>lf_dirs := True\<rparr> in
      case a of
        Resolves \<Rightarrow> init_resolved i who s1
      | Rejects r \<Rightarrow>
          init_rejected i who row (if r = Engine_Reason ''auth timeout'' then Auth_Timed_Out else r) jitter s1
      | Deadline \<Rightarrow>
          go i (I_Kill who e row) (ask e (s1\<lparr>lf_error := Some Init_Timed_Out, lf_engine := None\<rparr>)))"

definition init_down :: "nat \<Rightarrow> builder \<Rightarrow> session_row \<Rightarrow> answer \<Rightarrow> rat \<Rightarrow> life \<Rightarrow> life" where
  "init_down i who row a jitter s =
     (if a = Resolves then init_rejected i who row Gateway_Timeout jitter (write_status SDisconnected s)
      else init_rejected i who row (reason_of a) jitter s)"

text \<open>The steps of \<open>start\<close> before the engine is made.\<close>

definition call_start :: "life \<Rightarrow> life" where
  "call_start s =
     (if lf_initializing s then spawn (Ended Already_Starting) s else spawn S_Row (s\<lparr>lf_initializing := True\<rparr>))"

definition at_capacity :: "life \<Rightarrow> bool" where
  "at_capacity s = (case lf_cap s of Some m \<Rightarrow> m \<le> lf_others s | None \<Rightarrow> False)"

definition start_row :: "nat \<Rightarrow> answer \<Rightarrow> life \<Rightarrow> life" where
  "start_row i a s =
     (if a \<noteq> Resolves then leave_start i (Failed_With (reason_of a)) s
      else case lf_row s of
        None \<Rightarrow> leave_start i Not_Found s
      | Some row \<Rightarrow>
          if lf_engine s \<noteq> None then leave_start i Already_Started s
          else if at_capacity s then leave_start i At_Capacity s
          else go i (S_Fence row (lf_teardown s)) s)"

definition start_fence :: "nat \<Rightarrow> session_row \<Rightarrow> nat list \<Rightarrow> answer \<Rightarrow> life \<Rightarrow> life" where
  "start_fence i row ops a s =
     (case fence_result ops a s of
        Fence_Passes \<Rightarrow> go i (S_Hook row) (cancelReconnect (s\<lparr>lf_stopping := False\<rparr>))
      | Fence_Waits \<Rightarrow> s
      | Fence_Fails \<Rightarrow> leave_start i Teardown_Pending s)"

definition start_hook :: "nat \<Rightarrow> session_row \<Rightarrow> life \<Rightarrow> life" where
  "start_hook i row s =
     (case resolveReconnectConfig (sr_config row) of (m, base) \<Rightarrow>
        initializeEngine i By_Start row
          (s\<lparr>lf_reconnect := Some (length (lf_states s)),
             lf_states := lf_states s @
               [\<lparr>rt_try = \<lparr>ra_attempts = 0, ra_max = m, ra_base = base\<rparr>, rt_timer = No_Timer, rt_row = None,
                 rt_inInit = False, rt_parked = None\<rparr>],
             lf_stuckUsed := False\<rparr>))"

text \<open>The end of the catch of \<open>start\<close>, and the retirement of an engine made during a stop or delete.\<close>

definition start_catch_killed :: "nat \<Rightarrow> life_reason \<Rightarrow> life \<Rightarrow> life" where
  "start_catch_killed i r s =
     (if lf_owned s then go i (S_CatchWrite r) s else leave_start i (Failed_With r) (cancelReconnect s))"

definition start_catch_written :: "nat \<Rightarrow> life_reason \<Rightarrow> answer \<Rightarrow> life \<Rightarrow> life" where
  "start_catch_written i r a s =
     leave_start i (Failed_With r) (cancelReconnect (if a = Resolves then write_status SFailed s else s))"

definition retired_read :: "nat \<Rightarrow> builder \<Rightarrow> answer \<Rightarrow> life \<Rightarrow> life" where
  "retired_read i who a s =
     (if a = Resolves then
        if lf_row s = None then retire_now i who s
        else (case who of By_Start \<Rightarrow> go i S_Final s | By_Reconnect st \<Rightarrow> go i (Ended Done) s)
      else (case who of By_Start \<Rightarrow> leave_start i (Failed_With (reason_of a)) s | By_Reconnect st \<Rightarrow> go i (Ended Done) s))"

definition purgeAuthDirsIfDeleted :: "nat \<Rightarrow> builder \<Rightarrow> answer \<Rightarrow> life \<Rightarrow> life" where
  "purgeAuthDirsIfDeleted i who a s =
     (let s1 = (if a = Resolves \<and> lf_row s = None then s\<lparr>lf_dirs := False\<rparr> else s)
      in case who of By_Start \<Rightarrow> go i S_Final s1 | By_Reconnect st \<Rightarrow> go i (Ended Done) s1)"

definition start_final :: "nat \<Rightarrow> answer \<Rightarrow> life \<Rightarrow> life" where
  "start_final i a s =
     leave_start i (if a \<noteq> Resolves then Failed_With (reason_of a) else if lf_row s = None then Not_Found else Done) s"

section \<open>Executing a reconnect\<close>

definition timer_fires :: "nat \<Rightarrow> life \<Rightarrow> life" where
  "timer_fires st s =
     (if st < length (lf_states s) \<and> rt_timer (lf_states s ! st) = Armed then
        let s1 = set_rstate st (\<lambda>r. r\<lparr>rt_timer := Fired\<rparr>) s in
        if lf_stopping s1 then (if lf_reconnect s1 = Some st then cancelReconnect s1 else s1)
        else (case rt_row (lf_states s ! st) of
                None \<Rightarrow> s1
              | Some row \<Rightarrow>
                  (case lf_engine s1 of
                     Some e \<Rightarrow> spawn (R_Destroy st e row) (ask e s1)
                   | None \<Rightarrow> spawn (R_Fence st row (lf_teardown s1)) s1))
      else s)"

definition reconnect_destroyed :: "nat \<Rightarrow> nat \<Rightarrow> nat \<Rightarrow> session_row \<Rightarrow> answer \<Rightarrow> life \<Rightarrow> life" where
  "reconnect_destroyed i st e row a s =
     (if a = Resolves then let s1 = deleteIfLive e s in go i (R_Fence st row (lf_teardown s1)) s1
      else go i (R_Force st e row) (ask e s))"

definition reconnect_forced :: "nat \<Rightarrow> nat \<Rightarrow> nat \<Rightarrow> session_row \<Rightarrow> life \<Rightarrow> life" where
  "reconnect_forced i st e row s = (let s1 = deleteIfLive e s in go i (R_Fence st row (lf_teardown s1)) s1)"

definition reconnect_fence :: "nat \<Rightarrow> nat \<Rightarrow> session_row \<Rightarrow> nat list \<Rightarrow> answer \<Rightarrow> rat \<Rightarrow> life \<Rightarrow> life" where
  "reconnect_fence i st row ops a jitter s =
     (case fence_result ops a s of
        Fence_Passes \<Rightarrow> initializeEngine i (By_Reconnect st) row (set_rstate st (\<lambda>r. r\<lparr>rt_inInit := True\<rparr>) s)
      | Fence_Waits \<Rightarrow> s
      | Fence_Fails \<Rightarrow> reconnect_failed i st row Fence_Closed jitter s)"

section \<open>Control verbs\<close>

text \<open>
  \<open>SessionService\<close> marks a stop and a delete before its first await and asks whether another node holds
  the session: a failed query drops the mark, a refusal keeps it.
\<close>

definition call_verb :: "verb \<Rightarrow> life \<Rightarrow> life" where
  "call_verb v s =
     (if v = Stop \<or> v = Delete then spawn (V_Owner v) (s\<lparr>lf_stopping := True\<rparr>) else spawn (V_Row v) s)"

definition verb_owner :: "nat \<Rightarrow> verb \<Rightarrow> answer \<Rightarrow> bool \<Rightarrow> life \<Rightarrow> life" where
  "verb_owner i v a heldElsewhere s =
     (if a \<noteq> Resolves then go i (Ended (Failed_With (reason_of a))) (s\<lparr>lf_stopping := False\<rparr>)
      else if heldElsewhere then go i (Ended Held_Elsewhere) (s\<lparr>lf_refused := True\<rparr>)
      else go i (V_Row v) s)"

text \<open>The stop mark, the cancelled reconnect and the captured engine of \<open>stop\<close>, \<open>logout\<close> and \<open>forceKill\<close>.\<close>

definition begin_teardown :: "nat \<Rightarrow> verb \<Rightarrow> nat \<Rightarrow> session_row \<Rightarrow> life \<Rightarrow> life" where
  "begin_teardown i v e row s =
     (let s1 = cancelReconnect (s\<lparr>lf_stopping := True\<rparr>)
      in go i (V_Initial v e row (initial_write e s1)) (if v = Delete then s1 else s1\<lparr>lf_operator := Some e\<rparr>))"

definition verb_row :: "nat \<Rightarrow> verb \<Rightarrow> answer \<Rightarrow> life \<Rightarrow> life" where
  "verb_row i v a s =
     (case (a, lf_row s) of
        (Resolves, Some row) \<Rightarrow>
          (case v of
             Delete \<Rightarrow> go i (X_Fence row (lf_teardown s)) s
           | Stop \<Rightarrow>
               (case lf_engine s of
                  Some e \<Rightarrow> begin_teardown i v e row s
                | None \<Rightarrow> go i Stop_Write (cancelReconnect (s\<lparr>lf_stopping := True\<rparr>)))
           | _ \<Rightarrow>
               (case lf_engine s of
                  Some e \<Rightarrow> begin_teardown i v e row s
                | None \<Rightarrow> go i (Ended Not_Started) s))
      | _ \<Rightarrow>
          go i (Ended (if a = Resolves then Not_Found else Failed_With (reason_of a)))
            (if v = Stop \<or> v = Delete then s\<lparr>lf_stopping := False\<rparr> else s))"

text \<open>The \<open>finally\<close> of \<open>delete\<close>.\<close>

definition leave_delete :: "nat \<Rightarrow> outcome \<Rightarrow> bool \<Rightarrow> life \<Rightarrow> life" where
  "leave_delete i r parentDeleted s =
     (let s1 = s\<lparr>lf_stopping := False\<rparr>
      in go i (Ended r) (if parentDeleted then s1\<lparr>lf_dispatched := None, lf_error := None, lf_stuckUsed := False\<rparr> else s1))"

definition verb_failed :: "nat \<Rightarrow> verb \<Rightarrow> nat \<Rightarrow> life_reason \<Rightarrow> life \<Rightarrow> life" where
  "verb_failed i v e r s =
     (if v = Delete then leave_delete i (Failed_With r) False s else go i (Ended (Failed_With r)) (clear_operator e s))"

text \<open>The teardown each verb calls; a logout is tracked as a credential teardown.\<close>

definition call_teardown :: "nat \<Rightarrow> verb \<Rightarrow> nat \<Rightarrow> session_row \<Rightarrow> life \<Rightarrow> life" where
  "call_teardown i v e row s =
     (if v = Logout then go i (V_Teardown v e row (Some (lf_ops s))) (trackPendingCredentialTeardown (ask e s))
      else go i (V_Teardown v e row None) (ask e s))"

text \<open>\<open>awaitInitialStatus\<close>: a wedged write is not waited for past the deadline, a failed one rejects.\<close>

definition verb_initial :: "nat \<Rightarrow> verb \<Rightarrow> nat \<Rightarrow> session_row \<Rightarrow> nat option \<Rightarrow> answer \<Rightarrow> life \<Rightarrow> life" where
  "verb_initial i v e row w a s =
     (case w of
        None \<Rightarrow> call_teardown i v e row s
      | Some j \<Rightarrow>
          if writing j s then (if a = Deadline then call_teardown i v e row s else s)
          else if j \<in> set (lf_failedInit s) then verb_failed i v e Db_Error s
          else call_teardown i v e row s)"

definition settle_call :: "nat option \<Rightarrow> answer \<Rightarrow> life \<Rightarrow> life" where
  "settle_call p a s = (case p of Some k \<Rightarrow> if a = Deadline then s else settle_teardown k s | None \<Rightarrow> s)"

definition verb_torn :: "nat \<Rightarrow> verb \<Rightarrow> nat \<Rightarrow> session_row \<Rightarrow> nat option \<Rightarrow> answer \<Rightarrow> life \<Rightarrow> life" where
  "verb_torn i v e row p a s =
     (let s1 = settle_call p a s in
      case v of
        Stop \<Rightarrow>
          if a = Resolves then go i Stop_Write (clear_operator e (deleteIfLive e s1))
          else go i (V_Escalate e) (ask e s1)
      | Delete \<Rightarrow> (let s2 = deleteIfLive e s1 in go i (X_Fence2 True row (lf_teardown s2)) s2)
      | _ \<Rightarrow> go i (V_Write v e (a = Resolves)) (deleteIfLive e s1))"

definition stop_escalated :: "nat \<Rightarrow> nat \<Rightarrow> answer \<Rightarrow> life \<Rightarrow> life" where
  "stop_escalated i e a s =
     (if a = Resolves then go i Stop_Write (clear_operator e (deleteIfLive e s))
      else go i (V_Incomplete e) (deleteIfLive e s))"

definition stop_incomplete :: "nat \<Rightarrow> nat \<Rightarrow> answer \<Rightarrow> life \<Rightarrow> life" where
  "stop_incomplete i e a s =
     (if a = Resolves then go i (Ended Stop_Incomplete) (clear_operator e (write_status SDisconnected s))
      else go i (Ended (Failed_With (reason_of a))) (clear_operator e s))"

definition stop_written :: "nat \<Rightarrow> answer \<Rightarrow> life \<Rightarrow> life" where
  "stop_written i a s =
     (if a = Resolves then go i V_Final (write_status SDisconnected s) else go i (Ended (Failed_With (reason_of a))) s)"

text \<open>The DISCONNECTED write of \<open>logout\<close> and \<open>forceKill\<close>, and the cleared phone of a logout.\<close>

definition verb_written :: "nat \<Rightarrow> verb \<Rightarrow> nat \<Rightarrow> bool \<Rightarrow> answer \<Rightarrow> life \<Rightarrow> life" where
  "verb_written i v e unlinked a s =
     (if a = Resolves then
        go i (if v = Logout then L_Phone unlinked else V_Final) (clear_operator e (write_status SDisconnected s))
      else go i (Ended (Failed_With (reason_of a))) (clear_operator e s))"

definition logout_phone :: "nat \<Rightarrow> bool \<Rightarrow> answer \<Rightarrow> life \<Rightarrow> life" where
  "logout_phone i unlinked a s =
     (if a = Resolves then go i (if unlinked then V_Final else Ended Logout_Incomplete) (write_phone None s)
      else go i (Ended (Failed_With (reason_of a))) s)"

definition verb_final :: "nat \<Rightarrow> answer \<Rightarrow> life \<Rightarrow> life" where
  "verb_final i a s =
     go i (Ended (if a \<noteq> Resolves then Failed_With (reason_of a) else if lf_row s = None then Not_Found else Done)) s"

section \<open>Deleting\<close>

definition delete_fence :: "nat \<Rightarrow> session_row \<Rightarrow> nat list \<Rightarrow> answer \<Rightarrow> life \<Rightarrow> life" where
  "delete_fence i row ops a s =
     (case fence_result ops a s of
        Fence_Passes \<Rightarrow>
          (case lf_engine s of
             Some e \<Rightarrow> begin_teardown i Delete e row s
           | None \<Rightarrow>
               (let s1 = cancelReconnect (s\<lparr>lf_stopping := True\<rparr>)
                in go i (X_Fence2 False row (lf_teardown s1)) s1))
      | Fence_Waits \<Rightarrow> s
      | Fence_Fails \<Rightarrow> go i (Ended Teardown_Pending) (s\<lparr>lf_refused := True\<rparr>))"

definition delete_fence2 :: "nat \<Rightarrow> bool \<Rightarrow> session_row \<Rightarrow> nat list \<Rightarrow> answer \<Rightarrow> life \<Rightarrow> life" where
  "delete_fence2 i had row ops a s =
     (case fence_result ops a s of
        Fence_Passes \<Rightarrow> go i (X_Hook row) s
      | Fence_Waits \<Rightarrow> s
      | Fence_Fails \<Rightarrow> if had then go i X_Refused s else leave_delete i Teardown_Pending False s)"

definition delete_refused :: "nat \<Rightarrow> answer \<Rightarrow> life \<Rightarrow> life" where
  "delete_refused i a s =
     leave_delete i Teardown_Pending False (if a = Resolves then write_status SDisconnected s else s)"

text \<open>The transaction removes the row and its children, or nothing.\<close>

definition delete_removed :: "nat \<Rightarrow> answer \<Rightarrow> life \<Rightarrow> life" where
  "delete_removed i a s =
     (if a = Resolves then go i X_Purge (s\<lparr>lf_row := None\<rparr>)
      else leave_delete i (Failed_With (reason_of a)) False s)"

section \<open>The machine\<close>

definition rebind_logged_out :: "nat \<Rightarrow> nat \<Rightarrow> nat \<Rightarrow> answer \<Rightarrow> life \<Rightarrow> life" where
  "rebind_logged_out i e k a s =
     (let s1 = settle_call (Some k) a s in
      if \<not> isLiveEngine e s1 then go i (Ended Done) s1
      else go i (if lf_owned s1 then B_Write else Ended Done) (deleteIfLive e s1))"

definition stop_orphan :: "life \<Rightarrow> life" where
  "stop_orphan s =
     (let s1 = cancelReconnect (s\<lparr>lf_stopping := True\<rparr>)
      in case lf_engine s1 of Some e \<Rightarrow> spawn (O_Destroy e) (ask e s1) | None \<Rightarrow> s1)"

definition call_shutdown :: "life \<Rightarrow> life" where
  "call_shutdown s =
     (let s1 = cancelReconnect s
      in spawn Q_Destroy (case lf_engine s1 of Some e \<Rightarrow> ask e s1 | None \<Rightarrow> s1))"

fun resume :: "nat \<Rightarrow> pc \<Rightarrow> answer \<Rightarrow> bool \<Rightarrow> rat \<Rightarrow> life \<Rightarrow> life" where
  "resume i S_Row a h j s = start_row i a s"
| "resume i (S_Fence row ops) a h j s = start_fence i row ops a s"
| "resume i (S_Hook row) a h j s = start_hook i row s"
| "resume i (I_Write who e row) a h j s = init_written i who e row a j s"
| "resume i (I_Init who e row) a h j s = init_raced i who e row a j s"
| "resume i (I_Kill who e row) a h j s = go i (I_Down who row) s"
| "resume i (I_Down who row) a h j s = init_down i who row a j s"
| "resume i (S_CatchKill r) a h j s = start_catch_killed i r s"
| "resume i (S_CatchWrite r) a h j s = start_catch_written i r a s"
| "resume i (Retired who) a h j s = retired_read i who a s"
| "resume i (Retire_Kill who e) a h j s = go i (Purge who) (deleteIfLive e s)"
| "resume i (Purge who) a h j s = purgeAuthDirsIfDeleted i who a s"
| "resume i S_Final a h j s = start_final i a s"
| "resume i (R_Destroy st e row) a h j s = reconnect_destroyed i st e row a s"
| "resume i (R_Force st e row) a h j s = reconnect_forced i st e row s"
| "resume i (R_Fence st row ops) a h j s = reconnect_fence i st row ops a j s"
| "resume i (D_Row e reason) a h j s = disconnected_row i e reason a j s"
| "resume i (V_Owner v) a h j s = verb_owner i v a h s"
| "resume i (V_Row v) a h j s = verb_row i v a s"
| "resume i (V_Initial v e row w) a h j s = verb_initial i v e row w a s"
| "resume i (V_Teardown v e row p) a h j s = verb_torn i v e row p a s"
| "resume i (V_Escalate e) a h j s = stop_escalated i e a s"
| "resume i (V_Incomplete e) a h j s = stop_incomplete i e a s"
| "resume i (V_Write v e u) a h j s = verb_written i v e u a s"
| "resume i Stop_Write a h j s = stop_written i a s"
| "resume i (L_Phone u) a h j s = logout_phone i u a s"
| "resume i V_Final a h j s = verb_final i a s"
| "resume i (X_Fence row ops) a h j s = delete_fence i row ops a s"
| "resume i (X_Fence2 had row ops) a h j s = delete_fence2 i had row ops a s"
| "resume i X_Refused a h j s = delete_refused i a s"
| "resume i (X_Hook row) a h j s = go i X_Remove s"
| "resume i X_Remove a h j s = delete_removed i a s"
| "resume i X_Purge a h j s = leave_delete i Done True (s\<lparr>lf_dirs := False\<rparr>)"
| "resume i (B_Logout e k) a h j s = rebind_logged_out i e k a s"
| "resume i B_Write a h j s = go i (Ended Done) (if a = Resolves then write_status SFailed s else s)"
| "resume i (O_Destroy e) a h j s = go i (Ended Done) (deleteIfLive e s)"
| "resume i Q_Destroy a h j s = go i (Ended Done) (s\<lparr>lf_engine := None\<rparr>)"
| "resume i (W_Status st) a h j s = go i (Ended Done) (if a = Resolves then write_status st s else s)"
| "resume i W_Phone a h j s = go i (Ended Done) (if a = Resolves then write_phone None s else s)"
| "resume i (W_Ready phone) a h j s = go i (Ended Done) (if a = Resolves then write_ready phone s else s)"
| "resume i (Ended r) a h j s = s"

text \<open>
  What can happen: a call of a verb, a callback of an engine, a timer, the resumption of a flow (with
  the answer of what it awaited, whether another node holds the session, and the jitter of a backoff),
  the settlement of a credential teardown, and changes of the surroundings.
\<close>

datatype life_step =
    Call_Start
  | Call verb
  | Orphan_Stop
  | Shutdown
  | Callback nat callback
  | Timer nat
  | Resume nat answer bool rat
  | Settles nat
  | Owns bool
  | Drains
  | Others nat

fun life_exec :: "life_step \<Rightarrow> life \<Rightarrow> life" where
  "life_exec Call_Start s = call_start s"
| "life_exec (Call v) s = call_verb v s"
| "life_exec Orphan_Stop s = stop_orphan s"
| "life_exec Shutdown s = call_shutdown s"
| "life_exec (Callback e c) s = (if e < lf_made s then callback_step e c s else s)"
| "life_exec (Timer st) s = timer_fires st s"
| "life_exec (Resume i a h j) s = (if i < length (lf_flows s) then resume i (lf_flows s ! i) a h j s else s)"
| "life_exec (Settles k) s = settle_teardown k s"
| "life_exec (Owns b) s = s\<lparr>lf_owned := b\<rparr>"
| "life_exec Drains s = s\<lparr>lf_shutting := True\<rparr>"
| "life_exec (Others n) s = s\<lparr>lf_others := n\<rparr>"

definition fresh_life :: "session_row \<Rightarrow> nat option \<Rightarrow> life" where
  "fresh_life row cap =
     \<lparr>lf_row = Some row, lf_dirs = False, lf_engine = None, lf_initializing = False, lf_stopping = False, lf_reconnect = None,
      lf_states = [], lf_pendingInitial = None, lf_teardown = [], lf_outstanding = [], lf_ops = 0, lf_operator = None,
      lf_stuckUsed = False, lf_error = None, lf_dispatched = None, lf_owned = True, lf_shutting = False, lf_others = 0,
      lf_cap = cap, lf_made = 0, lf_bound = [], lf_flows = [], lf_events = [], lf_asked = [], lf_failedInit = [],
      lf_granted = [], lf_refused = False\<rparr>"

definition life_run :: "life_step list \<Rightarrow> life \<Rightarrow> life" where
  "life_run es s = fold life_exec es s"

end
