(* ===== verification/Session_Safety.thy ===== *)
theory Session_Safety
  imports Session_Lifecycle
begin

text \<open>
  What holds of the session lifecycle under every interleaving of calls, callbacks, timers and
  resumptions: a start excludes another, the fences never stay closed by accident, and an engine that
  was replaced is mute.
\<close>

section \<open>What the helpers leave alone\<close>

text \<open>Writes nobody waits for, the only flows the helpers add.\<close>

definition background :: "pc \<Rightarrow> bool" where
  "background p \<longleftrightarrow> (case p of W_Status _ \<Rightarrow> True | W_Phone \<Rightarrow> True | W_Ready _ \<Rightarrow> True | _ \<Rightarrow> False)"

definition same_marks :: "life \<Rightarrow> life \<Rightarrow> bool" where
  "same_marks s t \<longleftrightarrow>
     lf_initializing t = lf_initializing s \<and> lf_stopping t = lf_stopping s \<and> lf_pendingInitial t = lf_pendingInitial s
     \<and> lf_operator t = lf_operator s \<and> lf_failedInit t = lf_failedInit s \<and> lf_refused t = lf_refused s \<and> lf_made t = lf_made s
     \<and> (\<exists>ws. lf_flows t = lf_flows s @ ws \<and> list_all background ws)"

lemma same_marks_refl [simp]: "same_marks s s"
  by (simp add: same_marks_def)

lemma same_marks_trans: "same_marks s t \<Longrightarrow> same_marks t u \<Longrightarrow> same_marks s u"
  by (auto simp: same_marks_def)

lemmas life_helpers =
  record_event_def ask_def announce_def write_status_def write_phone_def write_ready_def set_rstate_def
  deleteIfLive_def evictAndForceDestroy_def settle_teardown_def settle_call_def

text \<open>The helpers that touch neither a mark nor a flow.\<close>

definition untouched :: "life \<Rightarrow> life \<Rightarrow> bool" where
  "untouched s t \<longleftrightarrow>
     lf_initializing t = lf_initializing s \<and> lf_stopping t = lf_stopping s \<and> lf_pendingInitial t = lf_pendingInitial s
     \<and> lf_operator t = lf_operator s \<and> lf_failedInit t = lf_failedInit s \<and> lf_refused t = lf_refused s \<and> lf_made t = lf_made s
     \<and> lf_flows t = lf_flows s"

lemma untouched_helpers [simp]:
  "untouched s (record_event x s)" "untouched s (ask e s)" "untouched s (announce st s)" "untouched s (write_status st s)"
  "untouched s (write_phone ph s)" "untouched s (write_ready t s)" "untouched s (set_rstate k f s)" "untouched s (deleteIfLive e s)"
  "untouched s (evictAndForceDestroy e s)" "untouched s (settle_teardown k s)" "untouched s (settle_call m a s)"
  "untouched s (cancelReconnect s)" "untouched s (trackPendingCredentialTeardown s)"
  by (auto simp: untouched_def life_helpers cancelReconnect_def trackPendingCredentialTeardown_def Let_def split: option.splits)

text \<open>Their fields, for the simplifier.\<close>

lemmas untouched_fields [simp] = untouched_helpers [unfolded untouched_def]

lemma same_marks_persist [simp]: "same_marks s (persistStatus st s)"
  by (auto simp: same_marks_def persistStatus_def spawn_def background_def)

lemma same_marks_run: "same_marks s (run_parked p s)"
  by (auto simp: run_parked_def same_marks_def persistStatus_def spawn_def background_def split: parked_run.splits)

lemma same_marks_schedule: "same_marks s (scheduleReconnect j row s)"
  by (auto simp: scheduleReconnect_def same_marks_def persistStatus_def spawn_def background_def Let_def split: option.splits prod.splits reconnect_decision.splits)

lemma same_marks_park: "parkReconnectInitFailure run r s = (b, t) \<Longrightarrow> same_marks s t"
  by (auto simp: parkReconnectInitFailure_def same_marks_def Let_def split: option.splits if_splits)

section \<open>What one resumption does to the marks\<close>

definition is_start :: "pc \<Rightarrow> bool" where
  "is_start p \<longleftrightarrow>
     (case p of
        S_Row \<Rightarrow> True | S_Fence _ _ \<Rightarrow> True | S_Hook _ \<Rightarrow> True | I_Write who _ _ \<Rightarrow> who = By_Start | I_Init who _ _ \<Rightarrow> who = By_Start
      | I_Kill who _ _ \<Rightarrow> who = By_Start | I_Down who _ \<Rightarrow> who = By_Start | S_CatchKill _ \<Rightarrow> True | S_CatchWrite _ \<Rightarrow> True
      | Retired who \<Rightarrow> who = By_Start | Retire_Kill who _ \<Rightarrow> who = By_Start | Purge who \<Rightarrow> who = By_Start | S_Final \<Rightarrow> True
      | _ \<Rightarrow> False)"

text \<open>A verb that still holds the operator mark of an engine.\<close>

definition mutes :: "nat \<Rightarrow> pc \<Rightarrow> bool" where
  "mutes e p \<longleftrightarrow>
     (case p of
        V_Initial v e' _ _ \<Rightarrow> v \<noteq> Delete \<and> e' = e | V_Teardown v e' _ _ \<Rightarrow> v \<noteq> Delete \<and> e' = e
      | V_Escalate e' \<Rightarrow> e' = e | V_Incomplete e' \<Rightarrow> e' = e | V_Write _ e' _ \<Rightarrow> e' = e | _ \<Rightarrow> False)"

definition fair_move :: "nat \<Rightarrow> pc \<Rightarrow> life \<Rightarrow> life \<Rightarrow> bool" where
  "fair_move i p s t \<longleftrightarrow>
     (\<exists>ws. lf_flows t = (lf_flows s)[i := p] @ ws \<and> list_all background ws)
     \<and> (if is_start (lf_flows s ! i) then (if is_start p then lf_initializing t = lf_initializing s else \<not> lf_initializing t)
        else \<not> is_start p \<and> lf_initializing t = lf_initializing s)
     \<and> (\<forall>e k. lf_pendingInitial t = Some (e, k) \<longrightarrow>
          (if k = i then \<exists>who row. p = I_Write who e row else lf_pendingInitial s = Some (e, k)))
     \<and> (\<forall>e. lf_operator t = Some e \<longrightarrow> mutes e p \<or> lf_operator s = Some e \<and> \<not> mutes e (lf_flows s ! i))"

text \<open>A helper after a move of the flow is part of the move.\<close>

lemma fair_move_then: "fair_move i p s t \<Longrightarrow> same_marks t u \<Longrightarrow> fair_move i p s u"
  unfolding fair_move_def same_marks_def by (elim conjE exE) simp

lemma same_marks_untouched: "untouched s t \<Longrightarrow> same_marks s t"
  by (simp add: untouched_def same_marks_def)

definition pending_ok :: "life \<Rightarrow> bool" where
  "pending_ok s \<longleftrightarrow> (\<forall>e k. lf_pendingInitial s = Some (e, k) \<longrightarrow> k < length (lf_flows s) \<and> (\<exists>who row. lf_flows s ! k = I_Write who e row))"

lemma go_fields [simp]:
  "lf_flows (go i p s) = (lf_flows s)[i := p]" "lf_initializing (go i p s) = lf_initializing s" "lf_stopping (go i p s) = lf_stopping s"
  "lf_pendingInitial (go i p s) = lf_pendingInitial s" "lf_operator (go i p s) = lf_operator s" "lf_failedInit (go i p s) = lf_failedInit s"
  "lf_refused (go i p s) = lf_refused s" "lf_made (go i p s) = lf_made s" "lf_engine (go i p s) = lf_engine s"
  "lf_asked (go i p s) = lf_asked s" "lf_states (go i p s) = lf_states s" "lf_reconnect (go i p s) = lf_reconnect s"
  "lf_row (go i p s) = lf_row s" "lf_owned (go i p s) = lf_owned s"
  by (simp_all add: go_def)

lemma clear_operator_fields [simp]:
  "lf_flows (clear_operator e s) = lf_flows s" "lf_initializing (clear_operator e s) = lf_initializing s"
  "lf_stopping (clear_operator e s) = lf_stopping s" "lf_pendingInitial (clear_operator e s) = lf_pendingInitial s"
  "lf_operator (clear_operator e s) = (if lf_operator s = Some e then None else lf_operator s)"
  "lf_failedInit (clear_operator e s) = lf_failedInit s" "lf_refused (clear_operator e s) = lf_refused s" "lf_made (clear_operator e s) = lf_made s"
  "lf_engine (clear_operator e s) = lf_engine s" "lf_asked (clear_operator e s) = lf_asked s" "lf_states (clear_operator e s) = lf_states s"
  by (simp_all add: clear_operator_def)

text \<open>The ends of \<open>initializeEngine\<close>.\<close>

lemma retire_now_move:
  "\<exists>p \<in> {Retire_Kill who (the (lf_engine s)), Purge who}. same_marks (go i p s) (retire_now i who s)"
  by (cases "lf_engine s") (auto simp: retire_now_def same_marks_def)

lemma check_retired_move:
  "\<exists>p \<in> {Retired who, Retire_Kill who (the (lf_engine s)), Purge who}. same_marks (go i p s) (check_retired i who s)"
  using retire_now_move [of who s i] by (auto simp: check_retired_def)

lemma fairI:
  assumes "same_marks (go i p s0) t" and "lf_flows s0 = lf_flows s"
    and "if is_start (lf_flows s ! i) then (if is_start p then lf_initializing s0 = lf_initializing s else \<not> lf_initializing s0)
      else \<not> is_start p \<and> lf_initializing s0 = lf_initializing s"
    and "\<And>e k. lf_pendingInitial s0 = Some (e, k) \<Longrightarrow>
      (if k = i then \<exists>who row. p = I_Write who e row else lf_pendingInitial s = Some (e, k))"
    and "\<And>e. lf_operator s0 = Some e \<Longrightarrow> mutes e p \<or> lf_operator s = Some e \<and> \<not> mutes e (lf_flows s ! i)"
  shows "\<exists>p. fair_move i p s t"
proof -
  obtain ws where ws: "lf_flows t = (lf_flows s)[i := p] @ ws" "list_all background ws"
    and eq: "lf_initializing t = lf_initializing s0" "lf_pendingInitial t = lf_pendingInitial s0" "lf_operator t = lf_operator s0"
    using assms(1,2) by (auto simp: same_marks_def)
  have "fair_move i p s t"
    unfolding fair_move_def eq using ws assms(3-5) by simp
  then show ?thesis ..
qed

lemmas fair_go = fairI [OF same_marks_refl]

lemma not_pending: "pending_ok s \<Longrightarrow> lf_pendingInitial s = Some (e, k) \<Longrightarrow> \<not> (\<exists>who row. lf_flows s ! i = I_Write who e row) \<Longrightarrow> k \<noteq> i"
  by (auto simp: pending_ok_def)

text \<open>The reason a flow that is not at its first write has no pending write.\<close>

definition plain :: "pc \<Rightarrow> bool" where
  "plain p \<longleftrightarrow> (\<forall>who e row. p \<noteq> I_Write who e row)"

lemma plain_pending: "pending_ok s \<Longrightarrow> plain (lf_flows s ! i) \<Longrightarrow> lf_pendingInitial s \<noteq> Some (e, i)"
  by (auto simp: pending_ok_def plain_def)

lemma fair_plain:
  assumes "pending_ok s" and "plain (lf_flows s ! i)"
    and "same_marks (go i p s0) t" and "lf_flows s0 = lf_flows s" and "lf_pendingInitial s0 = lf_pendingInitial s"
    and "if is_start (lf_flows s ! i) then (if is_start p then lf_initializing s0 = lf_initializing s else \<not> lf_initializing s0)
      else \<not> is_start p \<and> lf_initializing s0 = lf_initializing s"
    and "\<And>e. lf_operator s0 = Some e \<Longrightarrow> mutes e p \<or> lf_operator s = Some e \<and> \<not> mutes e (lf_flows s ! i)"
  shows "\<exists>p. fair_move i p s t"
  by (rule fairI [OF assms(3,4,6)]) (use assms plain_pending in \<open>auto split: if_splits\<close>)

lemma fair_stays: "pending_ok s \<Longrightarrow> i < length (lf_flows s) \<Longrightarrow> \<exists>p. fair_move i p s s"
  by (rule exI [of _ "lf_flows s ! i"]) (auto simp: fair_move_def pending_ok_def)

lemma reconnect_failed_marks: "same_marks (go i (Ended (Failed_With r)) s) (reconnect_failed i st row r j s)"
proof -
  define s1 where "s1 = go i (Ended (Failed_With r)) (set_rstate st (\<lambda>r. r\<lparr>rt_parked := None\<rparr>) s)"
  define s2 where "s2 = (case lf_engine s1 of Some e \<Rightarrow> evictAndForceDestroy e s1 | None \<Rightarrow> s1)"
  have 1: "same_marks (go i (Ended (Failed_With r)) s) s1" by (auto simp: same_marks_def s1_def)
  have "same_marks s1 s2" by (auto simp: s2_def same_marks_def split: option.splits)
  then have 2: "same_marks s1 (if lf_stopping s2 then cancelReconnect s2 else scheduleReconnect j row s2)"
    using same_marks_trans [OF _ same_marks_schedule] same_marks_trans [OF _ same_marks_untouched [OF untouched_helpers(12)]] by (simp split: if_splits)
  have "same_marks s1 (reconnect_failed i st row r j s)"
    using 2 same_marks_run [of s1] unfolding reconnect_failed_def Let_def s1_def [symmetric] s2_def [symmetric]
    by (auto split: option.splits)
  then show ?thesis using 1 same_marks_trans by blast
qed

text \<open>How \<open>initializeEngine\<close> ends, seen on the marks.\<close>

definition retirement :: "builder \<Rightarrow> pc \<Rightarrow> bool" where
  "retirement who p \<longleftrightarrow> p = Retired who \<or> (\<exists>e. p = Retire_Kill who e) \<or> p = Purge who"

lemma retirement_start: "retirement who p \<Longrightarrow> is_start p \<longleftrightarrow> who = By_Start"
  by (auto simp: retirement_def is_start_def)

lemma same_marks_go: "same_marks s t \<Longrightarrow> i < length (lf_flows s) \<Longrightarrow> same_marks (go i p s) (go i p t)"
  by (auto simp: same_marks_def list_update_append)

lemma init_resolved_marks:
  assumes "i < length (lf_flows s)"
  shows "\<exists>p. retirement who p \<and> same_marks (go i p s) (init_resolved i who s)"
proof -
  have checked: "\<exists>p. retirement who p \<and> same_marks (go i p s) (check_retired i who t)" if t: "same_marks s t" for t
  proof -
    obtain p where "retirement who p" "same_marks (go i p t) (check_retired i who t)"
      using check_retired_move [of who t i] by (auto simp: retirement_def)
    then show ?thesis using same_marks_trans [OF same_marks_go [OF t assms]] by blast
  qed
  show ?thesis
  proof (cases who)
    case By_Start
    then show ?thesis using checked [OF same_marks_refl] by (simp add: init_resolved_def)
  next
    case (By_Reconnect st)
    define s1 where "s1 = set_rstate st (\<lambda>r. r\<lparr>rt_inInit := False, rt_parked := None\<rparr>) s"
    define s2 where "s2 = (case rt_parked (lf_states s ! st) of
        Some (run, _) \<Rightarrow> if lf_reconnect s1 = Some st then run_parked run s1 else s1 | None \<Rightarrow> s1)"
    have "same_marks s s1" unfolding s1_def by (rule same_marks_untouched) simp
    moreover have "same_marks s1 s2" using same_marks_run by (auto simp: s2_def split: option.splits)
    ultimately have "same_marks s s2" by (rule same_marks_trans)
    moreover have "init_resolved i who s = check_retired i who s2"
      unfolding init_resolved_def By_Reconnect s2_def s1_def Let_def by simp
    ultimately show ?thesis using checked by simp
  qed
qed

lemma init_rejected_marks:
  assumes "i < length (lf_flows s)"
  shows "\<exists>p s0. same_marks (go i p s0) (init_rejected i who row r j s) \<and> lf_flows s0 = lf_flows s \<and> (\<forall>e. \<not> mutes e p)
    \<and> lf_pendingInitial s0 = lf_pendingInitial s \<and> lf_operator s0 = lf_operator s \<and> plain p
    \<and> (if is_start p then who = By_Start \<and> lf_initializing s0 = lf_initializing s
       else if who = By_Start then \<not> lf_initializing s0 else lf_initializing s0 = lf_initializing s)"
proof (cases who)
  case By_Start
  show ?thesis
  proof (cases "lf_engine s")
    case None
    then show ?thesis
      using By_Start by (intro exI [of _ "Ended (Failed_With r)"] exI [of _ "(cancelReconnect s)\<lparr>lf_initializing := False\<rparr>"])
        (auto simp: init_rejected_def start_failed_def leave_start_def mutes_def plain_def is_start_def)
  next
    case (Some e)
    then show ?thesis
      using By_Start by (intro exI [of _ "S_CatchKill r"] exI [of _ "ask e (s\<lparr>lf_engine := None, lf_error := Some r\<rparr>)"])
        (auto simp: init_rejected_def start_failed_def mutes_def plain_def is_start_def ask_def)
  qed
next
  case (By_Reconnect st)
  then show ?thesis
    by (intro exI [of _ "Ended (Failed_With r)"] exI [of _ "set_rstate st (\<lambda>r. r\<lparr>rt_inInit := False\<rparr>) s"])
      (auto simp: init_rejected_def reconnect_failed_marks mutes_def plain_def is_start_def)
qed

lemma init_ends_fair:
  assumes i: "i < length (lf_flows s)"
    and s1: "lf_flows s1 = lf_flows s" "lf_initializing s1 = lf_initializing s" "lf_operator s1 = lf_operator s"
      "\<forall>e k. lf_pendingInitial s1 = Some (e, k) \<longrightarrow> k \<noteq> i \<and> lf_pendingInitial s = Some (e, k)"
    and pc: "is_start (lf_flows s ! i) \<longleftrightarrow> who = By_Start" "\<And>e. \<not> mutes e (lf_flows s ! i)"
  shows "\<exists>p. fair_move i p s (init_resolved i who s1)" and "\<exists>p. fair_move i p s (init_rejected i who row r j s1)"
proof -
  obtain p where "retirement who p" "same_marks (go i p s1) (init_resolved i who s1)"
    using init_resolved_marks [of i s1 who] i s1(1) by auto
  then show "\<exists>p. fair_move i p s (init_resolved i who s1)"
    by (intro fairI [of i p s1]) (use s1 pc in \<open>auto dest: retirement_start\<close>)
  obtain p s0 where m: "same_marks (go i p s0) (init_rejected i who row r j s1)" and f: "lf_flows s0 = lf_flows s1"
    and q: "lf_pendingInitial s0 = lf_pendingInitial s1" and o: "lf_operator s0 = lf_operator s1"
    and b: "if is_start p then who = By_Start \<and> lf_initializing s0 = lf_initializing s1
       else if who = By_Start then \<not> lf_initializing s0 else lf_initializing s0 = lf_initializing s1"
    using init_rejected_marks [of i s1 who row r j] i s1(1) by auto
  have "\<forall>e k. lf_pendingInitial s0 = Some (e, k) \<longrightarrow> k \<noteq> i \<and> lf_pendingInitial s = Some (e, k)" unfolding q by (rule s1(4))
  moreover have "lf_operator s0 = lf_operator s" "lf_flows s0 = lf_flows s" using o f s1 by simp_all
  moreover have "if is_start (lf_flows s ! i) then (if is_start p then lf_initializing s0 = lf_initializing s else \<not> lf_initializing s0)
      else \<not> is_start p \<and> lf_initializing s0 = lf_initializing s"
    using b pc s1(2) by (simp split: if_splits)
  ultimately show "\<exists>p. fair_move i p s (init_rejected i who row r j s1)"
    using pc(2) by (intro fairI [OF m]) simp_all
qed

lemma is_start_simps [simp]:
  "is_start S_Row" "is_start (S_Fence row ops)" "is_start (S_Hook row)" "is_start (I_Write who e row) = (who = By_Start)"
  "is_start (I_Init who e row) = (who = By_Start)" "is_start (I_Kill who e row) = (who = By_Start)" "is_start (I_Down who row) = (who = By_Start)"
  "is_start (S_CatchKill r)" "is_start (S_CatchWrite r)" "is_start (Retired who) = (who = By_Start)" "is_start (Retire_Kill who e) = (who = By_Start)"
  "is_start (Purge who) = (who = By_Start)" "is_start S_Final" "\<not> is_start (R_Destroy st e row)" "\<not> is_start (R_Force st e row)"
  "\<not> is_start (R_Fence st row ops)" "\<not> is_start (D_Row e t)" "\<not> is_start (V_Owner v)" "\<not> is_start (V_Row v)" "\<not> is_start (V_Initial v e row w)"
  "\<not> is_start (V_Teardown v e row m)" "\<not> is_start (V_Escalate e)" "\<not> is_start (V_Incomplete e)" "\<not> is_start (V_Write v e u)" "\<not> is_start Stop_Write"
  "\<not> is_start (L_Phone u)" "\<not> is_start V_Final" "\<not> is_start (X_Fence row ops)" "\<not> is_start (X_Fence2 u row ops)" "\<not> is_start X_Refused"
  "\<not> is_start (X_Hook row)" "\<not> is_start X_Remove" "\<not> is_start X_Purge" "\<not> is_start (B_Logout e k)" "\<not> is_start B_Write" "\<not> is_start (O_Destroy e)"
  "\<not> is_start Q_Destroy" "\<not> is_start (W_Status x)" "\<not> is_start W_Phone" "\<not> is_start (W_Ready t)" "\<not> is_start (Ended z)"
  by (simp_all add: is_start_def)

lemma mutes_simps [simp]:
  "\<not> mutes e S_Row" "\<not> mutes e (S_Fence row ops)" "\<not> mutes e (S_Hook row)" "\<not> mutes e (I_Write who d row)" "\<not> mutes e (I_Init who d row)"
  "\<not> mutes e (I_Kill who d row)" "\<not> mutes e (I_Down who row)" "\<not> mutes e (S_CatchKill r)" "\<not> mutes e (S_CatchWrite r)" "\<not> mutes e (Retired who)"
  "\<not> mutes e (Retire_Kill who d)" "\<not> mutes e (Purge who)" "\<not> mutes e S_Final" "\<not> mutes e (R_Destroy st d row)" "\<not> mutes e (R_Force st d row)"
  "\<not> mutes e (R_Fence st row ops)" "\<not> mutes e (D_Row d t)" "\<not> mutes e (V_Owner v)" "\<not> mutes e (V_Row v)"
  "mutes e (V_Initial v d row w) = (v \<noteq> Delete \<and> d = e)" "mutes e (V_Teardown v d row m) = (v \<noteq> Delete \<and> d = e)" "mutes e (V_Escalate d) = (d = e)"
  "mutes e (V_Incomplete d) = (d = e)" "mutes e (V_Write v d u) = (d = e)" "\<not> mutes e Stop_Write" "\<not> mutes e (L_Phone u)" "\<not> mutes e V_Final"
  "\<not> mutes e (X_Fence row ops)" "\<not> mutes e (X_Fence2 u row ops)" "\<not> mutes e X_Refused" "\<not> mutes e (X_Hook row)" "\<not> mutes e X_Remove" "\<not> mutes e X_Purge"
  "\<not> mutes e (B_Logout d k)" "\<not> mutes e B_Write" "\<not> mutes e (O_Destroy d)" "\<not> mutes e Q_Destroy" "\<not> mutes e (W_Status x)" "\<not> mutes e W_Phone"
  "\<not> mutes e (W_Ready t)" "\<not> mutes e (Ended z)"
  by (simp_all add: mutes_def)

lemma plain_simps [simp]: "plain p \<longleftrightarrow> (case p of I_Write _ _ _ \<Rightarrow> False | _ \<Rightarrow> True)"
  by (auto simp: plain_def split: pc.splits)

lemmas start_arms = start_row_def start_fence_def start_hook_def initializeEngine_def leave_start_def start_catch_killed_def
  start_catch_written_def start_final_def

lemma start_arms_fair:
  assumes ok: "pending_ok s" and i: "i < length (lf_flows s)"
  shows "lf_flows s ! i = S_Row \<Longrightarrow> \<exists>p. fair_move i p s (start_row i a s)"
    and "lf_flows s ! i = S_Fence row ops \<Longrightarrow> \<exists>p. fair_move i p s (start_fence i row ops a s)"
    and "lf_flows s ! i = S_Hook row \<Longrightarrow> \<exists>p. fair_move i p s (start_hook i row s)"
    and "lf_flows s ! i = S_CatchKill r \<Longrightarrow> \<exists>p. fair_move i p s (start_catch_killed i r s)"
    and "lf_flows s ! i = S_CatchWrite r \<Longrightarrow> \<exists>p. fair_move i p s (start_catch_written i r a s)"
    and "lf_flows s ! i = S_Final \<Longrightarrow> \<exists>p. fair_move i p s (start_final i a s)"
proof -
  show "lf_flows s ! i = S_Hook row \<Longrightarrow> \<exists>p. fair_move i p s (start_hook i row s)"
    unfolding start_hook_def initializeEngine_def Let_def by (cases "resolveReconnectConfig (sr_config row)") (auto intro!: fair_go)
qed (use fair_stays [OF ok i] in \<open>auto simp: start_arms split: option.splits fence.splits prod.splits intro!: fair_plain [OF ok _ same_marks_refl]\<close>)

lemma init_arms_fair:
  assumes ok: "pending_ok s" and i: "i < length (lf_flows s)"
  shows "lf_flows s ! i = I_Write who e row \<Longrightarrow> \<exists>p. fair_move i p s (init_written i who e row a j s)"
    and "lf_flows s ! i = I_Init who e row \<Longrightarrow> \<exists>p. fair_move i p s (init_raced i who e row a j s)"
    and "lf_flows s ! i = I_Kill who e row \<Longrightarrow> \<exists>p. fair_move i p s (go i (I_Down who row) s)"
    and "lf_flows s ! i = I_Down who row \<Longrightarrow> \<exists>p. fair_move i p s (init_down i who row a j s)"
proof -
  {
    assume pc: "lf_flows s ! i = I_Write who e row"
    define s1 where "s1 = (if lf_pendingInitial s = Some (e, i) then s\<lparr>lf_pendingInitial := None\<rparr> else s)"
    have q: "\<forall>d k. lf_pendingInitial s1 = Some (d, k) \<longrightarrow> k \<noteq> i \<and> lf_pendingInitial s = Some (d, k)"
    proof (intro allI impI)
      fix d k assume "lf_pendingInitial s1 = Some (d, k)"
      then have "lf_pendingInitial s = Some (d, k)" "lf_pendingInitial s \<noteq> Some (e, i)" by (auto simp: s1_def split: if_splits)
      moreover have "k = i \<Longrightarrow> d = e" using calculation(1) ok pc by (auto simp: pending_ok_def)
      ultimately show "k \<noteq> i \<and> lf_pendingInitial s = Some (d, k)" by auto
    qed
    have eq: "lf_flows s1 = lf_flows s" "lf_initializing s1 = lf_initializing s" "lf_operator s1 = lf_operator s" by (simp_all add: s1_def)
    have res: "\<exists>p. fair_move i p s (init_resolved i who (write_status SInitializing s1))"
      by (rule init_ends_fair(1)) (use q eq pc i in simp_all)
    have rej: "\<exists>p. fair_move i p s (init_rejected i who row r j (s1\<lparr>lf_failedInit := z\<rparr>))" for r z
      by (rule init_ends_fair(2)) (use q eq pc i in simp_all)
    have go': "\<exists>p. fair_move i p s (go i (I_Init who e row) ((write_status SInitializing s1)\<lparr>lf_dirs := True\<rparr>))"
      by (rule fair_go) (use q eq pc i in simp_all)
    show "\<exists>p. fair_move i p s (init_written i who e row a j s)"
      unfolding init_written_def Let_def s1_def [symmetric] using res rej go' by simp
  next
    assume pc: "lf_flows s ! i = I_Init who e row"
    have "\<exists>p. fair_move i p s (init_resolved i who (s\<lparr>lf_dirs := True\<rparr>))"
      and "\<exists>p. fair_move i p s (init_rejected i who row r j (s\<lparr>lf_dirs := True\<rparr>))" for r
      using plain_pending [OF ok, of i] pc i by (auto intro!: init_ends_fair)
    moreover have "\<exists>p. fair_move i p s (go i (I_Kill who e row) (ask e (s\<lparr>lf_dirs := True, lf_error := Some Init_Timed_Out, lf_engine := None\<rparr>)))"
      by (rule fair_plain [OF ok _ same_marks_refl]) (use pc in \<open>simp_all add: ask_def\<close>)
    ultimately show "\<exists>p. fair_move i p s (init_raced i who e row a j s)"
      by (cases a) (simp_all add: init_raced_def Let_def)
  next
    assume pc: "lf_flows s ! i = I_Kill who e row"
    show "\<exists>p. fair_move i p s (go i (I_Down who row) s)" by (rule fair_plain [OF ok _ same_marks_refl]) (use pc in simp_all)
  next
    assume pc: "lf_flows s ! i = I_Down who row"
    have "\<exists>p. fair_move i p s (init_rejected i who row r j (write_status SDisconnected s))"
      and "\<exists>p. fair_move i p s (init_rejected i who row r j s)" for r
      using plain_pending [OF ok, of i] pc i by (auto intro!: init_ends_fair)
    then show "\<exists>p. fair_move i p s (init_down i who row a j s)" by (simp add: init_down_def)
  }
qed

lemma retire_now_fair:
  assumes "pending_ok s" and "i < length (lf_flows s)" and "lf_flows s ! i = Retired who"
  shows "\<exists>p. fair_move i p s (retire_now i who s)"
proof -
  obtain p where p: "p = Retire_Kill who (the (lf_engine s)) \<or> p = Purge who" "same_marks (go i p s) (retire_now i who s)"
    using retire_now_move [of who s i] by auto
  show ?thesis by (rule fair_plain [OF assms(1) _ p(2)]) (use p(1) assms in auto)
qed

lemma reconnect_arms_fair:
  assumes ok: "pending_ok s" and i: "i < length (lf_flows s)"
  shows "lf_flows s ! i = Retired who \<Longrightarrow> \<exists>p. fair_move i p s (retired_read i who a s)"
    and "lf_flows s ! i = Retire_Kill who e \<Longrightarrow> \<exists>p. fair_move i p s (go i (Purge who) (deleteIfLive e s))"
    and "lf_flows s ! i = Purge who \<Longrightarrow> \<exists>p. fair_move i p s (purgeAuthDirsIfDeleted i who a s)"
    and "lf_flows s ! i = R_Destroy st e row \<Longrightarrow> \<exists>p. fair_move i p s (reconnect_destroyed i st e row a s)"
    and "lf_flows s ! i = R_Force st e row \<Longrightarrow> \<exists>p. fair_move i p s (reconnect_forced i st e row s)"
    and "lf_flows s ! i = R_Fence st row ops \<Longrightarrow> \<exists>p. fair_move i p s (reconnect_fence i st row ops a j s)"
    and "lf_flows s ! i = D_Row e t \<Longrightarrow> \<exists>p. fair_move i p s (disconnected_row i e t a j s)"
proof -
  show "lf_flows s ! i = Retired who \<Longrightarrow> \<exists>p. fair_move i p s (retired_read i who a s)"
    using retire_now_fair [OF ok i]
    by (auto simp: retired_read_def leave_start_def split: builder.splits intro!: fair_plain [OF ok _ same_marks_refl])
  show "lf_flows s ! i = Purge who \<Longrightarrow> \<exists>p. fair_move i p s (purgeAuthDirsIfDeleted i who a s)"
    by (auto simp: purgeAuthDirsIfDeleted_def Let_def split: builder.splits intro!: fair_plain [OF ok _ same_marks_refl])
  show "lf_flows s ! i = R_Fence st row ops \<Longrightarrow> \<exists>p. fair_move i p s (reconnect_fence i st row ops a j s)"
    using fair_stays [OF ok i]
    by (auto simp: reconnect_fence_def initializeEngine_def Let_def split: fence.splits
        intro!: fair_go fair_plain [OF ok _ reconnect_failed_marks])
  show "\<exists>p. fair_move i p s (disconnected_row i e t a j s)" if pc: "lf_flows s ! i = D_Row e t"
  proof -
    have end': "\<exists>p. fair_move i p s u" if u: "same_marks (go i (Ended Done) s) u" for u
      by (rule fair_plain [OF ok _ u]) (use pc in simp_all)
    have "same_marks (go i (Ended Done) s) (go i (Ended Done) (spawn (W_Status SDisconnected) (record_event (Ev_Disconnected t)
        (if t \<in> set terminal_unlink_reasons \<and> lf_owned s then spawn W_Phone s else s))))"
      using i by (auto simp: same_marks_def spawn_def record_event_def background_def list_update_append go_def)
    from end' [OF same_marks_trans [OF this same_marks_schedule]] end' [OF same_marks_refl] show ?thesis
      by (auto simp: disconnected_row_def Let_def split: answer.splits option.splits)
  qed
qed (auto simp: reconnect_destroyed_def reconnect_forced_def Let_def intro!: fair_plain [OF ok _ same_marks_refl])

lemma verb_arms_fair:
  assumes ok: "pending_ok s" and i: "i < length (lf_flows s)"
  shows "lf_flows s ! i = V_Owner v \<Longrightarrow> \<exists>p. fair_move i p s (verb_owner i v a h s)"
    and "lf_flows s ! i = V_Row v \<Longrightarrow> \<exists>p. fair_move i p s (verb_row i v a s)"
    and "lf_flows s ! i = V_Initial v e row w \<Longrightarrow> \<exists>p. fair_move i p s (verb_initial i v e row w a s)"
    and "lf_flows s ! i = V_Teardown v e row m \<Longrightarrow> \<exists>p. fair_move i p s (verb_torn i v e row m a s)"
    and "lf_flows s ! i = V_Escalate e \<Longrightarrow> \<exists>p. fair_move i p s (stop_escalated i e a s)"
    and "lf_flows s ! i = V_Incomplete e \<Longrightarrow> \<exists>p. fair_move i p s (stop_incomplete i e a s)"
    and "lf_flows s ! i = V_Write v e u \<Longrightarrow> \<exists>p. fair_move i p s (verb_written i v e u a s)"
    and "lf_flows s ! i = Stop_Write \<Longrightarrow> \<exists>p. fair_move i p s (stop_written i a s)"
    and "lf_flows s ! i = L_Phone u \<Longrightarrow> \<exists>p. fair_move i p s (logout_phone i u a s)"
    and "lf_flows s ! i = V_Final \<Longrightarrow> \<exists>p. fair_move i p s (verb_final i a s)"
    and "lf_flows s ! i = X_Fence row ops \<Longrightarrow> \<exists>p. fair_move i p s (delete_fence i row ops a s)"
    and "lf_flows s ! i = X_Fence2 u row ops \<Longrightarrow> \<exists>p. fair_move i p s (delete_fence2 i u row ops a s)"
    and "lf_flows s ! i = X_Refused \<Longrightarrow> \<exists>p. fair_move i p s (delete_refused i a s)"
    and "lf_flows s ! i = X_Remove \<Longrightarrow> \<exists>p. fair_move i p s (delete_removed i a s)"
    and "lf_flows s ! i = B_Logout e k \<Longrightarrow> \<exists>p. fair_move i p s (rebind_logged_out i e k a s)"
proof -
  show "lf_flows s ! i = V_Owner v \<Longrightarrow> \<exists>p. fair_move i p s (verb_owner i v a h s)"
    using fair_stays [OF ok i]
    by (auto simp: verb_owner_def split: option.splits fence.splits verb.splits answer.splits intro!: fair_plain [OF ok _ same_marks_refl])
  show "lf_flows s ! i = V_Row v \<Longrightarrow> \<exists>p. fair_move i p s (verb_row i v a s)"
    using fair_stays [OF ok i]
    by (auto simp: verb_row_def begin_teardown_def Let_def split: option.splits fence.splits verb.splits answer.splits intro!: fair_plain [OF ok _ same_marks_refl])
  show "lf_flows s ! i = V_Initial v e row w \<Longrightarrow> \<exists>p. fair_move i p s (verb_initial i v e row w a s)"
    using fair_stays [OF ok i]
    by (auto simp: verb_initial_def call_teardown_def verb_failed_def leave_delete_def Let_def split: if_splits option.splits fence.splits verb.splits answer.splits intro!: fair_plain [OF ok _ same_marks_refl])
  show "lf_flows s ! i = V_Teardown v e row m \<Longrightarrow> \<exists>p. fair_move i p s (verb_torn i v e row m a s)"
    using fair_stays [OF ok i]
    by (auto simp: verb_torn_def Let_def split: if_splits option.splits fence.splits verb.splits answer.splits intro!: fair_plain [OF ok _ same_marks_refl])
  show "lf_flows s ! i = V_Escalate e \<Longrightarrow> \<exists>p. fair_move i p s (stop_escalated i e a s)"
    using fair_stays [OF ok i]
    by (auto simp: stop_escalated_def split: if_splits option.splits fence.splits verb.splits answer.splits intro!: fair_plain [OF ok _ same_marks_refl])
  show "lf_flows s ! i = V_Incomplete e \<Longrightarrow> \<exists>p. fair_move i p s (stop_incomplete i e a s)"
    using fair_stays [OF ok i]
    by (auto simp: stop_incomplete_def split: if_splits option.splits fence.splits verb.splits answer.splits intro!: fair_plain [OF ok _ same_marks_refl])
  show "lf_flows s ! i = V_Write v e u \<Longrightarrow> \<exists>p. fair_move i p s (verb_written i v e u a s)"
    using fair_stays [OF ok i]
    by (auto simp: verb_written_def split: if_splits option.splits fence.splits verb.splits answer.splits intro!: fair_plain [OF ok _ same_marks_refl])
  show "lf_flows s ! i = Stop_Write \<Longrightarrow> \<exists>p. fair_move i p s (stop_written i a s)"
    using fair_stays [OF ok i]
    by (auto simp: stop_written_def split: option.splits fence.splits verb.splits answer.splits intro!: fair_plain [OF ok _ same_marks_refl])
  show "lf_flows s ! i = L_Phone u \<Longrightarrow> \<exists>p. fair_move i p s (logout_phone i u a s)"
    using fair_stays [OF ok i]
    by (auto simp: logout_phone_def split: option.splits fence.splits verb.splits answer.splits intro!: fair_plain [OF ok _ same_marks_refl])
  show "lf_flows s ! i = V_Final \<Longrightarrow> \<exists>p. fair_move i p s (verb_final i a s)"
    using fair_stays [OF ok i]
    by (auto simp: verb_final_def split: option.splits fence.splits verb.splits answer.splits intro!: fair_plain [OF ok _ same_marks_refl])
  show "lf_flows s ! i = X_Fence row ops \<Longrightarrow> \<exists>p. fair_move i p s (delete_fence i row ops a s)"
    using fair_stays [OF ok i]
    by (auto simp: delete_fence_def begin_teardown_def Let_def split: option.splits fence.splits verb.splits answer.splits intro!: fair_plain [OF ok _ same_marks_refl])
  show "lf_flows s ! i = X_Fence2 u row ops \<Longrightarrow> \<exists>p. fair_move i p s (delete_fence2 i u row ops a s)"
    using fair_stays [OF ok i]
    by (auto simp: delete_fence2_def leave_delete_def Let_def split: option.splits fence.splits verb.splits answer.splits intro!: fair_plain [OF ok _ same_marks_refl])
  show "lf_flows s ! i = X_Refused \<Longrightarrow> \<exists>p. fair_move i p s (delete_refused i a s)"
    using fair_stays [OF ok i]
    by (auto simp: delete_refused_def leave_delete_def Let_def split: option.splits fence.splits verb.splits answer.splits intro!: fair_plain [OF ok _ same_marks_refl])
  show "lf_flows s ! i = X_Remove \<Longrightarrow> \<exists>p. fair_move i p s (delete_removed i a s)"
    using fair_stays [OF ok i]
    by (auto simp: delete_removed_def leave_delete_def Let_def split: option.splits fence.splits verb.splits answer.splits intro!: fair_plain [OF ok _ same_marks_refl])
  show "lf_flows s ! i = B_Logout e k \<Longrightarrow> \<exists>p. fair_move i p s (rebind_logged_out i e k a s)"
    using fair_stays [OF ok i]
    by (auto simp: rebind_logged_out_def Let_def split: option.splits fence.splits verb.splits answer.splits intro!: fair_plain [OF ok _ same_marks_refl])
qed

lemma resume_fair:
  assumes ok: "pending_ok s" and i: "i < length (lf_flows s)"
  shows "\<exists>p. fair_move i p s (resume i (lf_flows s ! i) a h j s)"
  using start_arms_fair [OF ok i] init_arms_fair [OF ok i] reconnect_arms_fair [OF ok i] verb_arms_fair [OF ok i] fair_stays [OF ok i]
  by (cases "lf_flows s ! i") (auto intro!: fair_plain [OF ok _ same_marks_refl] simp: leave_delete_def Let_def)

section \<open>Starts, first writes and operator marks\<close>

definition starts :: "life \<Rightarrow> nat" where
  "starts s = length (filter is_start (lf_flows s))"

definition marks_ok :: "life \<Rightarrow> bool" where
  "marks_ok s \<longleftrightarrow>
     starts s = (if lf_initializing s then 1 else 0) \<and> pending_ok s
     \<and> (\<forall>e. lf_operator s = Some e \<longrightarrow> (\<exists>p \<in> set (lf_flows s). mutes e p))"

lemma background_not [simp]: "background p \<Longrightarrow> \<not> is_start p" "background p \<Longrightarrow> \<not> mutes e p"
  by (auto simp: background_def split: pc.splits)

lemma filter_background: "list_all background ws \<Longrightarrow> filter is_start ws = []"
  by (auto simp: list_all_iff filter_empty_conv)

lemma length_filter_update:
  "i < length xs \<Longrightarrow> length (filter P (xs[i := x])) + (if P (xs ! i) then 1 else 0) = length (filter P xs) + (if P x then 1 else 0)"
proof (induction xs arbitrary: i)
  case (Cons a xs)
  then show ?case using Cons.IH [of "i - 1"] by (cases i) auto
qed simp

lemma move_marks:
  assumes ok: "marks_ok s" and i: "i < length (lf_flows s)" and m: "fair_move i p s t"
  shows "marks_ok t"
proof -
  obtain ws where ws: "lf_flows t = (lf_flows s)[i := p] @ ws" "list_all background ws" using m by (auto simp: fair_move_def)
  have "starts t = length (filter is_start ((lf_flows s)[i := p]))" using ws by (simp add: starts_def filter_background)
  then have "starts t + (if is_start (lf_flows s ! i) then 1 else 0) = starts s + (if is_start p then 1 else 0)"
    using length_filter_update [OF i, of is_start p] by (simp add: starts_def)
  moreover have "starts s = (if lf_initializing s then 1 else 0)" using ok by (simp add: marks_ok_def)
  moreover have "is_start (lf_flows s ! i) \<Longrightarrow> 0 < starts s"
    using i by (auto simp: starts_def filter_empty_conv)
  ultimately have "starts t = (if lf_initializing t then 1 else 0)"
    using m by (auto simp: fair_move_def split: if_splits)
  moreover have "pending_ok t"
    unfolding pending_ok_def
  proof (intro allI impI)
    fix e k assume q: "lf_pendingInitial t = Some (e, k)"
    show "k < length (lf_flows t) \<and> (\<exists>who row. lf_flows t ! k = I_Write who e row)"
    proof (cases "k = i")
      case True
      then show ?thesis using q m i ws by (auto simp: fair_move_def nth_append)
    next
      case False
      then have "lf_pendingInitial s = Some (e, k)" using q m by (auto simp: fair_move_def)
      then show ?thesis using ok False ws by (auto simp: marks_ok_def pending_ok_def nth_append)
    qed
  qed
  moreover have "\<exists>p \<in> set (lf_flows t). mutes e p" if o: "lf_operator t = Some e" for e
  proof (cases "mutes e p")
    case True
    then show ?thesis using i ws set_update_memI [OF i, of p] by auto
  next
    case False
    then have "lf_operator s = Some e" "\<not> mutes e (lf_flows s ! i)" using o m by (auto simp: fair_move_def)
    then obtain q where "q \<in> set (lf_flows s)" "mutes e q" using ok by (auto simp: marks_ok_def)
    then obtain k where "k < length (lf_flows s)" "mutes e (lf_flows s ! k)" "k \<noteq> i"
      using \<open>\<not> mutes e (lf_flows s ! i)\<close> by (metis in_set_conv_nth)
    then have "lf_flows t ! k = lf_flows s ! k" "k < length (lf_flows t)" using ws by (simp_all add: nth_append)
    then show ?thesis using \<open>mutes e (lf_flows s ! k)\<close> by (metis nth_mem)
  qed
  ultimately show ?thesis by (simp add: marks_ok_def)
qed

text \<open>A call or a callback adds a flow that is no start and holds no mark, or the one start it reserved.\<close>

lemma spawn_marks:
  assumes "marks_ok s" and "lf_flows t = lf_flows s @ ws" and "list_all (\<lambda>p. \<not> is_start p) ws" and "lf_initializing t = lf_initializing s"
    and "lf_pendingInitial t = lf_pendingInitial s" and "lf_operator t = lf_operator s"
  shows "marks_ok t"
proof -
  have "filter is_start ws = []" using assms(3) by (simp add: list_all_iff filter_empty_conv)
  then show ?thesis using assms unfolding marks_ok_def starts_def pending_ok_def by (auto simp: nth_append)
qed

lemma same_marks_ok: "marks_ok s \<Longrightarrow> same_marks s t \<Longrightarrow> marks_ok t"
  by (auto simp: same_marks_def list_all_iff intro!: spawn_marks [of s t])

lemma callback_same_marks:
  "same_marks s (onQRCode s)" "same_marks s (onReconnecting n s)" "same_marks s (onStateChanged e st s)" "same_marks s (onError e x s)"
  "same_marks s (claimStuckAuthRecovery e s)"
proof -
  have err: "same_marks s (s\<lparr>lf_error := r\<rparr>)" for r by (simp add: same_marks_def)
  show "same_marks s (onQRCode s)"
    by (auto simp: onQRCode_def Let_def same_marks_def persistStatus_def spawn_def background_def split: option.splits life_reason.splits)
  show "same_marks s (onReconnecting n s)" by (simp add: onReconnecting_def Let_def same_marks_def)
  show "same_marks s (onStateChanged e st s)"
    using same_marks_park [of Run_Persist_Failed None s] by (auto simp: onStateChanged_def split: prod.splits bool.splits)
  show "same_marks s (onError e x s)"
    using same_marks_trans [OF err same_marks_park] same_marks_trans [OF err same_marks_run]
    by (auto simp: onError_def Let_def split: prod.splits bool.splits)
  show "same_marks s (claimStuckAuthRecovery e s)" by (simp add: claimStuckAuthRecovery_def same_marks_def)
qed

lemma callback_marks:
  assumes ok: "marks_ok s"
  shows "marks_ok (callback_step e c s)"
proof -
  have ready: "marks_ok (handleEngineReady e t s)" for t
    using ok by (auto simp: handleEngineReady_def Let_def spawn_def split: option.splits intro!: spawn_marks [OF ok, where ws = "[W_Ready t]"])
  have rebind: "marks_ok (rejectRebind e u t s)" for u t
    using ok unfolding rejectRebind_def Let_def spawn_def by (auto intro!: spawn_marks [OF ok])
  have disc: "marks_ok (spawn (D_Row e t) s)" for t
    by (rule spawn_marks [OF ok, where ws = "[D_Row e t]"]) (simp_all add: spawn_def)
  have plain': "marks_ok (record_event x (s\<lparr>lf_error := r\<rparr>))" "marks_ok (trackPendingCredentialTeardown s)" for x r
    by (rule same_marks_ok [OF ok]; simp add: same_marks_def)+
  show ?thesis
    by (cases c)
      (auto simp: onReady_def isLiveEngine_def ok ready rebind disc plain' split: option.splits intro: same_marks_ok [OF ok] callback_same_marks)
qed

lemma step_marks:
  assumes ok: "marks_ok s"
  shows "marks_ok (life_exec e s)"
proof -
  have pend: "pending_ok s" using ok by (simp add: marks_ok_def)
  have resumes: "marks_ok (resume i (lf_flows s ! i) a h j s)" if "i < length (lf_flows s)" for i a h j
    using resume_fair [OF pend that] move_marks [OF ok that] by blast
  have start: "marks_ok (call_start s)"
  proof (cases "lf_initializing s")
    case True
    then show ?thesis by (intro spawn_marks [OF ok, where ws = "[Ended Already_Starting]"]) (simp_all add: call_start_def spawn_def)
  next
    case False
    then show ?thesis
      using ok unfolding marks_ok_def starts_def pending_ok_def by (auto simp: call_start_def spawn_def nth_append)
  qed
  have verb: "marks_ok (call_verb v s)" for v
    by (rule spawn_marks [OF ok, where ws = "[if v = Stop \<or> v = Delete then V_Owner v else V_Row v]"]) (simp_all add: call_verb_def spawn_def)
  have orphan: "marks_ok (stop_orphan s)" and down: "marks_ok (call_shutdown s)"
    using ok unfolding stop_orphan_def call_shutdown_def Let_def spawn_def
    by (auto split: option.splits intro!: spawn_marks [OF ok])
  have timer: "marks_ok (timer_fires st s)" for st
    using ok unfolding timer_fires_def Let_def spawn_def by (auto split: option.splits intro!: spawn_marks [OF ok])
  have rest: "marks_ok (settle_teardown k s)" "marks_ok (s\<lparr>lf_owned := b\<rparr>)" "marks_ok (s\<lparr>lf_shutting := True\<rparr>)" "marks_ok (s\<lparr>lf_others := n\<rparr>)" for k b n
    by (rule same_marks_ok [OF ok]; simp add: same_marks_def)+
  show ?thesis using ok resumes start verb orphan down timer rest callback_marks [OF ok] by (cases e) auto
qed

interpretation life: event_machine life_exec marks_ok
  by unfold_locales (rule step_marks)

lemma run_marks: "marks_ok (life_run es (fresh_life row cap))"
  unfolding life_run_def by (rule life.run_inv) (simp add: marks_ok_def starts_def pending_ok_def fresh_life_def)

text \<open>C8. Starts exclude each other under every interleaving: at any time at most one start is in flight,
  exactly when the session is reserved as starting, and every reservation is given back when it ends.\<close>

theorem start_is_exclusive:
  "length (filter is_start (lf_flows (life_run es (fresh_life row cap))))
     = (if lf_initializing (life_run es (fresh_life row cap)) then 1 else 0)"
  using run_marks [of es row cap] by (simp add: marks_ok_def starts_def)

text \<open>A mark never outlives the call that set it: the mark that mutes the disconnect of an engine is
  held by a verb that is still tearing down that very engine, and the write the verbs wait for is one
  that is in flight.\<close>

theorem fences_never_stick:
  assumes "s = life_run es (fresh_life row cap)" and "\<forall>p \<in> set (lf_flows s). \<exists>r. p = Ended r"
  shows "lf_operator s = None \<and> lf_pendingInitial s = None \<and> \<not> lf_initializing s"
proof -
  have ok: "marks_ok s" unfolding assms(1) by (rule run_marks)
  have quiet: "\<not> is_start p" "\<not> mutes e p" "\<forall>who d row. p \<noteq> I_Write who d row" if "p \<in> set (lf_flows s)" for p e
    using assms(2) that by auto
  have "lf_operator s = None" using ok quiet(2) by (cases "lf_operator s") (auto simp: marks_ok_def)
  moreover have "lf_pendingInitial s = None"
    using ok quiet(3) by (cases "lf_pendingInitial s") (auto simp: marks_ok_def pending_ok_def)
  moreover have "filter is_start (lf_flows s) = []" using quiet(1) by (simp add: filter_empty_conv)
  ultimately show ?thesis using ok by (simp add: marks_ok_def starts_def split: if_splits)
qed

definition sample_session :: session_row where
  "sample_session = \<lparr>sr_name = ''shop'', sr_phone = None, sr_config = [], sr_status = SReady\<rparr>"

definition go_on :: "nat \<Rightarrow> nat \<Rightarrow> life_step list" where
  "go_on n i = replicate n (Resume i Resolves False 0)"

definition stop_run :: "life_step list" where
  "stop_run = Call Stop # go_on 5 0"

text \<open>A start that ends with a running engine; the row, the fence, the hook, the first write, the
  initialisation, the retirement check and the row again are its awaits.\<close>

definition started_run :: "life_step list" where
  "started_run = Call_Start # go_on 7 0"

theorem fences_never_stick_witness:
  "lf_operator (life_run stop_run (fresh_life sample_session None)) = None
   \<and> lf_pendingInitial (life_run stop_run (fresh_life sample_session None)) = None
   \<and> \<not> lf_initializing (life_run stop_run (fresh_life sample_session None))"
proof (rule fences_never_stick [of _ stop_run sample_session None])
  show "\<forall>p \<in> set (lf_flows (life_run stop_run (fresh_life sample_session None))). \<exists>r. p = Ended r"
    by (simp add: stop_run_def go_on_def life_run_def numeral_eq_Suc fresh_life_def sample_session_def call_verb_def spawn_def verb_owner_def go_def verb_row_def
        stop_written_def verb_final_def cancelReconnect_def write_status_def announce_def record_event_def)
qed simp

text \<open>C9. An engine that is not the registered one is mute: whatever it reports, except that it began
  to remove credentials, changes nothing, and a disconnect it had reported while it was registered is
  dropped when the row has been read.\<close>

theorem replaced_engine_is_mute:
  assumes "lf_engine s \<noteq> Some e" and "c \<noteq> On_Teardown_Started"
  shows "callback_step e c s = s \<and> disconnected_row i e reason a j s = go i (Ended Done) s"
  using assms
  by (cases c) (auto simp: isLiveEngine_def onReady_def handleEngineReady_def rejectRebind_def claimStuckAuthRecovery_def disconnected_row_def
      split: option.splits answer.splits)

theorem replaced_engine_is_mute_witness:
  "callback_step 0 (On_Disconnected ''LOGOUT'') (fresh_life sample_session None) = fresh_life sample_session None
   \<and> disconnected_row 0 0 ''LOGOUT'' Resolves 0 (fresh_life sample_session None) = go 0 (Ended Done) (fresh_life sample_session None)"
  by (rule replaced_engine_is_mute) (simp_all add: fresh_life_def)

end
