(* ===== verification/Session_Engines.thy ===== *)
theory Session_Engines
  imports Session_Safety
begin

text \<open>
  The engines of the session lifecycle: which ones run and which one is registered. The result is about
  runs in which at most one flow builds an engine at a time; the reservation of \<open>start\<close> enforces this
  between starts, and nothing enforces it between a start and a reconnect whose timer has fired.
\<close>

section \<open>Flows and the registry\<close>

text \<open>A flow that is inside \<open>start\<close> or \<open>executeReconnect\<close>.\<close>

fun is_builder :: "pc \<Rightarrow> bool" where
  "is_builder (I_Write _ _ _) = True"
| "is_builder (I_Init _ _ _) = True"
| "is_builder (I_Kill _ _ _) = True"
| "is_builder (I_Down _ _) = True"
| "is_builder (Retired _) = True"
| "is_builder (Retire_Kill _ _) = True"
| "is_builder (Purge _) = True"
| "is_builder (R_Destroy _ _ _) = True"
| "is_builder (R_Force _ _ _) = True"
| "is_builder (R_Fence _ _ _) = True"
| "is_builder p = (is_start p)"

text \<open>A flow that has called a teardown of an engine and unregisters it afterwards.\<close>

fun tears :: "nat \<Rightarrow> pc \<Rightarrow> bool" where
  "tears e (V_Teardown _ d _ _) = (d = e)"
| "tears e (V_Escalate d) = (d = e)"
| "tears e (B_Logout d _) = (d = e)"
| "tears e (O_Destroy d) = (d = e)"
| "tears e (Retire_Kill _ d) = (d = e)"
| "tears e (R_Destroy _ d _) = (d = e)"
| "tears e (R_Force _ d _) = (d = e)"
| "tears e p = False"

text \<open>What a builder relies on: which engine can be registered while it stands at an await.\<close>

fun allowed :: "pc \<Rightarrow> nat option \<Rightarrow> bool" where
  "allowed (S_Fence _ _) x = (x = None)"
| "allowed (S_Hook _) x = (x = None)"
| "allowed (R_Fence _ _ _) x = (x = None)"
| "allowed (I_Kill _ _ _) x = (x = None)"
| "allowed (I_Down _ _) x = (x = None)"
| "allowed (S_CatchKill _) x = (x = None)"
| "allowed (S_CatchWrite _) x = (x = None)"
| "allowed (R_Destroy _ e _) x = (x = None \<or> x = Some e)"
| "allowed (R_Force _ e _) x = (x = None \<or> x = Some e)"
| "allowed (I_Write _ e _) x = (x = None \<or> x = Some e)"
| "allowed (I_Init _ e _) x = (x = None \<or> x = Some e)"
| "allowed p x = True"

text \<open>The reconnect state a flow works on, and whether it is inside its initialisation.\<close>

fun works_on :: "nat \<Rightarrow> pc \<Rightarrow> bool" where
  "works_on st (I_Write who _ _) = (who = By_Reconnect st)"
| "works_on st (I_Init who _ _) = (who = By_Reconnect st)"
| "works_on st (I_Kill who _ _) = (who = By_Reconnect st)"
| "works_on st (I_Down who _) = (who = By_Reconnect st)"
| "works_on st (R_Destroy k _ _) = (k = st)"
| "works_on st (R_Force k _ _) = (k = st)"
| "works_on st (R_Fence k _ _) = (k = st)"
| "works_on st p = False"

fun inits :: "nat \<Rightarrow> pc \<Rightarrow> bool" where
  "inits st (I_Write who _ _) = (who = By_Reconnect st)"
| "inits st (I_Init who _ _) = (who = By_Reconnect st)"
| "inits st (I_Kill who _ _) = (who = By_Reconnect st)"
| "inits st (I_Down who _) = (who = By_Reconnect st)"
| "inits st p = False"

lemma not_builder_allowed [simp]: "allowed p None" "\<not> is_builder p \<Longrightarrow> allowed p x"
  by (cases p; simp)+

lemma inits_builder: "inits st p \<Longrightarrow> is_builder p"
  by (cases p) simp_all

text \<open>What does not depend on the flows: no engine runs unregistered, and a parked failure is of the
  registered engine and of a reconnect inside its initialisation.\<close>

definition rstate_fits :: "nat option \<Rightarrow> rstate \<Rightarrow> bool" where
  "rstate_fits x r \<longleftrightarrow>
     (rt_parked r \<noteq> None \<longrightarrow> rt_inInit r)
     \<and> (\<forall>e y t. rt_parked r = Some (Run_Fail e y, t) \<longrightarrow> x = None \<or> x = Some e)"

definition core :: "life \<Rightarrow> bool" where
  "core s \<longleftrightarrow>
     (\<forall>e < lf_made s. e \<in> set (lf_asked s) \<or> lf_engine s = Some e) \<and> (\<forall>e. lf_engine s = Some e \<longrightarrow> e < lf_made s)
     \<and> (\<forall>st. lf_reconnect s = Some st \<longrightarrow> st < length (lf_states s))
     \<and> (\<forall>r \<in> set (lf_states s). rstate_fits (lf_engine s) r)"

definition flows_fit :: "life \<Rightarrow> bool" where
  "flows_fit s \<longleftrightarrow>
     (\<forall>p \<in> set (lf_flows s). p \<noteq> Q_Destroy \<and> allowed p (lf_engine s) \<and> (\<forall>e. tears e p \<longrightarrow> e \<in> set (lf_asked s)) \<and> (\<forall>st. works_on st p \<longrightarrow> st < length (lf_states s)))
     \<and> (\<forall>st < length (lf_states s). rt_inInit (lf_states s ! st) \<longrightarrow> (\<exists>p \<in> set (lf_flows s). inits st p))"

definition engines_ok :: "life \<Rightarrow> bool" where
  "engines_ok s \<longleftrightarrow> core s \<and> flows_fit s"

text \<open>What every helper respects.\<close>

definition calm :: "life \<Rightarrow> life \<Rightarrow> bool" where
  "calm s t \<longleftrightarrow>
     set (lf_asked s) \<subseteq> set (lf_asked t) \<and> (lf_engine t = lf_engine s \<or> lf_engine t = None)
     \<and> length (lf_states t) = length (lf_states s) \<and> (\<forall>st < length (lf_states s). rt_inInit (lf_states t ! st) = rt_inInit (lf_states s ! st))"

lemma calm_refl [simp]: "calm s s"
  by (simp add: calm_def)

lemma calm_trans: "calm s t \<Longrightarrow> calm t u \<Longrightarrow> calm s u"
  by (auto simp: calm_def)

lemma calm_same: "lf_asked t = lf_asked s \<Longrightarrow> lf_engine t = lf_engine s \<Longrightarrow> lf_states t = lf_states s \<Longrightarrow> calm s t"
  by (simp add: calm_def)

lemma set_rstate_calm:
  assumes "\<And>r. rt_inInit (f r) = rt_inInit r"
  shows "calm s (set_rstate st f s)"
proof -
  have "rt_inInit ((lf_states s)[st := f (lf_states s ! st)] ! k) = rt_inInit (lf_states s ! k)" if "k < length (lf_states s)" for k
    using that assms by (cases "k = st") simp_all
  then show ?thesis by (simp add: calm_def set_rstate_def)
qed

lemma helper_calm [simp]:
  "calm s (record_event x s)" "calm s (ask e s)" "calm s (announce st s)" "calm s (write_status st s)" "calm s (write_phone ph s)"
  "calm s (write_ready t s)" "calm s (deleteIfLive e s)" "calm s (evictAndForceDestroy e s)" "calm s (settle_teardown k s)"
  "calm s (settle_call m a s)" "calm s (trackPendingCredentialTeardown s)" "calm s (persistStatus st s)" "calm s (spawn p s)" "calm s (go i p s)"
  "calm s (clear_operator e s)"
  by (auto simp: calm_def life_helpers trackPendingCredentialTeardown_def persistStatus_def spawn_def go_def clear_operator_def Let_def split: option.splits)

lemma cancel_fields [simp]:
  "lf_engine (cancelReconnect s) = lf_engine s" "lf_asked (cancelReconnect s) = lf_asked s" "lf_owned (cancelReconnect s) = lf_owned s"
  "lf_row (cancelReconnect s) = lf_row s" "lf_outstanding (cancelReconnect s) = lf_outstanding s" "lf_reconnect (cancelReconnect s) = None"
  by (auto simp: cancelReconnect_def set_rstate_def split: option.splits)

lemma rstate_fits_None: "rstate_fits x r \<Longrightarrow> rstate_fits None r"
  by (simp add: rstate_fits_def)

lemma set_update_all:
  assumes "\<forall>r \<in> set xs. P r" and "k < length xs \<Longrightarrow> P y"
  shows "\<forall>r \<in> set (xs[k := y]). P r"
proof (cases "k < length xs")
  case True
  then show ?thesis using assms set_update_subset_insert [of xs k y] by blast
next
  case False
  then show ?thesis using assms(1) by (simp add: list_update_beyond)
qed

lemma cancel_calm [simp]: "calm s (cancelReconnect s)"
proof (cases "lf_reconnect s")
  case (Some st)
  have "calm s (set_rstate st (\<lambda>r. r\<lparr>rt_timer := No_Timer\<rparr>) s)" by (rule set_rstate_calm) simp
  then show ?thesis using Some by (simp add: cancelReconnect_def calm_def)
qed (simp add: cancelReconnect_def)

text \<open>How the helpers keep the core.\<close>

lemma core_same: "core s \<Longrightarrow> lf_asked t = lf_asked s \<Longrightarrow> lf_engine t = lf_engine s \<Longrightarrow> lf_states t = lf_states s \<Longrightarrow> lf_made t = lf_made s \<Longrightarrow>
    lf_reconnect t = lf_reconnect s \<Longrightarrow> core t"
  by (simp add: core_def)

lemma core_simple [simp]:
  "core s \<Longrightarrow> core (record_event x s)" "core s \<Longrightarrow> core (announce st s)" "core s \<Longrightarrow> core (write_status st s)" "core s \<Longrightarrow> core (write_phone ph s)"
  "core s \<Longrightarrow> core (write_ready t s)" "core s \<Longrightarrow> core (settle_teardown k s)" "core s \<Longrightarrow> core (settle_call m a s)"
  "core s \<Longrightarrow> core (trackPendingCredentialTeardown s)" "core s \<Longrightarrow> core (persistStatus st s)" "core s \<Longrightarrow> core (spawn p s)" "core s \<Longrightarrow> core (go i p s)"
  "core s \<Longrightarrow> core (clear_operator e s)"
  by (erule core_same; simp add: life_helpers trackPendingCredentialTeardown_def persistStatus_def spawn_def go_def clear_operator_def Let_def split: option.splits)+

lemma core_ask [simp]: "core s \<Longrightarrow> core (ask e s)"
  by (auto simp: core_def ask_def)

lemma core_drop: "core s \<Longrightarrow> lf_engine s = None \<or> lf_engine s = Some e \<Longrightarrow> e \<in> set (lf_asked s) \<Longrightarrow> core (s\<lparr>lf_engine := None\<rparr>)"
  by (auto simp: core_def intro: rstate_fits_None)

lemma core_delete [simp]: "core s \<Longrightarrow> e \<in> set (lf_asked s) \<Longrightarrow> core (deleteIfLive e s)"
  by (auto simp: core_def deleteIfLive_def isLiveEngine_def intro: rstate_fits_None)

lemma core_evict: "core s \<Longrightarrow> lf_engine s = None \<or> lf_engine s = Some e \<Longrightarrow> core (evictAndForceDestroy e s)"
  by (auto simp: core_def evictAndForceDestroy_def ask_def intro: rstate_fits_None)

lemma core_set_rstate:
  assumes "core s" and "\<And>r. rt_inInit (f r) = rt_inInit r" and "\<And>r. rt_parked (f r) = rt_parked r \<or> rt_parked (f r) = None"
  shows "core (set_rstate st f s)"
proof -
  have "rstate_fits (lf_engine s) (f (lf_states s ! st))" if "st < length (lf_states s)"
  proof -
    have "rstate_fits (lf_engine s) (lf_states s ! st)" using assms(1) that by (simp add: core_def)
    then show ?thesis using assms(3) [of "lf_states s ! st"] by (elim disjE) (simp_all add: rstate_fits_def assms(2))
  qed
  then have "\<forall>r \<in> set ((lf_states s)[st := f (lf_states s ! st)]). rstate_fits (lf_engine s) r"
    using assms(1) by (intro set_update_all) (simp_all add: core_def)
  then show ?thesis using assms(1) by (simp add: core_def set_rstate_def)
qed

lemma core_cancel [simp]:
  assumes "core s"
  shows "core (cancelReconnect s)"
proof (cases "lf_reconnect s")
  case (Some st)
  have "core (set_rstate st (\<lambda>r. r\<lparr>rt_timer := No_Timer\<rparr>) s)" by (rule core_set_rstate [OF assms]) simp_all
  then show ?thesis using Some by (simp add: cancelReconnect_def core_def)
qed (use assms in \<open>simp add: cancelReconnect_def\<close>)

lemma core_run_parked:
  assumes "core s" and "\<And>e r. run = Run_Fail e r \<Longrightarrow> lf_engine s = None \<or> lf_engine s = Some e"
  shows "core (run_parked run s)" and "calm s (run_parked run s)"
proof -
  show "core (run_parked run s)"
  proof (cases run)
    case (Run_Fail e r)
    have "core (persistStatus SFailed (record_event (Ev_Error r) (cancelReconnect s)))"
      by (intro core_simple(1,9) core_cancel assms(1))
    moreover have "lf_engine (persistStatus SFailed (record_event (Ev_Error r) (cancelReconnect s))) = lf_engine s"
      by (simp add: persistStatus_def spawn_def record_event_def)
    ultimately show ?thesis using assms(2) [OF Run_Fail] Run_Fail by (simp add: run_parked_def core_evict)
  qed (simp add: run_parked_def assms(1))
  show "calm s (run_parked run s)"
  proof (cases run)
    case (Run_Fail e r)
    have "calm s (persistStatus SFailed (record_event (Ev_Error r) (cancelReconnect s)))"
      using calm_trans [OF cancel_calm] calm_trans helper_calm by metis
    then show ?thesis unfolding Run_Fail run_parked_def using calm_trans helper_calm(8) by fastforce
  qed (simp add: run_parked_def)
qed

lemma core_schedule:
  assumes "core s"
  shows "core (scheduleReconnect j row s)" and "calm s (scheduleReconnect j row s)"
proof -
  have armed: "core (set_rstate st (\<lambda>r. r\<lparr>rt_try := t, rt_timer := Armed, rt_row := Some row\<rparr>) u)"
    and armed': "calm u (set_rstate st (\<lambda>r. r\<lparr>rt_try := t, rt_timer := Armed, rt_row := Some row\<rparr>) u)" if "core u" for st t u
    using that by (auto intro!: core_set_rstate set_rstate_calm)
  define gone where "gone r = (let s1 = record_event (Ev_Error r) (persistStatus SFailed (s\<lparr>lf_error := Some r\<rparr>))
      in cancelReconnect (case lf_engine s1 of Some e \<Rightarrow> evictAndForceDestroy e s1 | None \<Rightarrow> s1))" for r
  have gone: "core (gone r) \<and> calm s (gone r)" for r
  proof -
    define s1 where "s1 = record_event (Ev_Error r) (persistStatus SFailed (s\<lparr>lf_error := Some r\<rparr>))"
    have 1: "core s1" "calm s s1"
      using assms by (auto simp: s1_def record_event_def persistStatus_def spawn_def intro!: core_same [OF assms] calm_same)
    define s2 where "s2 = (case lf_engine s1 of Some e \<Rightarrow> evictAndForceDestroy e s1 | None \<Rightarrow> s1)"
    have "core s2" "calm s1 s2" using 1 core_evict by (auto simp: s2_def split: option.splits)
    then show ?thesis using 1 calm_trans cancel_calm core_cancel unfolding gone_def Let_def s1_def [symmetric] s2_def [symmetric] by blast
  qed
  have loop: "core (if b then record_event x s else s) \<and> calm s (if b then record_event x s else s)" for b x using assms by simp
  have "core (scheduleReconnect j row s) \<and> calm s (scheduleReconnect j row s)"
  proof (cases "lf_shutting s \<or> lf_reconnect s = None")
    case True
    then show ?thesis using assms by (auto simp: scheduleReconnect_def)
  next
    case False
    then obtain st where st: "lf_reconnect s = Some st" "\<not> lf_shutting s" by auto
    obtain d t where d: "decideReconnect j (rt_try (lf_states s ! st)) = (d, t)" by fastforce
    show ?thesis
    proof (cases d)
      case (Exhausted x)
      then have "scheduleReconnect j row s = gone (gave_up_reason x s)"
        unfolding scheduleReconnect_def gone_def Let_def using st d by simp
      then show ?thesis using gone by simp
    next
      case (Scheduled a n b)
      then have "scheduleReconnect j row s =
          set_rstate st (\<lambda>r. r\<lparr>rt_try := t, rt_timer := Armed, rt_row := Some row\<rparr>) (if b then record_event (Ev_Loop n) s else s)"
        unfolding scheduleReconnect_def Let_def using st d by simp
      then show ?thesis using loop [of b "Ev_Loop n"] armed armed' calm_trans by metis
    qed
  qed
  then show "core (scheduleReconnect j row s)" "calm s (scheduleReconnect j row s)" by simp_all
qed

text \<open>The fields the helpers leave alone, and updates of the fields nothing here depends on.\<close>

lemmas then_calm [simp] = helper_calm [THEN [2] calm_trans] cancel_calm [THEN [2] calm_trans]

lemma helper_engine [simp]:
  "lf_engine (record_event x s) = lf_engine s" "lf_engine (ask e s) = lf_engine s" "lf_engine (announce y s) = lf_engine s"
  "lf_engine (write_status y s) = lf_engine s" "lf_engine (write_phone ph s) = lf_engine s" "lf_engine (write_ready z s) = lf_engine s"
  "lf_engine (settle_teardown k s) = lf_engine s" "lf_engine (settle_call m a s) = lf_engine s" "lf_engine (set_rstate n f s) = lf_engine s"
  "lf_engine (trackPendingCredentialTeardown s) = lf_engine s" "lf_engine (persistStatus y s) = lf_engine s" "lf_engine (spawn p s) = lf_engine s"
  "lf_engine (deleteIfLive e s) = (if lf_engine s = Some e then None else lf_engine s)"
  by (auto simp: life_helpers isLiveEngine_def trackPendingCredentialTeardown_def persistStatus_def spawn_def Let_def split: option.splits)

lemma helper_asked [simp]:
  "lf_asked (record_event x s) = lf_asked s" "lf_asked (ask e s) = lf_asked s @ [e]" "lf_asked (announce y s) = lf_asked s"
  "lf_asked (write_status y s) = lf_asked s" "lf_asked (write_phone ph s) = lf_asked s" "lf_asked (write_ready z s) = lf_asked s"
  "lf_asked (settle_teardown k s) = lf_asked s" "lf_asked (settle_call m a s) = lf_asked s" "lf_asked (set_rstate n f s) = lf_asked s"
  "lf_asked (trackPendingCredentialTeardown s) = lf_asked s" "lf_asked (persistStatus y s) = lf_asked s" "lf_asked (spawn p s) = lf_asked s"
  "lf_asked (deleteIfLive e s) = lf_asked s"
  by (auto simp: life_helpers isLiveEngine_def trackPendingCredentialTeardown_def persistStatus_def spawn_def Let_def split: option.splits)

lemma helper_states [simp]:
  "lf_states (record_event x s) = lf_states s" "lf_states (ask e s) = lf_states s" "lf_states (announce y s) = lf_states s"
  "lf_states (write_status y s) = lf_states s" "lf_states (write_phone ph s) = lf_states s" "lf_states (write_ready z s) = lf_states s"
  "lf_states (settle_teardown k s) = lf_states s" "lf_states (settle_call m a s) = lf_states s" "lf_states (deleteIfLive e s) = lf_states s"
  "lf_states (trackPendingCredentialTeardown s) = lf_states s" "lf_states (persistStatus y s) = lf_states s" "lf_states (spawn p s) = lf_states s"
  by (auto simp: life_helpers isLiveEngine_def trackPendingCredentialTeardown_def persistStatus_def spawn_def Let_def split: option.splits)

lemma irrelevant_calm [simp]:
  "calm s (u\<lparr>lf_stopping := b\<rparr>) = calm s u" "calm s (u\<lparr>lf_initializing := b\<rparr>) = calm s u" "calm s (u\<lparr>lf_operator := x\<rparr>) = calm s u"
  "calm s (u\<lparr>lf_refused := b\<rparr>) = calm s u" "calm s (u\<lparr>lf_row := r\<rparr>) = calm s u" "calm s (u\<lparr>lf_dirs := b\<rparr>) = calm s u"
  "calm s (u\<lparr>lf_error := z\<rparr>) = calm s u" "calm s (u\<lparr>lf_failedInit := m\<rparr>) = calm s u" "calm s (u\<lparr>lf_pendingInitial := y\<rparr>) = calm s u"
  "calm s (u\<lparr>lf_dispatched := v\<rparr>) = calm s u" "calm s (u\<lparr>lf_stuckUsed := b\<rparr>) = calm s u" "calm s (u\<lparr>lf_granted := m\<rparr>) = calm s u"
  "calm s (u\<lparr>lf_owned := b\<rparr>) = calm s u" "calm s (u\<lparr>lf_shutting := b\<rparr>) = calm s u" "calm s (u\<lparr>lf_others := n\<rparr>) = calm s u"
  by (simp_all add: calm_def)

lemma irrelevant_core [simp]:
  "core (u\<lparr>lf_stopping := b\<rparr>) = core u" "core (u\<lparr>lf_initializing := b\<rparr>) = core u" "core (u\<lparr>lf_operator := x\<rparr>) = core u"
  "core (u\<lparr>lf_refused := b\<rparr>) = core u" "core (u\<lparr>lf_row := r\<rparr>) = core u" "core (u\<lparr>lf_dirs := b\<rparr>) = core u"
  "core (u\<lparr>lf_error := z\<rparr>) = core u" "core (u\<lparr>lf_failedInit := m\<rparr>) = core u" "core (u\<lparr>lf_pendingInitial := y\<rparr>) = core u"
  "core (u\<lparr>lf_dispatched := v\<rparr>) = core u" "core (u\<lparr>lf_stuckUsed := b\<rparr>) = core u" "core (u\<lparr>lf_granted := m\<rparr>) = core u"
  "core (u\<lparr>lf_owned := b\<rparr>) = core u" "core (u\<lparr>lf_shutting := b\<rparr>) = core u" "core (u\<lparr>lf_others := n\<rparr>) = core u"
  by (simp_all add: core_def)

lemma two_in_filter:
  assumes "i < length xs" "j < length xs" "i \<noteq> j" "P (xs ! i)" "P (xs ! j)"
  shows "2 \<le> length (filter P xs)"
proof -
  have "card {i, j} \<le> card {k. k < length xs \<and> P (xs ! k)}" by (rule card_mono) (use assms in auto)
  then show ?thesis using assms(3) by (simp add: length_filter_conv_card)
qed

section \<open>One resumption\<close>

definition builders :: "life \<Rightarrow> nat" where
  "builders s = length (filter is_builder (lf_flows s))"

definition fits :: "pc \<Rightarrow> life \<Rightarrow> bool" where
  "fits p s \<longleftrightarrow> p \<noteq> Q_Destroy \<and> allowed p (lf_engine s) \<and> (\<forall>e. tears e p \<longrightarrow> e \<in> set (lf_asked s)) \<and> (\<forall>st. works_on st p \<longrightarrow> st < length (lf_states s))"

text \<open>What a resumption that takes a flow from \<open>p\<close> to \<open>q\<close> does to what the other flows rely on.\<close>

definition progress :: "pc \<Rightarrow> pc \<Rightarrow> life \<Rightarrow> life \<Rightarrow> bool" where
  "progress p q s t \<longleftrightarrow>
     set (lf_asked s) \<subseteq> set (lf_asked t) \<and> (lf_engine t = lf_engine s \<or> lf_engine t = None \<or> is_builder p)
     \<and> length (lf_states s) \<le> length (lf_states t) \<and> (is_builder q \<longrightarrow> is_builder p)
     \<and> (\<forall>st < length (lf_states t). rt_inInit (lf_states t ! st) \<longrightarrow>
          inits st q \<or> st < length (lf_states s) \<and> rt_inInit (lf_states s ! st) \<and> \<not> inits st p)"

definition engine_move :: "nat \<Rightarrow> life \<Rightarrow> life \<Rightarrow> bool" where
  "engine_move i s t \<longleftrightarrow> core t \<and> fits (lf_flows t ! i) t \<and> progress (lf_flows s ! i) (lf_flows t ! i) s t"

lemma progress_calm: "calm s t \<Longrightarrow> (is_builder q \<Longrightarrow> is_builder p) \<Longrightarrow> (\<And>st. inits st p \<Longrightarrow> inits st q) \<Longrightarrow> progress p q s t"
  by (auto simp: calm_def progress_def)

lemma progress_then: "progress p q s t \<Longrightarrow> calm t u \<Longrightarrow> progress p q s u"
  unfolding progress_def calm_def by (elim conjE) auto

text \<open>The usual resumption: some helpers, and the flow moves on.\<close>

lemma move_go:
  assumes "core u" and "progress (lf_flows s ! i) q s u" and "fits q u" and "i < length (lf_flows u)"
  shows "engine_move i s (go i q u)"
  using assms by (simp add: engine_move_def fits_def progress_def)

lemma move_then:
  assumes "engine_move i s t" and "core u" and "calm t u" and "lf_flows u = lf_flows t @ ws" and "i < length (lf_flows t)"
    and "lf_engine u = lf_engine t \<or> \<not> is_builder (lf_flows t ! i)"
  shows "engine_move i s u"
proof -
  have "allowed (lf_flows t ! i) (lf_engine u)"
    using assms(1,6) by (auto simp: engine_move_def fits_def)
  moreover have "lf_flows u ! i = lf_flows t ! i" using assms(4,5) by (simp add: nth_append)
  ultimately show ?thesis using assms(1-3) progress_then [of _ _ s t u] by (auto simp: engine_move_def fits_def calm_def)
qed

lemma no_init_no_parked:
  assumes "engines_ok s" and "builders s \<le> 1" and "i < length (lf_flows s)" and "is_builder (lf_flows s ! i)" and "\<And>st. \<not> inits st (lf_flows s ! i)"
  shows "\<forall>r \<in> set (lf_states s). \<not> rt_inInit r \<and> rt_parked r = None"
proof
  fix r assume "r \<in> set (lf_states s)"
  then obtain st where st: "st < length (lf_states s)" "r = lf_states s ! st" by (metis in_set_conv_nth)
  have "\<not> rt_inInit r"
  proof
    assume "rt_inInit r"
    then obtain j where j: "j < length (lf_flows s)" "inits st (lf_flows s ! j)"
      using assms(1) st by (metis engines_ok_def flows_fit_def in_set_conv_nth)
    have "is_builder (lf_flows s ! j)" using j(2) by (rule inits_builder)
    moreover have "j \<noteq> i" using j(2) assms(5) by auto
    ultimately have "\<not> builders s \<le> 1"
      using two_in_filter [where i = i and j = j and xs = "lf_flows s" and P = is_builder] assms(3,4) j(1) by (simp add: builders_def)
    then show False using assms(2) by simp
  qed
  moreover have "rstate_fits (lf_engine s) r" using assms(1) \<open>r \<in> set (lf_states s)\<close> by (simp add: engines_ok_def core_def)
  ultimately show "\<not> rt_inInit r \<and> rt_parked r = None" by (cases "rt_parked r") (simp_all add: rstate_fits_def)
qed

lemma ok_flow:
  assumes "engines_ok s" and "i < length (lf_flows s)"
  shows "core s" and "fits (lf_flows s ! i) s"
  using assms(1) nth_mem [OF assms(2)] by (auto simp: engines_ok_def flows_fit_def fits_def)

lemma engine_stays:
  assumes "engines_ok s" and "i < length (lf_flows s)"
  shows "engine_move i s s"
proof -
  have "progress (lf_flows s ! i) (lf_flows s ! i) s s"
    using assms(1) by (auto simp: progress_def)
  then show ?thesis using ok_flow [OF assms] by (simp add: engine_move_def)
qed

lemma fits_simps [simp]:
  "fits (Ended r) s" "fits (I_Down who row) s \<longleftrightarrow> lf_engine s = None \<and> (\<forall>st. who = By_Reconnect st \<longrightarrow> st < length (lf_states s))"
  by (auto simp: fits_def)

lemmas moves = move_go progress_calm

lemma start_arms_move:
  assumes ok: "engines_ok s" and i: "i < length (lf_flows s)"
  shows "lf_flows s ! i = S_Row \<Longrightarrow> engine_move i s (start_row i a s)"
    and "lf_flows s ! i = S_Fence row ops \<Longrightarrow> engine_move i s (start_fence i row ops a s)"
    and "lf_flows s ! i = S_CatchKill r \<Longrightarrow> engine_move i s (start_catch_killed i r s)"
    and "lf_flows s ! i = S_CatchWrite r \<Longrightarrow> engine_move i s (start_catch_written i r a s)"
    and "lf_flows s ! i = S_Final \<Longrightarrow> engine_move i s (start_final i a s)"
  using ok_flow [OF ok i] engine_stays [OF ok i] i
  by (auto simp: start_arms fits_def split: option.splits fence.splits intro!: moves)

lemma verb_arms_move:
  assumes ok: "engines_ok s" and i: "i < length (lf_flows s)"
  shows "lf_flows s ! i = V_Owner v \<Longrightarrow> engine_move i s (verb_owner i v a h s)"
    and "lf_flows s ! i = V_Row v \<Longrightarrow> engine_move i s (verb_row i v a s)"
    and "lf_flows s ! i = V_Escalate e \<Longrightarrow> engine_move i s (stop_escalated i e a s)"
    and "lf_flows s ! i = V_Incomplete e \<Longrightarrow> engine_move i s (stop_incomplete i e a s)"
    and "lf_flows s ! i = V_Write v e u \<Longrightarrow> engine_move i s (verb_written i v e u a s)"
    and "lf_flows s ! i = Stop_Write \<Longrightarrow> engine_move i s (stop_written i a s)"
    and "lf_flows s ! i = L_Phone u \<Longrightarrow> engine_move i s (logout_phone i u a s)"
    and "lf_flows s ! i = V_Final \<Longrightarrow> engine_move i s (verb_final i a s)"
    and "lf_flows s ! i = X_Fence row ops \<Longrightarrow> engine_move i s (delete_fence i row ops a s)"
    and "lf_flows s ! i = X_Fence2 u row ops \<Longrightarrow> engine_move i s (delete_fence2 i u row ops a s)"
    and "lf_flows s ! i = X_Refused \<Longrightarrow> engine_move i s (delete_refused i a s)"
    and "lf_flows s ! i = X_Remove \<Longrightarrow> engine_move i s (delete_removed i a s)"
    and "lf_flows s ! i = B_Logout e k \<Longrightarrow> engine_move i s (rebind_logged_out i e k a s)"
proof -
  note f = ok_flow [OF ok i] engine_stays [OF ok i] i
  note d = fits_def leave_delete_def Let_def
  show "lf_flows s ! i = V_Owner v \<Longrightarrow> engine_move i s (verb_owner i v a h s)"
    using f by (auto simp: verb_owner_def d intro!: moves)
  show "lf_flows s ! i = V_Row v \<Longrightarrow> engine_move i s (verb_row i v a s)"
    using f by (auto simp: verb_row_def begin_teardown_def d split: answer.splits option.splits verb.splits intro!: moves)
  show "lf_flows s ! i = V_Escalate e \<Longrightarrow> engine_move i s (stop_escalated i e a s)"
    using f by (auto simp: stop_escalated_def d intro!: moves)
  show "lf_flows s ! i = V_Incomplete e \<Longrightarrow> engine_move i s (stop_incomplete i e a s)"
    using f by (auto simp: stop_incomplete_def d intro!: moves)
  show "lf_flows s ! i = V_Write v e u \<Longrightarrow> engine_move i s (verb_written i v e u a s)"
    using f by (auto simp: verb_written_def d intro!: moves)
  show "lf_flows s ! i = Stop_Write \<Longrightarrow> engine_move i s (stop_written i a s)"
    using f by (auto simp: stop_written_def d intro!: moves)
  show "lf_flows s ! i = L_Phone u \<Longrightarrow> engine_move i s (logout_phone i u a s)"
    using f by (auto simp: logout_phone_def d intro!: moves)
  show "lf_flows s ! i = V_Final \<Longrightarrow> engine_move i s (verb_final i a s)"
    using f by (auto simp: verb_final_def d intro!: moves)
  show "lf_flows s ! i = X_Fence row ops \<Longrightarrow> engine_move i s (delete_fence i row ops a s)"
    using f by (auto simp: delete_fence_def begin_teardown_def d split: option.splits fence.splits intro!: moves)
  show "lf_flows s ! i = X_Fence2 u row ops \<Longrightarrow> engine_move i s (delete_fence2 i u row ops a s)"
    using f by (auto simp: delete_fence2_def d split: fence.splits intro!: moves)
  show "lf_flows s ! i = X_Refused \<Longrightarrow> engine_move i s (delete_refused i a s)"
    using f by (auto simp: delete_refused_def d intro!: moves)
  show "lf_flows s ! i = X_Remove \<Longrightarrow> engine_move i s (delete_removed i a s)"
    using f by (auto simp: delete_removed_def d intro!: moves)
  show "lf_flows s ! i = B_Logout e k \<Longrightarrow> engine_move i s (rebind_logged_out i e k a s)"
    using f by (auto simp: rebind_logged_out_def d intro!: moves)
qed

lemma initialize_move:
  assumes "i < length (lf_flows s)" and "is_builder (lf_flows s ! i)" and "core u" and "lf_engine u = None" and "lf_asked u = lf_asked s"
    and "lf_flows u = lf_flows s" and "length (lf_states s) \<le> length (lf_states u)" and "\<forall>r \<in> set (lf_states u). rt_parked r = None"
    and "\<forall>st < length (lf_states u). rt_inInit (lf_states u ! st) \<longrightarrow> who = By_Reconnect st"
    and "\<forall>st. who = By_Reconnect st \<longrightarrow> st < length (lf_states u)"
  shows "engine_move i s (initializeEngine i who row u)"
proof -
  let ?t = "initializeEngine i who row u"
  have "\<forall>k < Suc (lf_made u). k \<in> set (lf_asked u) \<or> k = lf_made u"
    using assms(3,4) by (simp add: core_def less_Suc_eq)
  moreover have "\<forall>r \<in> set (lf_states u). rstate_fits (Some (lf_made u)) r"
    using assms(8) by (simp add: rstate_fits_def)
  moreover have "\<forall>st. lf_reconnect u = Some st \<longrightarrow> st < length (lf_states u)" using assms(3) by (simp add: core_def)
  ultimately have "core ?t" unfolding core_def initializeEngine_def Let_def go_def by simp blast
  moreover have q: "lf_flows ?t ! i = I_Write who (lf_made u) row" "lf_engine ?t = Some (lf_made u)" "lf_asked ?t = lf_asked s" "lf_states ?t = lf_states u"
    using assms(1,5,6) by (simp_all add: initializeEngine_def Let_def)
  moreover have "fits (I_Write who (lf_made u) row) ?t" unfolding fits_def q using assms(10) by simp
  moreover have "progress (lf_flows s ! i) (I_Write who (lf_made u) row) s ?t"
    unfolding progress_def q using assms(2,7,9) by simp
  ultimately show ?thesis by (simp add: engine_move_def)
qed

lemma build_arms_move:
  assumes ok: "engines_ok s" and one: "builders s \<le> 1" and i: "i < length (lf_flows s)"
  shows "lf_flows s ! i = S_Hook row \<Longrightarrow> engine_move i s (start_hook i row s)"
    and "lf_flows s ! i = R_Fence st row ops \<Longrightarrow> fence_result ops a s = Fence_Passes \<Longrightarrow> engine_move i s (reconnect_fence i st row ops a j s)"
proof -
  note f = ok_flow [OF ok i]
  {
    assume p: "lf_flows s ! i = S_Hook row"
    have none: "\<forall>r \<in> set (lf_states s). \<not> rt_inInit r \<and> rt_parked r = None"
      by (rule no_init_no_parked [OF ok one i]) (simp_all add: p)
    obtain m b where c: "resolveReconnectConfig (sr_config row) = (m, b)" by fastforce
    have "lf_engine s = None" using f(2) p by (simp add: fits_def)
    define u where "u = s\<lparr>lf_reconnect := Some (length (lf_states s)),
             lf_states := lf_states s @
               [\<lparr>rt_try = \<lparr>ra_attempts = 0, ra_max = m, ra_base = b\<rparr>, rt_timer = No_Timer, rt_row = None,
                 rt_inInit = False, rt_parked = None\<rparr>],
             lf_stuckUsed := False\<rparr>"
    have "core u" using f(1) by (simp add: core_def u_def) (simp add: rstate_fits_def)
    moreover have "\<forall>st < length (lf_states u). \<not> rt_inInit (lf_states u ! st)"
      using none by (simp add: u_def nth_append)
    moreover have "\<forall>r \<in> set (lf_states u). rt_parked r = None" using none by (simp add: u_def)
    ultimately have "engine_move i s (initializeEngine i By_Start row u)"
      by (intro initialize_move) (use p i \<open>lf_engine s = None\<close> in \<open>simp_all add: u_def\<close>)
    then show "engine_move i s (start_hook i row s)" unfolding start_hook_def c prod.case u_def .
  next
    assume p: "lf_flows s ! i = R_Fence st row ops" and pass: "fence_result ops a s = Fence_Passes"
    have none: "\<forall>r \<in> set (lf_states s). \<not> rt_inInit r \<and> rt_parked r = None"
      by (rule no_init_no_parked [OF ok one i]) (simp_all add: p)
    have e: "lf_engine s = None" and st: "st < length (lf_states s)" using f(2) p by (simp_all add: fits_def)
    define u where "u = set_rstate st (\<lambda>r. r\<lparr>rt_inInit := True\<rparr>) s"
    have all: "\<forall>r \<in> set (lf_states u). rt_parked r = None"
    proof -
      have "\<forall>r \<in> set ((lf_states s)[st := (lf_states s ! st)\<lparr>rt_inInit := True\<rparr>]). rt_parked r = None"
        by (rule set_update_all) (use none st in simp_all)
      then show ?thesis by (simp add: u_def set_rstate_def)
    qed
    have "lf_engine u = None" "lf_made u = lf_made s" "lf_asked u = lf_asked s" "lf_reconnect u = lf_reconnect s"
      "length (lf_states u) = length (lf_states s)"
      using e by (simp_all add: u_def set_rstate_def)
    moreover have "\<forall>r \<in> set (lf_states u). rstate_fits None r" using all by (simp add: rstate_fits_def)
    ultimately have "core u" using f(1) e unfolding core_def by simp
    moreover have "\<forall>k < length (lf_states u). rt_inInit (lf_states u ! k) \<longrightarrow> By_Reconnect st = By_Reconnect k"
    proof (intro allI impI)
      fix k assume k: "k < length (lf_states u)" "rt_inInit (lf_states u ! k)"
      show "By_Reconnect st = By_Reconnect k" using k none by (cases "k = st") (auto simp: u_def set_rstate_def)
    qed
    ultimately have "engine_move i s (initializeEngine i (By_Reconnect st) row u)"
      by (intro initialize_move) (use p i all e st in \<open>simp_all add: u_def set_rstate_def\<close>)
    then show "engine_move i s (reconnect_fence i st row ops a j s)"
      unfolding reconnect_fence_def pass u_def by simp
  }
qed

section \<open>Reconnects and the ends of \<open>initializeEngine\<close>\<close>

lemma set_rstate_simps [simp]:
  "lf_flows (set_rstate st f s) = lf_flows s" "lf_reconnect (set_rstate st f s) = lf_reconnect s" "length (lf_states (set_rstate st f s)) = length (lf_states s)"
  "lf_owned (set_rstate st f s) = lf_owned s" "lf_row (set_rstate st f s) = lf_row s"
  by (simp_all add: set_rstate_def)

text \<open>Leaving the initialisation: the flag goes, with it whatever was parked.\<close>

lemma core_clear:
  assumes "core s" and "\<And>r. rt_parked (f r) = None"
  shows "core (set_rstate st f s)"
proof -
  have "rstate_fits (lf_engine s) (f (lf_states s ! st))" by (simp add: rstate_fits_def assms(2))
  then have "\<forall>r \<in> set ((lf_states s)[st := f (lf_states s ! st)]). rstate_fits (lf_engine s) r"
    using assms(1) by (intro set_update_all) (simp_all add: core_def)
  then show ?thesis using assms(1) by (simp add: core_def set_rstate_def)
qed

lemma progress_clear:
  assumes "is_builder p" and "\<And>k. inits k p \<longleftrightarrow> k = st" and "\<And>r. \<not> rt_inInit (f r)"
  shows "progress p q s (set_rstate st f s)"
proof -
  have "rt_inInit (lf_states s ! k) \<and> \<not> inits k p"
    if "k < length (lf_states s)" "rt_inInit ((lf_states s)[st := f (lf_states s ! st)] ! k)" for k
    using that assms(2,3) by (cases "k = st") simp_all
  then show ?thesis
    using assms(1) unfolding progress_def by (simp add: set_rstate_def)
qed

lemma retirement_move:
  assumes "i < length (lf_flows s)" and "is_builder (lf_flows s ! i)" and "core u" and "progress (lf_flows s ! i) (Purge who) s u"
    and "i < length (lf_flows u)"
  shows "engine_move i s (check_retired i who u)" and "engine_move i s (retire_now i who u)"
proof -
  have *: "progress (lf_flows s ! i) q s v" if "\<And>st. \<not> inits st q" "calm u v" for q v
  proof -
    have "progress (lf_flows s ! i) q s u" using assms(2,4) that(1) by (simp add: progress_def)
    then show ?thesis using that(2) by (rule progress_then)
  qed
  show now: "engine_move i s (retire_now i who u)"
    using assms(3,5) by (cases "lf_engine u") (auto simp: retire_now_def fits_def intro!: move_go *)
  show "engine_move i s (check_retired i who u)"
    unfolding check_retired_def using now assms(3,5) by (auto simp: fits_def intro!: move_go *)
qed

text \<open>The end of a failed reconnect, and the end of \<open>initializeEngine\<close> for both builders.\<close>

lemma parked_fits:
  assumes "core s" and "st < length (lf_states s)" and "rt_parked (lf_states s ! st) = Some (Run_Fail e r, b)"
  shows "lf_engine s = None \<or> lf_engine s = Some e"
proof -
  have "rstate_fits (lf_engine s) (lf_states s ! st)" using assms(1,2) by (simp add: core_def)
  then show ?thesis using assms(3) by (simp add: rstate_fits_def)
qed

lemma retry_move:
  assumes "core s"
  defines "s2 \<equiv> case lf_engine s of Some e \<Rightarrow> evictAndForceDestroy e s | None \<Rightarrow> s"
  shows "core (if lf_stopping s2 then cancelReconnect s2 else scheduleReconnect j row s2)"
    and "calm s (if lf_stopping s2 then cancelReconnect s2 else scheduleReconnect j row s2)"
proof -
  have 2: "core s2" "calm s s2" using assms(1) core_evict by (auto simp: s2_def split: option.splits)
  have "core (scheduleReconnect j row s2)" "calm s (scheduleReconnect j row s2)"
    using core_schedule [OF 2(1), of j row] calm_trans [OF 2(2)] by simp_all
  then show "core (if lf_stopping s2 then cancelReconnect s2 else scheduleReconnect j row s2)"
    and "calm s (if lf_stopping s2 then cancelReconnect s2 else scheduleReconnect j row s2)"
    using 2 by simp_all
qed

lemma ended_then:
  assumes i: "i < length (lf_flows u)" and u: "core u" "progress (lf_flows s ! i) (Ended z) s u" and v: "core v" "calm (go i (Ended z) u) v"
    and m: "lf_flows v = (lf_flows u)[i := Ended z] @ ws"
  shows "engine_move i s v"
proof -
  have "engine_move i s (go i (Ended z) u)" using u i by (intro move_go) simp_all
  then show ?thesis by (rule move_then [where ws = ws]) (use v m i in simp_all)
qed

lemma reconnect_failed_move:
  assumes i: "i < length (lf_flows s)" and u: "lf_flows u = lf_flows s" "core (set_rstate st (\<lambda>r. r\<lparr>rt_parked := None\<rparr>) u)"
    and e: "\<And>e r b. rt_parked (lf_states u ! st) = Some (Run_Fail e r, b) \<Longrightarrow> lf_engine u = None \<or> lf_engine u = Some e"
    and p: "progress (lf_flows s ! i) (Ended (Failed_With x)) s (set_rstate st (\<lambda>r. r\<lparr>rt_parked := None\<rparr>) u)"
  shows "engine_move i s (reconnect_failed i st row x j u)"
proof -
  define v where "v = set_rstate st (\<lambda>r. r\<lparr>rt_parked := None\<rparr>) u"
  define s1 where "s1 = go i (Ended (Failed_With x)) v"
  have c: "core s1" and "lf_engine s1 = lf_engine u" using u(2) by (simp_all add: s1_def v_def)
  then have ran: "core (run_parked run s1)" "calm s1 (run_parked run s1)" if "rt_parked (lf_states u ! st) = Some (run, b)" for run b
    using core_run_parked [of s1 run] e that by auto
  have "core (reconnect_failed i st row x j u) \<and> calm s1 (reconnect_failed i st row x j u)"
    unfolding reconnect_failed_def Let_def s1_def [symmetric, unfolded v_def]
    using c ran retry_move [OF c, of j row] by (auto simp: s1_def v_def split: option.splits)
  moreover obtain ws where "lf_flows (reconnect_failed i st row x j u) = (lf_flows v)[i := Ended (Failed_With x)] @ ws"
    using reconnect_failed_marks [of i x u st row j] by (auto simp: same_marks_def v_def)
  ultimately show ?thesis
    using i u(1,2) p by (intro ended_then [where u = v and z = "Failed_With x" and ws = ws]) (simp_all add: v_def s1_def)
qed

lemma init_resolved_move:
  assumes ok: "core s" and i: "i < length (lf_flows s)" and b: "is_builder (lf_flows s ! i)"
    and w: "\<And>st. inits st (lf_flows s ! i) \<longleftrightarrow> who = By_Reconnect st" "\<And>st. who = By_Reconnect st \<Longrightarrow> st < length (lf_states s)"
    and u: "core u" "lf_flows u = lf_flows s" "lf_states u = lf_states s" "lf_engine u = lf_engine s \<or> lf_engine u = None" "lf_asked u = lf_asked s"
  shows "engine_move i s (init_resolved i who u)"
proof (cases who)
  case By_Start
  have "calm s u" using u by (simp add: calm_def)
  then have "progress (lf_flows s ! i) (Purge who) s u" using w(1) By_Start b by (intro progress_calm) simp_all
  then show ?thesis using i b u by (simp add: init_resolved_def By_Start retirement_move(1))
next
  case (By_Reconnect st)
  define f :: "rstate \<Rightarrow> rstate" where "f = (\<lambda>r. r\<lparr>rt_inInit := False, rt_parked := None\<rparr>)"
  define s1 where "s1 = set_rstate st f u"
  define s2 where "s2 = (case rt_parked (lf_states u ! st) of
      Some (run, _) \<Rightarrow> if lf_reconnect s1 = Some st then run_parked run s1 else s1 | None \<Rightarrow> s1)"
  have "core s1" unfolding s1_def by (rule core_clear [OF u(1)]) (simp add: f_def)
  have "lf_engine s1 = lf_engine u" by (simp add: s1_def)
  have st: "st < length (lf_states u)" using w(2) By_Reconnect u(3) by simp
  have ran: "core (run_parked run s1) \<and> calm s1 (run_parked run s1)" if "rt_parked (lf_states u ! st) = Some (run, y)" for run y
    using core_run_parked [OF \<open>core s1\<close>, of run] parked_fits [OF u(1) st] that \<open>lf_engine s1 = lf_engine u\<close> by auto
  then have 2: "core s2" "calm s1 s2" using \<open>core s1\<close> by (auto simp: s2_def split: option.splits)
  have "progress (lf_flows s ! i) (Purge who) u s1"
    unfolding s1_def by (rule progress_clear [OF b]) (auto simp: w(1) By_Reconnect f_def)
  then have "progress (lf_flows s ! i) (Purge who) s s1"
    using u by (simp add: progress_def)
  then have "progress (lf_flows s ! i) (Purge who) s s2" using 2(2) by (rule progress_then)
  moreover have "same_marks s1 s2" using same_marks_run by (auto simp: s2_def split: option.splits)
  then obtain ws where "lf_flows s2 = lf_flows u @ ws" by (auto simp: same_marks_def s1_def)
  moreover have "init_resolved i who u = check_retired i who s2"
    unfolding init_resolved_def By_Reconnect s2_def s1_def f_def Let_def by simp
  ultimately show ?thesis using i b 2 u(2) by (simp add: retirement_move(1))
qed

lemma set_rstate_twice: "st < length (lf_states s) \<Longrightarrow> set_rstate st f (set_rstate st g s) = set_rstate st (\<lambda>r. f (g r)) s"
  by (simp add: set_rstate_def)

lemma init_rejected_move:
  assumes ok: "core s" and i: "i < length (lf_flows s)" and b: "is_builder (lf_flows s ! i)"
    and w: "\<And>st. inits st (lf_flows s ! i) \<longleftrightarrow> who = By_Reconnect st" "\<And>st. who = By_Reconnect st \<Longrightarrow> st < length (lf_states s)"
    and u: "core u" "lf_flows u = lf_flows s" "lf_states u = lf_states s" "lf_engine u = lf_engine s \<or> lf_engine u = None" "lf_asked u = lf_asked s"
  shows "engine_move i s (init_rejected i who row r j u)"
proof (cases who)
  case By_Start
  have "calm s u" using u by (simp add: calm_def)
  moreover have "core (ask e (u\<lparr>lf_engine := None, lf_error := Some r\<rparr>))" if "lf_engine u = Some e" for e
  proof -
    have "core (evictAndForceDestroy e u)" using u(1) that by (simp add: core_evict)
    then show ?thesis by (simp add: evictAndForceDestroy_def core_def ask_def)
  qed
  moreover have "calm s (ask e (u\<lparr>lf_engine := None, lf_error := Some r\<rparr>))" for e
    using \<open>calm s u\<close> by (auto simp: calm_def ask_def)
  ultimately show ?thesis
    using i b u w(1) By_Start by (auto simp: init_rejected_def start_failed_def leave_start_def fits_def ask_def split: option.splits intro!: moves)
next
  case (By_Reconnect st)
  define v where "v = set_rstate st (\<lambda>r. r\<lparr>rt_inInit := False\<rparr>) u"
  define f :: "rstate \<Rightarrow> rstate" where "f = (\<lambda>r. r\<lparr>rt_inInit := False, rt_parked := None\<rparr>)"
  have st: "st < length (lf_states u)" using w(2) By_Reconnect u(3) by simp
  then have v: "set_rstate st (\<lambda>r. r\<lparr>rt_parked := None\<rparr>) v = set_rstate st f u" by (simp add: v_def set_rstate_twice f_def)
  have "core (set_rstate st f u)" by (rule core_clear [OF u(1)]) (simp add: f_def)
  moreover have "progress (lf_flows s ! i) (Ended (Failed_With r)) u (set_rstate st f u)"
    by (rule progress_clear [OF b]) (auto simp: w(1) By_Reconnect f_def)
  then have "progress (lf_flows s ! i) (Ended (Failed_With r)) s (set_rstate st f u)" using u b by (simp add: progress_def)
  moreover have "lf_engine v = None \<or> lf_engine v = Some e" if "rt_parked (lf_states v ! st) = Some (Run_Fail e x, y)" for e x y
    using parked_fits [OF u(1) st, of e x y] that st by (simp add: v_def set_rstate_def)
  ultimately have "engine_move i s (reconnect_failed i st row r j v)"
    using i u(2) by (intro reconnect_failed_move) (simp_all add: v v_def [symmetric], simp_all add: v_def)
  then show ?thesis by (simp add: init_rejected_def By_Reconnect v_def)
qed

lemma init_arms_move:
  assumes ok: "engines_ok s" and i: "i < length (lf_flows s)"
  shows "lf_flows s ! i = I_Write who e row \<Longrightarrow> engine_move i s (init_written i who e row a j s)"
    and "lf_flows s ! i = I_Init who e row \<Longrightarrow> engine_move i s (init_raced i who e row a j s)"
    and "lf_flows s ! i = I_Kill who e row \<Longrightarrow> engine_move i s (go i (I_Down who row) s)"
    and "lf_flows s ! i = I_Down who row \<Longrightarrow> engine_move i s (init_down i who row a j s)"
proof -
  note f = ok_flow [OF ok i]
  note ends = init_resolved_move [OF f(1) i] init_rejected_move [OF f(1) i]
  {
    assume p: "lf_flows s ! i = I_Write who e row"
    define s1 where "s1 = (if lf_pendingInitial s = Some (e, i) then s\<lparr>lf_pendingInitial := None\<rparr> else s)"
    have 1: "core s1" "calm s s1" "lf_flows s1 = lf_flows s" "lf_engine s1 = lf_engine s" "lf_asked s1 = lf_asked s" "lf_states s1 = lf_states s"
      using f(1) by (simp_all add: s1_def)
    have "engine_move i s (init_resolved i who (write_status SInitializing s1))"
      by (rule ends(1)) (use f(2) 1 p in \<open>simp_all add: fits_def\<close>)
    moreover have "engine_move i s (init_rejected i who row r j (s1\<lparr>lf_failedInit := m\<rparr>))" for r m
      by (rule ends(2)) (use f(2) 1 p in \<open>simp_all add: fits_def\<close>)
    moreover have "engine_move i s (go i (I_Init who e row) ((write_status SInitializing s1)\<lparr>lf_dirs := True\<rparr>))"
      using f(2) p i 1 by (intro move_go progress_calm) (simp_all add: fits_def)
    ultimately show "engine_move i s (init_written i who e row a j s)"
      unfolding init_written_def Let_def s1_def [symmetric] by simp
  next
    assume p: "lf_flows s ! i = I_Init who e row"
    have "engine_move i s (init_resolved i who (s\<lparr>lf_dirs := True\<rparr>))"
      by (rule ends(1)) (use f p in \<open>simp_all add: fits_def\<close>)
    moreover have "engine_move i s (init_rejected i who row r j (s\<lparr>lf_dirs := True\<rparr>))" for r
      by (rule ends(2)) (use f p in \<open>simp_all add: fits_def\<close>)
    moreover have "lf_engine s = None \<or> lf_engine s = Some e" using f(2) p by (simp add: fits_def)
    then have "core (evictAndForceDestroy e s)" using f(1) by (simp add: core_evict)
    then have "core (ask e (s\<lparr>lf_dirs := True, lf_error := Some Init_Timed_Out, lf_engine := None\<rparr>))"
      by (simp add: evictAndForceDestroy_def core_def ask_def)
    then have "engine_move i s (go i (I_Kill who e row) (ask e (s\<lparr>lf_dirs := True, lf_error := Some Init_Timed_Out, lf_engine := None\<rparr>)))"
      using f(2) p i by (intro move_go progress_calm) (auto simp: fits_def calm_def ask_def)
    ultimately show "engine_move i s (init_raced i who e row a j s)"
      by (cases a) (simp_all add: init_raced_def Let_def)
  next
    assume p: "lf_flows s ! i = I_Kill who e row"
    then show "engine_move i s (go i (I_Down who row) s)"
      using f i by (intro move_go progress_calm) (auto simp: fits_def)
  next
    assume p: "lf_flows s ! i = I_Down who row"
    have "engine_move i s (init_rejected i who row r j (write_status SDisconnected s))" and "engine_move i s (init_rejected i who row r j s)" for r
      by (rule ends(2); use f p in \<open>simp add: fits_def\<close>)+
    then show "engine_move i s (init_down i who row a j s)" by (simp add: init_down_def)
  }
qed

lemma reconnect_arms_move:
  assumes ok: "engines_ok s" and i: "i < length (lf_flows s)"
  shows "lf_flows s ! i = Retired who \<Longrightarrow> engine_move i s (retired_read i who a s)"
    and "lf_flows s ! i = Retire_Kill who e \<Longrightarrow> engine_move i s (go i (Purge who) (deleteIfLive e s))"
    and "lf_flows s ! i = Purge who \<Longrightarrow> engine_move i s (purgeAuthDirsIfDeleted i who a s)"
    and "lf_flows s ! i = R_Destroy st e row \<Longrightarrow> engine_move i s (reconnect_destroyed i st e row a s)"
    and "lf_flows s ! i = R_Force st e row \<Longrightarrow> engine_move i s (reconnect_forced i st e row s)"
    and "lf_flows s ! i = R_Fence st row ops \<Longrightarrow> fence_result ops a s \<noteq> Fence_Passes \<Longrightarrow> engine_move i s (reconnect_fence i st row ops a j s)"
proof -
  note f = ok_flow [OF ok i] engine_stays [OF ok i] i
  show "engine_move i s (retired_read i who a s)" if p: "lf_flows s ! i = Retired who"
  proof -
    have "engine_move i s (retire_now i who s)"
      by (rule retirement_move(2)) (use f p in \<open>auto intro!: progress_calm\<close>)
    then show ?thesis
      using f p by (auto simp: retired_read_def leave_start_def fits_def split: builder.splits intro!: moves)
  qed
  show "lf_flows s ! i = Retire_Kill who e \<Longrightarrow> engine_move i s (go i (Purge who) (deleteIfLive e s))"
    using f by (auto simp: fits_def intro!: moves)
  show "lf_flows s ! i = Purge who \<Longrightarrow> engine_move i s (purgeAuthDirsIfDeleted i who a s)"
    using f by (auto simp: purgeAuthDirsIfDeleted_def Let_def fits_def split: builder.splits intro!: moves)
  show "lf_flows s ! i = R_Destroy st e row \<Longrightarrow> engine_move i s (reconnect_destroyed i st e row a s)"
    using f by (auto simp: reconnect_destroyed_def Let_def fits_def intro!: moves)
  show "lf_flows s ! i = R_Force st e row \<Longrightarrow> engine_move i s (reconnect_forced i st e row s)"
    using f by (auto simp: reconnect_forced_def Let_def fits_def intro!: moves)
  show "engine_move i s (reconnect_fence i st row ops a j s)"
    if p: "lf_flows s ! i = R_Fence st row ops" and r: "fence_result ops a s \<noteq> Fence_Passes"
  proof -
    have st: "st < length (lf_states s)" using f(2) p by (simp add: fits_def)
    have "calm s (set_rstate st (\<lambda>r. r\<lparr>rt_parked := None\<rparr>) s)" by (rule set_rstate_calm) simp
    then have "engine_move i s (reconnect_failed i st row Fence_Closed j s)"
      using f(1) i p parked_fits [OF f(1) st]
      by (intro reconnect_failed_move core_set_rstate progress_calm) auto
    then show ?thesis using f(3) r by (cases "fence_result ops a s") (simp_all add: reconnect_fence_def)
  qed
qed

lemma disconnected_move:
  assumes ok: "engines_ok s" and i: "i < length (lf_flows s)" and p: "lf_flows s ! i = D_Row e x"
  shows "engine_move i s (disconnected_row i e x a j s)"
proof -
  note f = ok_flow [OF ok i]
  define v where "v = spawn (W_Status SDisconnected) (record_event (Ev_Disconnected x)
      (if x \<in> set terminal_unlink_reasons \<and> lf_owned s then spawn W_Phone s else s))"
  have stays: "engine_move i s (go i (Ended Done) s)" using f i p by (intro move_go progress_calm) simp_all
  have v: "core v" "calm s v" using f(1) by (simp_all add: v_def)
  obtain vs where vs: "lf_flows v = lf_flows s @ vs"
    by (cases "x \<in> set terminal_unlink_reasons \<and> lf_owned s") (auto simp: v_def spawn_def record_event_def)
  have "engine_move i s (scheduleReconnect j row (go i (Ended Done) v))" for row
  proof -
    obtain ws where "lf_flows (scheduleReconnect j row (go i (Ended Done) v)) = lf_flows (go i (Ended Done) v) @ ws"
      using same_marks_schedule [of "go i (Ended Done) v" j row] by (auto simp: same_marks_def)
    then show ?thesis
      using v vs i p by (intro ended_then [where u = v and z = Done and ws = ws] progress_calm core_schedule) simp_all
  qed
  then show ?thesis
    using stays by (auto simp: disconnected_row_def Let_def v_def split: answer.splits option.splits)
qed

lemma teardown_arms_move:
  assumes ok: "engines_ok s" and i: "i < length (lf_flows s)"
  shows "lf_flows s ! i = V_Initial v e row w \<Longrightarrow> engine_move i s (verb_initial i v e row w a s)"
    and "lf_flows s ! i = V_Teardown v e row m \<Longrightarrow> engine_move i s (verb_torn i v e row m a s)"
proof -
  note f = ok_flow [OF ok i] engine_stays [OF ok i] i
  show "engine_move i s (verb_initial i v e row w a s)" if p: "lf_flows s ! i = V_Initial v e row w"
  proof -
    have "engine_move i s (call_teardown i v e row s)"
      using f p by (auto simp: call_teardown_def fits_def intro!: moves)
    moreover have "engine_move i s (verb_failed i v e Db_Error s)"
      using f p by (auto simp: verb_failed_def leave_delete_def Let_def intro!: moves)
    ultimately show ?thesis using f(3) by (auto simp: verb_initial_def split: option.splits)
  qed
  show "lf_flows s ! i = V_Teardown v e row m \<Longrightarrow> engine_move i s (verb_torn i v e row m a s)"
    using f by (cases v) (auto simp: verb_torn_def Let_def fits_def intro!: moves)
qed

lemma resume_move:
  assumes ok: "engines_ok s" and one: "builders s \<le> 1" and i: "i < length (lf_flows s)"
  shows "engine_move i s (resume i (lf_flows s ! i) a h j s)"
proof -
  note f = ok_flow [OF ok i]
  have fence: "engine_move i s (reconnect_fence i st row ops a j s)" if "lf_flows s ! i = R_Fence st row ops" for st row ops
    using build_arms_move(2) [OF ok one i that] reconnect_arms_move(6) [OF ok i that] by blast
  have simple: "engine_move i s (go i (Ended Done) u)" if "core u" "calm s u" "lf_flows u = lf_flows s" "\<And>st. \<not> inits st (lf_flows s ! i)" for u
    using that i by (intro move_go progress_calm) simp_all
  show ?thesis
    using start_arms_move [OF ok i] build_arms_move(1) [OF ok one i] init_arms_move [OF ok i] reconnect_arms_move(1-5) [OF ok i]
      verb_arms_move [OF ok i] teardown_arms_move [OF ok i] disconnected_move [OF ok i] fence engine_stays [OF ok i] f
    by (cases "lf_flows s ! i") (auto intro!: simple move_go progress_calm simp: leave_delete_def Let_def fits_def i)
qed

section \<open>Every step\<close>

lemma background_fits: "background p \<Longrightarrow> fits p s" "background p \<Longrightarrow> \<not> is_builder p"
  by (cases p; simp add: background_def fits_def)+

lemma fits_mono:
  assumes "fits p s" and "set (lf_asked s) \<subseteq> set (lf_asked t)" and "length (lf_states s) \<le> length (lf_states t)"
    and "lf_engine t = lf_engine s \<or> lf_engine t = None \<or> \<not> is_builder p"
  shows "fits p t"
  using assms by (auto simp: fits_def)

lemma engines_okI:
  assumes "core t" and "\<And>k. k < length (lf_flows t) \<Longrightarrow> fits (lf_flows t ! k) t"
    and "\<And>st. st < length (lf_states t) \<Longrightarrow> rt_inInit (lf_states t ! st) \<Longrightarrow> \<exists>k < length (lf_flows t). inits st (lf_flows t ! k)"
  shows "engines_ok t"
proof -
  have "fits p t" if "p \<in> set (lf_flows t)" for p using that assms(2) by (metis in_set_conv_nth)
  moreover have "\<exists>p \<in> set (lf_flows t). inits st p" if "st < length (lf_states t)" "rt_inInit (lf_states t ! st)" for st
    using assms(3) [OF that] nth_mem by blast
  ultimately show ?thesis using assms(1) by (auto simp: engines_ok_def flows_fit_def fits_def)
qed

lemma inits_flow:
  assumes "engines_ok s" and "st < length (lf_states s)" and "rt_inInit (lf_states s ! st)"
  obtains k where "k < length (lf_flows s)" "inits st (lf_flows s ! k)"
proof -
  obtain p where "p \<in> set (lf_flows s)" "inits st p" using assms by (auto simp: engines_ok_def flows_fit_def)
  then show ?thesis using that by (metis in_set_conv_nth)
qed

lemma move_engines:
  assumes ok: "engines_ok s" and one: "builders s \<le> 1" and i: "i < length (lf_flows s)" and m: "engine_move i s t"
    and w: "lf_flows t = (lf_flows s)[i := p] @ ws" "list_all background ws"
  shows "engines_ok t"
proof (rule engines_okI)
  have pr: "progress (lf_flows s ! i) (lf_flows t ! i) s t" using m by (simp add: engine_move_def)
  have same: "lf_flows t ! k = lf_flows s ! k" "k < length (lf_flows t)" if "k < length (lf_flows s)" "k \<noteq> i" for k
    using that w by (simp_all add: nth_append)
  show "core t" using m by (simp add: engine_move_def)
  show "fits (lf_flows t ! k) t" if k: "k < length (lf_flows t)" for k
  proof (cases "k < length (lf_flows s)")
    case True
    show ?thesis
    proof (cases "k = i")
      case False
      have "\<not> (is_builder (lf_flows s ! i) \<and> is_builder (lf_flows s ! k))"
        using two_in_filter [where P = is_builder, OF True i False] one by (auto simp: builders_def)
      then show ?thesis
        using same [OF True False] fits_mono [OF ok_flow(2) [OF ok True], of t] pr by (auto simp: progress_def)
    qed (use m in \<open>simp add: engine_move_def\<close>)
  next
    case False
    then have "lf_flows t ! k \<in> set ws" using w k by (simp add: nth_append)
    then show ?thesis using w(2) by (intro background_fits) (simp add: list_all_iff)
  qed
  show "\<exists>k < length (lf_flows t). inits st (lf_flows t ! k)" if st: "st < length (lf_states t)" "rt_inInit (lf_states t ! st)" for st
  proof (cases "inits st (lf_flows t ! i)")
    case True
    moreover have "i < length (lf_flows t)" using i w by simp
    ultimately show ?thesis by blast
  next
    case False
    then have "st < length (lf_states s)" "rt_inInit (lf_states s ! st)" and n: "\<not> inits st (lf_flows s ! i)"
      using pr st by (auto simp: progress_def)
    then obtain k where k: "k < length (lf_flows s)" "inits st (lf_flows s ! k)" using inits_flow [OF ok] by blast
    then show ?thesis using same [OF k(1)] n by (cases "k = i") auto
  qed
qed

lemma spawn_engines:
  assumes ok: "engines_ok s" and t: "core t" "calm s t" "lf_flows t = lf_flows s @ ws" "list_all (\<lambda>p. fits p t) ws"
  shows "engines_ok t"
proof (rule engines_okI)
  have old: "fits p t" if "fits p s" for p
  proof (cases "lf_engine t = lf_engine s")
    case True
    then show ?thesis using t(2) by (intro fits_mono [OF that]) (simp_all add: calm_def)
  next
    case False
    then show ?thesis using t(2) by (intro fits_mono [OF that]) (auto simp: calm_def)
  qed
  show "fits (lf_flows t ! k) t" if "k < length (lf_flows t)" for k
    using that old ok_flow(2) [OF ok] t(3,4) by (auto simp: nth_append list_all_length)
  show "\<exists>k < length (lf_flows t). inits st (lf_flows t ! k)" if st: "st < length (lf_states t)" "rt_inInit (lf_states t ! st)" for st
  proof -
    have "st < length (lf_states s)" "rt_inInit (lf_states s ! st)" using st t(2) by (auto simp: calm_def)
    then obtain k where "k < length (lf_flows s)" "inits st (lf_flows s ! k)" using inits_flow [OF ok] by blast
    then show ?thesis using t(3) by (intro exI [of _ k]) (simp add: nth_append)
  qed
qed (rule t(1))

lemma park_engines:
  assumes "parkReconnectInitFailure run r s = (b, t)" and "core s" and "\<And>e x. run = Run_Fail e x \<Longrightarrow> lf_engine s = Some e"
  shows "core t" and "calm s t" and "lf_flows t = lf_flows s"
proof -
  let ?p = "\<lambda>st d. set_rstate st (\<lambda>r. r\<lparr>rt_parked := Some (run, d)\<rparr>) s"
  have "core (?p st d)" if st: "lf_reconnect s = Some st" "rt_inInit (lf_states s ! st)" for st d
  proof -
    have "rstate_fits (lf_engine s) ((lf_states s ! st)\<lparr>rt_parked := Some (run, d)\<rparr>)"
      using st(2) assms(3) by (simp add: rstate_fits_def)
    then have "\<forall>r \<in> set ((lf_states s)[st := (lf_states s ! st)\<lparr>rt_parked := Some (run, d)\<rparr>]). rstate_fits (lf_engine s) r"
      using assms(2) by (intro set_update_all) (simp_all add: core_def)
    then show ?thesis using assms(2) by (simp add: core_def set_rstate_def)
  qed
  moreover have "calm s (?p st d)" for st d by (rule set_rstate_calm) simp
  ultimately show "core t" "calm s t" "lf_flows t = lf_flows s"
    using assms(1,2) by (auto simp: parkReconnectInitFailure_def Let_def split: option.splits if_splits)
qed

lemma calm_engines:
  assumes "engines_ok s" and "core t" and "calm s t" and "same_marks s t"
  shows "engines_ok t"
proof -
  obtain ws where ws: "lf_flows t = lf_flows s @ ws" "list_all background ws" using assms(4) by (auto simp: same_marks_def)
  have "list_all (\<lambda>p. fits p t) ws" using ws(2) by (simp add: list_all_iff background_fits)
  then show ?thesis using spawn_engines [OF assms(1-3) ws(1)] by simp
qed

lemma ready_engines:
  assumes ok: "engines_ok s"
  shows "engines_ok (handleEngineReady e x s)"
proof (cases "isLiveEngine e s")
  case True
  define s1 where "s1 = record_event (Ev_Authenticated x) s"
  define s2 where "s2 = (case lf_reconnect s1 of
      Some st \<Rightarrow> set_rstate st (\<lambda>r. r\<lparr>rt_try := (rt_try r)\<lparr>ra_attempts := 0\<rparr>\<rparr>) s1 | None \<Rightarrow> s1)"
  have "core s1" "calm s s1" "lf_flows s1 = lf_flows s" using ok by (simp_all add: s1_def engines_ok_def)
  moreover have "calm s1 (set_rstate st (\<lambda>r. r\<lparr>rt_try := (rt_try r)\<lparr>ra_attempts := 0\<rparr>\<rparr>) s1)" for st by (rule set_rstate_calm) simp
  ultimately have "core s2" "calm s s2" "lf_flows s2 = lf_flows s"
    by (auto simp: s2_def split: option.splits intro: calm_trans core_set_rstate)
  then have "engines_ok (spawn (W_Ready x) (s2\<lparr>lf_error := None, lf_stuckUsed := False\<rparr>))"
    by (intro spawn_engines [OF ok, where ws = "[W_Ready x]"]) (simp_all add: spawn_def [of "W_Ready x"] fits_def del: then_calm, simp_all add: calm_def core_def)
  then show ?thesis using True unfolding handleEngineReady_def Let_def s2_def s1_def by simp
qed (use ok in \<open>simp add: handleEngineReady_def\<close>)

lemma rebind_engines:
  assumes ok: "engines_ok s"
  shows "engines_ok (rejectRebind e u x s)"
proof (cases "isLiveEngine e s")
  case True
  define s1 where "s1 = (cancelReconnect (s\<lparr>lf_stopping := True\<rparr>))\<lparr>lf_error := Some (Rebind_Rejected u x)\<rparr>"
  have s1: "core s1" "calm s s1" "lf_flows s1 = lf_flows s"
    using ok by (simp_all add: s1_def engines_ok_def)
  have "engines_ok (spawn (B_Logout e (lf_ops s1)) (trackPendingCredentialTeardown (ask e s1)))"
    using s1 by (intro spawn_engines [OF ok, where ws = "[B_Logout e (lf_ops s1)]"]) (simp_all add: fits_def, simp_all add: spawn_def ask_def)
  then show ?thesis using True by (simp add: rejectRebind_def Let_def s1_def)
qed (use ok in \<open>simp add: rejectRebind_def\<close>)

lemma error_engines:
  assumes ok: "engines_ok s" and live: "lf_engine s = Some e"
  shows "engines_ok (onError e x s)" and "engines_ok (onStateChanged e st s)"
proof -
  define s1 where "s1 = s\<lparr>lf_error := Some (Engine_Reason x)\<rparr>"
  have s1: "core s1" "calm s s1" "lf_flows s1 = lf_flows s" "lf_engine s1 = Some e" using ok live by (simp_all add: s1_def engines_ok_def)
  have "core (onError e x s)" "calm s (onError e x s)"
    using park_engines [of "Run_Fail e (Engine_Reason x)" _ s1] core_run_parked [of s1 "Run_Fail e (Engine_Reason x)"] s1 calm_trans [OF s1(2)]
    unfolding onError_def Let_def s1_def [symmetric] by (auto split: prod.splits bool.splits)
  then show "engines_ok (onError e x s)" using callback_same_marks calm_engines [OF ok] by blast
  have "core (onStateChanged e st s)" "calm s (onStateChanged e st s)"
    using park_engines [of Run_Persist_Failed _ s] ok
    unfolding onStateChanged_def by (auto simp: engines_ok_def split: prod.splits bool.splits)
  then show "engines_ok (onStateChanged e st s)" using callback_same_marks calm_engines [OF ok] by blast
qed

lemma callback_engines:
  assumes ok: "engines_ok s"
  shows "engines_ok (callback_step e c s)"
proof -
  have c: "core s" using ok by (simp add: engines_ok_def)
  have error: "engines_ok (record_event x (s\<lparr>lf_error := r\<rparr>))" "engines_ok (trackPendingCredentialTeardown s)" for r x
    using c by (auto intro!: calm_engines [OF ok] simp: same_marks_def)
  have disc: "engines_ok (spawn (D_Row e x) s)" for x
    using c by (intro spawn_engines [OF ok, where ws = "[D_Row e x]"]) (simp_all add: fits_def, simp add: spawn_def)
  have qr: "engines_ok (onQRCode s)"
    using c by (intro calm_engines [OF ok] callback_same_marks) (auto simp: onQRCode_def Let_def split: option.splits life_reason.splits)
  have re: "engines_ok (onReconnecting n s)" for n
    using c by (intro calm_engines [OF ok] callback_same_marks) (auto simp: onReconnecting_def Let_def)
  have claim: "engines_ok (claimStuckAuthRecovery e s)"
    using c by (intro calm_engines [OF ok] callback_same_marks) (auto simp: claimStuckAuthRecovery_def)
  show ?thesis
    using ok error disc qr re claim ready_engines [OF ok] rebind_engines [OF ok] error_engines [OF ok]
    by (cases c) (auto simp: onReady_def isLiveEngine_def split: option.splits)
qed

lemma timer_engines:
  assumes ok: "engines_ok s"
  shows "engines_ok (timer_fires st s)"
proof -
  define s1 where "s1 = set_rstate st (\<lambda>r. r\<lparr>rt_timer := Fired\<rparr>) s"
  have c: "core s" using ok by (simp add: engines_ok_def)
  have "calm s s1" unfolding s1_def by (rule set_rstate_calm) simp
  moreover have "core s1" unfolding s1_def by (rule core_set_rstate [OF c]) simp_all
  moreover have "lf_flows s1 = lf_flows s" by (simp add: s1_def)
  ultimately have s1: "calm s s1" "core s1" "lf_flows s1 = lf_flows s" by blast+
  have still: "engines_ok s1" "engines_ok (cancelReconnect s1)"
    using s1 by (auto intro!: spawn_engines [OF ok, where ws = "[]"])
  have used: "engines_ok (spawn (R_Destroy st e row) (ask e s1))" if "st < length (lf_states s)" "lf_engine s1 = Some e" for e row
    using s1 that by (intro spawn_engines [OF ok, where ws = "[R_Destroy st e row]"])
      (simp_all add: fits_def, simp_all add: spawn_def ask_def s1_def)
  have without: "engines_ok (spawn (R_Fence st row ops) s1)" if "st < length (lf_states s)" "lf_engine s1 = None" for row ops
    using s1 that by (intro spawn_engines [OF ok, where ws = "[R_Fence st row ops]"])
      (simp_all add: fits_def, simp_all add: spawn_def s1_def)
  show ?thesis using ok still used without
    unfolding timer_fires_def Let_def s1_def [symmetric] by (auto split: option.splits)
qed

lemma step_engines:
  assumes ok: "engines_ok s" and one: "builders s \<le> 1" and pend: "pending_ok s" and e: "e \<noteq> Shutdown"
  shows "engines_ok (life_exec e s)"
proof -
  have c: "core s" using ok by (simp add: engines_ok_def)
  have resumes: "engines_ok (resume i (lf_flows s ! i) a h j s)" if i: "i < length (lf_flows s)" for i a h j
  proof -
    obtain p where "fair_move i p s (resume i (lf_flows s ! i) a h j s)" using resume_fair [OF pend i] by blast
    then obtain ws where "lf_flows (resume i (lf_flows s ! i) a h j s) = (lf_flows s)[i := p] @ ws" "list_all background ws"
      by (auto simp: fair_move_def)
    then show ?thesis using move_engines [OF ok one i resume_move [OF ok one i]] by blast
  qed
  have start: "engines_ok (call_start s)"
  proof (cases "lf_initializing s")
    case True
    then show ?thesis using c by (intro spawn_engines [OF ok, where ws = "[Ended Already_Starting]"]) (simp_all add: call_start_def, simp_all add: spawn_def)
  next
    case False
    then show ?thesis using c by (intro spawn_engines [OF ok, where ws = "[S_Row]"]) (simp_all add: call_start_def fits_def, simp_all add: spawn_def)
  qed
  have verb: "engines_ok (call_verb v s)" for v
    using c by (intro spawn_engines [OF ok, where ws = "[if v = Stop \<or> v = Delete then V_Owner v else V_Row v]"])
      (simp_all add: call_verb_def fits_def, simp_all add: spawn_def)
  have orphan: "engines_ok (stop_orphan s)"
  proof -
    define s1 where "s1 = cancelReconnect (s\<lparr>lf_stopping := True\<rparr>)"
    have s1: "core s1" "calm s s1" "lf_flows s1 = lf_flows s" using c by (simp_all add: s1_def)
    have "engines_ok (spawn (O_Destroy d) (ask d s1))" for d
      using s1 by (intro spawn_engines [OF ok, where ws = "[O_Destroy d]"]) (simp_all add: fits_def, simp_all add: spawn_def ask_def)
    moreover have "engines_ok s1" using s1 by (intro spawn_engines [OF ok, where ws = "[]"]) simp_all
    ultimately show ?thesis by (simp add: stop_orphan_def s1_def [symmetric] split: option.splits)
  qed
  have rest: "engines_ok (settle_teardown k s)" "engines_ok (s\<lparr>lf_owned := b\<rparr>)" "engines_ok (s\<lparr>lf_shutting := True\<rparr>)" "engines_ok (s\<lparr>lf_others := n\<rparr>)" for k b n
    using c by (auto intro!: spawn_engines [OF ok, where ws = "[]"])
  show ?thesis
    using ok e resumes start verb orphan rest callback_engines [OF ok] timer_engines [OF ok] by (cases e) auto
qed

text \<open>The engines of a run in which at most one flow builds an engine at a time.\<close>

lemma run_engines:
  assumes "\<forall>n \<le> length es. builders (life_run (take n es) (fresh_life row cap)) \<le> 1" and "Shutdown \<notin> set es"
  shows "engines_ok (life_run es (fresh_life row cap))"
  using assms
proof (induction es rule: rev_induct)
  case Nil
  then show ?case by (simp add: life_run_def engines_ok_def core_def flows_fit_def fresh_life_def)
next
  case (snoc e es)
  have "builders (life_run (take n es) (fresh_life row cap)) \<le> 1" if "n \<le> length es" for n
    using snoc.prems(1) [rule_format, of n] that by simp
  then have "engines_ok (life_run es (fresh_life row cap))" "builders (life_run es (fresh_life row cap)) \<le> 1"
    using snoc.IH snoc.prems(2) by (auto simp del: One_nat_def dest: meta_spec [of _ "length es"])
  moreover have "e \<noteq> Shutdown" using snoc.prems(2) by auto
  ultimately have "engines_ok (life_exec e (life_run es (fresh_life row cap)))"
    using step_engines run_marks [of es row cap] by (simp add: marks_ok_def)
  then show ?case by (simp add: life_run_def)
qed

text \<open>C7. As long as one flow at a time builds an engine, no engine is left running outside the registry:
  every engine that was made and is not the registered one has been told to go down, whatever calls,
  callbacks, timers, failures and deadlines came in between.\<close>

theorem no_engine_is_orphaned:
  assumes "\<forall>n \<le> length es. builders (life_run (take n es) (fresh_life row cap)) \<le> 1" and "Shutdown \<notin> set es"
    and "e < lf_made (life_run es (fresh_life row cap))"
  shows "lf_engine (life_run es (fresh_life row cap)) = Some e \<or> e \<in> set (lf_asked (life_run es (fresh_life row cap)))"
  using run_engines [OF assms(1,2)] assms(3) by (auto simp: engines_ok_def core_def)

definition failing_run :: "life_step list" where
  "failing_run = started_run @ [Callback 0 (On_Error ''session closed'')]"

theorem no_engine_is_orphaned_witness:
  "lf_engine (life_run failing_run (fresh_life sample_session None)) = Some 0 \<or> 0 \<in> set (lf_asked (life_run failing_run (fresh_life sample_session None)))"
proof (rule no_engine_is_orphaned)
  have "list_all (\<lambda>n. builders (life_run (take n failing_run) (fresh_life sample_session None)) \<le> 1) [0..<Suc (length failing_run)]"
    by code_simp
  then show "\<forall>n \<le> length failing_run. builders (life_run (take n failing_run) (fresh_life sample_session None)) \<le> 1"
    by (simp add: list_all_iff less_Suc_eq_le del: upt_Suc)
  show "Shutdown \<notin> set failing_run" by (simp add: failing_run_def started_run_def go_on_def)
  show "0 < lf_made (life_run failing_run (fresh_life sample_session None))" by code_simp
qed

end
