(* ===== verification/Session_Stop.thy ===== *)
theory Session_Stop
  imports Session_Engines
begin

text \<open>
  A session that was told to stop stays down. While the stop mark is set and an engine is registered,
  some flow is about to unregister that engine; the two exceptions of the code are recorded in the state
  of Session_State: a delete or stop that is refused leaves its mark on a session that runs on, and a
  first status write that fails makes the verb that waits for it fail too.
\<close>

section \<open>Who is going to unregister the engine\<close>

fun guards :: "nat \<Rightarrow> pc \<Rightarrow> bool" where
  "guards e (V_Owner v) = (v = Stop \<or> v = Delete)"
| "guards e (V_Row v) = (v = Stop \<or> v = Delete)"
| "guards e (X_Fence _ _) = True"
| "guards e (V_Initial _ d _ _) = (d = e)"
| "guards e (V_Teardown _ d _ _) = (d = e)"
| "guards e (V_Escalate d) = (d = e)"
| "guards e (B_Logout d _) = (d = e)"
| "guards e (O_Destroy d) = (d = e)"
| "guards e (I_Write _ d _) = (d = e)"
| "guards e (Retire_Kill _ d) = (d = e)"
| "guards e p = False"

definition clean :: "life \<Rightarrow> bool" where
  "clean s \<longleftrightarrow> \<not> lf_refused s \<and> lf_failedInit s = []"

definition guarded :: "life \<Rightarrow> bool" where
  "guarded s \<longleftrightarrow> (clean s \<longrightarrow> lf_stopping s \<longrightarrow> (\<forall>e. lf_engine s = Some e \<longrightarrow> (\<exists>p \<in> set (lf_flows s). guards e p)))"

definition guard_move :: "nat \<Rightarrow> life \<Rightarrow> life \<Rightarrow> bool" where
  "guard_move i s t \<longleftrightarrow>
     (clean t \<longrightarrow> clean s)
     \<and> (clean t \<longrightarrow> lf_stopping t \<longrightarrow> (\<forall>e. lf_engine t = Some e \<longrightarrow>
          guards e (lf_flows t ! i) \<or> lf_stopping s \<and> lf_engine s = Some e \<and> \<not> guards e (lf_flows s ! i)))"

text \<open>A flow that guards nothing and only makes ordinary steps keeps the others' guards.\<close>

definition idle :: "pc \<Rightarrow> bool" where
  "idle p \<longleftrightarrow> (\<forall>e. \<not> guards e p)"

lemma guard_idle:
  assumes "idle (lf_flows s ! i)" and "lf_stopping t \<Longrightarrow> lf_stopping s" and "lf_engine t = lf_engine s \<or> lf_engine t = None"
    and "clean t \<Longrightarrow> clean s"
  shows "guard_move i s t"
  using assms by (auto simp: guard_move_def idle_def)

lemma idle_simps [simp]: "idle p \<longleftrightarrow> (case p of V_Owner v \<Rightarrow> v \<noteq> Stop \<and> v \<noteq> Delete | V_Row v \<Rightarrow> v \<noteq> Stop \<and> v \<noteq> Delete | X_Fence _ _ \<Rightarrow> False
    | V_Initial _ _ _ _ \<Rightarrow> False | V_Teardown _ _ _ _ \<Rightarrow> False | V_Escalate _ \<Rightarrow> False | B_Logout _ _ \<Rightarrow> False | O_Destroy _ \<Rightarrow> False
    | I_Write _ _ _ \<Rightarrow> False | Retire_Kill _ _ \<Rightarrow> False | _ \<Rightarrow> True)"
  by (cases p) (auto simp: idle_def)

lemma stopping_simps [simp]:
  "lf_stopping (persistStatus x s) = lf_stopping s" "lf_stopping (spawn p s) = lf_stopping s" "lf_refused (spawn p s) = lf_refused s"
  "lf_failedInit (spawn p s) = lf_failedInit s"
  using same_marks_persist [of s x] by (simp_all add: same_marks_def spawn_def)

lemma helper_clean [simp]:
  "clean (s\<lparr>lf_stopping := b\<rparr>) = clean s" "clean (s\<lparr>lf_initializing := b\<rparr>) = clean s" "clean (s\<lparr>lf_operator := x\<rparr>) = clean s"
  "clean (s\<lparr>lf_row := r\<rparr>) = clean s" "clean (s\<lparr>lf_dirs := b\<rparr>) = clean s" "clean (s\<lparr>lf_error := z\<rparr>) = clean s"
  "clean (s\<lparr>lf_pendingInitial := y\<rparr>) = clean s" "clean (s\<lparr>lf_dispatched := v\<rparr>) = clean s" "clean (s\<lparr>lf_stuckUsed := b\<rparr>) = clean s"
  "clean (s\<lparr>lf_engine := m\<rparr>) = clean s" "clean (go i p s) = clean s" "clean (spawn p s) = clean s" "clean (clear_operator e s) = clean s"
  "\<not> clean (s\<lparr>lf_refused := True\<rparr>)"
  by (simp_all add: clean_def)

lemma untouched_clean: "untouched s t \<Longrightarrow> clean t = clean s"
  by (simp add: untouched_def clean_def)

lemmas helpers_clean [simp] = untouched_helpers [THEN untouched_clean]

lemma marks_clean: "same_marks s t \<Longrightarrow> clean t = clean s" "same_marks s t \<Longrightarrow> lf_stopping t = lf_stopping s"
  by (simp_all add: same_marks_def clean_def)

section \<open>One resumption\<close>

lemma start_arms_guard:
  assumes i: "i < length (lf_flows s)"
  shows "lf_flows s ! i = S_Row \<Longrightarrow> guard_move i s (start_row i a s)"
    and "lf_flows s ! i = S_Fence row ops \<Longrightarrow> guard_move i s (start_fence i row ops a s)"
    and "lf_flows s ! i = S_CatchKill r \<Longrightarrow> guard_move i s (start_catch_killed i r s)"
    and "lf_flows s ! i = S_CatchWrite r \<Longrightarrow> guard_move i s (start_catch_written i r a s)"
    and "lf_flows s ! i = S_Final \<Longrightarrow> guard_move i s (start_final i a s)"
  by (auto simp: start_arms split: option.splits fence.splits intro!: guard_idle)

lemma build_arms_guard:
  assumes i: "i < length (lf_flows s)"
  shows "lf_flows s ! i = S_Hook row \<Longrightarrow> guard_move i s (start_hook i row s)"
    and "guard_move i s (initializeEngine i who row (set_rstate st f s))"
proof -
  show "guard_move i s (start_hook i row s)"
    using i by (cases "resolveReconnectConfig (sr_config row)") (simp add: start_hook_def initializeEngine_def Let_def guard_move_def clean_def)
  show "guard_move i s (initializeEngine i who row (set_rstate st f s))"
    using i by (simp add: initializeEngine_def Let_def guard_move_def clean_def)
qed

lemma verb_arms_guard:
  assumes i: "i < length (lf_flows s)"
  shows "lf_flows s ! i = V_Owner v \<Longrightarrow> guard_move i s (verb_owner i v a h s)"
    and "lf_flows s ! i = V_Row v \<Longrightarrow> guard_move i s (verb_row i v a s)"
    and "lf_flows s ! i = V_Escalate e \<Longrightarrow> guard_move i s (stop_escalated i e a s)"
    and "lf_flows s ! i = V_Incomplete e \<Longrightarrow> guard_move i s (stop_incomplete i e a s)"
    and "lf_flows s ! i = V_Write v e u \<Longrightarrow> guard_move i s (verb_written i v e u a s)"
    and "lf_flows s ! i = Stop_Write \<Longrightarrow> guard_move i s (stop_written i a s)"
    and "lf_flows s ! i = L_Phone u \<Longrightarrow> guard_move i s (logout_phone i u a s)"
    and "lf_flows s ! i = V_Final \<Longrightarrow> guard_move i s (verb_final i a s)"
    and "lf_flows s ! i = X_Fence row ops \<Longrightarrow> guard_move i s (delete_fence i row ops a s)"
    and "lf_flows s ! i = X_Fence2 u row ops \<Longrightarrow> guard_move i s (delete_fence2 i u row ops a s)"
    and "lf_flows s ! i = X_Refused \<Longrightarrow> guard_move i s (delete_refused i a s)"
    and "lf_flows s ! i = X_Remove \<Longrightarrow> guard_move i s (delete_removed i a s)"
    and "lf_flows s ! i = B_Logout e k \<Longrightarrow> guard_move i s (rebind_logged_out i e k a s)"
    and "lf_flows s ! i = V_Initial v e row w \<Longrightarrow> guard_move i s (verb_initial i v e row w a s)"
    and "lf_flows s ! i = V_Teardown v e row m \<Longrightarrow> guard_move i s (verb_torn i v e row m a s)"
proof -
  note d = guard_move_def leave_delete_def Let_def
  show "lf_flows s ! i = V_Owner v \<Longrightarrow> guard_move i s (verb_owner i v a h s)"
    using i by (auto simp: verb_owner_def d)
  show "lf_flows s ! i = V_Row v \<Longrightarrow> guard_move i s (verb_row i v a s)"
    using i by (cases v) (auto simp: verb_row_def begin_teardown_def d split: answer.splits option.splits)
  show "lf_flows s ! i = V_Escalate e \<Longrightarrow> guard_move i s (stop_escalated i e a s)"
    using i by (auto simp: stop_escalated_def d)
  show "lf_flows s ! i = V_Incomplete e \<Longrightarrow> guard_move i s (stop_incomplete i e a s)"
    using i by (auto simp: stop_incomplete_def d)
  show "lf_flows s ! i = V_Write v e u \<Longrightarrow> guard_move i s (verb_written i v e u a s)"
    using i by (auto simp: verb_written_def d)
  show "lf_flows s ! i = Stop_Write \<Longrightarrow> guard_move i s (stop_written i a s)"
    using i by (auto simp: stop_written_def d)
  show "lf_flows s ! i = L_Phone u \<Longrightarrow> guard_move i s (logout_phone i u a s)"
    using i by (auto simp: logout_phone_def d)
  show "lf_flows s ! i = V_Final \<Longrightarrow> guard_move i s (verb_final i a s)"
    using i by (auto simp: verb_final_def d)
  show "lf_flows s ! i = X_Fence row ops \<Longrightarrow> guard_move i s (delete_fence i row ops a s)"
    using i by (auto simp: delete_fence_def begin_teardown_def d split: option.splits fence.splits)
  show "lf_flows s ! i = X_Fence2 u row ops \<Longrightarrow> guard_move i s (delete_fence2 i u row ops a s)"
    using i by (auto simp: delete_fence2_def d split: fence.splits)
  show "lf_flows s ! i = X_Refused \<Longrightarrow> guard_move i s (delete_refused i a s)"
    using i by (auto simp: delete_refused_def d)
  show "lf_flows s ! i = X_Remove \<Longrightarrow> guard_move i s (delete_removed i a s)"
    using i by (auto simp: delete_removed_def d)
  show "lf_flows s ! i = B_Logout e k \<Longrightarrow> guard_move i s (rebind_logged_out i e k a s)"
    using i by (auto simp: rebind_logged_out_def d isLiveEngine_def)
  show "guard_move i s (verb_initial i v e row w a s)" if "lf_flows s ! i = V_Initial v e row w"
  proof -
    have "guard_move i s (call_teardown i v e row s)" using i that by (auto simp: call_teardown_def d)
    then show ?thesis using i that by (auto simp: verb_initial_def verb_failed_def d clean_def split: option.splits)
  qed
  show "lf_flows s ! i = V_Teardown v e row m \<Longrightarrow> guard_move i s (verb_torn i v e row m a s)"
    using i by (cases v) (auto simp: verb_torn_def d)
qed

lemma evict_engine [simp]: "lf_engine (evictAndForceDestroy e s) = None"
  by (simp add: evictAndForceDestroy_def ask_def)

lemma run_engine: "lf_engine (run_parked p s) = lf_engine s \<or> lf_engine (run_parked p s) = None"
  by (cases p) (simp_all add: run_parked_def)

lemma schedule_engine: "lf_engine (scheduleReconnect j row s) = lf_engine s \<or> lf_engine (scheduleReconnect j row s) = None"
  by (auto simp: scheduleReconnect_def Let_def split: option.splits prod.splits reconnect_decision.splits)

lemma reconnect_failed_engine: "lf_engine (reconnect_failed i st row r j s) = lf_engine s \<or> lf_engine (reconnect_failed i st row r j s) = None"
proof -
  define s1 where "s1 = go i (Ended (Failed_With r)) (set_rstate st (\<lambda>r. r\<lparr>rt_parked := None\<rparr>) s)"
  define s2 where "s2 = (case lf_engine s1 of Some e \<Rightarrow> evictAndForceDestroy e s1 | None \<Rightarrow> s1)"
  define retry where "retry = (if lf_stopping s2 then cancelReconnect s2 else scheduleReconnect j row s2)"
  have "lf_engine s2 = None" by (simp add: s2_def split: option.splits)
  then have "lf_engine retry = None" using schedule_engine [of j row s2] by (auto simp: retry_def)
  moreover have "lf_engine s1 = lf_engine s" by (simp add: s1_def)
  moreover have "reconnect_failed i st row r j s = (if lf_reconnect s1 \<noteq> Some st then s1 else case rt_parked (lf_states s ! st) of
      Some (run, terminal) \<Rightarrow> if terminal \<or> known_terminal r then run_parked run s1 else retry | None \<Rightarrow> retry)"
    unfolding reconnect_failed_def Let_def s1_def s2_def retry_def by (simp only:)
  ultimately show ?thesis using run_engine [of _ s1] by (auto split: option.splits)
qed

text \<open>Whoever leaves \<open>initializeEngine\<close> of a session that is being stopped takes the registered engine down.\<close>

lemma check_retired_guard:
  assumes "clean u = clean s" and "i < length (lf_flows u)"
  shows "guard_move i s (check_retired i who u)" and "lf_stopping u \<Longrightarrow> guard_move i s (retire_now i who u)"
  using assms by (auto simp: check_retired_def retire_now_def guard_move_def split: option.splits)

lemma init_resolved_guard:
  assumes u: "clean u = clean s" "i < length (lf_flows u)"
  shows "guard_move i s (init_resolved i who u)"
proof (cases who)
  case By_Start
  then show ?thesis using check_retired_guard(1) [OF u] by (simp add: init_resolved_def)
next
  case (By_Reconnect st)
  define s1 where "s1 = set_rstate st (\<lambda>r. r\<lparr>rt_inInit := False, rt_parked := None\<rparr>) u"
  define s2 where "s2 = (case rt_parked (lf_states u ! st) of
      Some (run, _) \<Rightarrow> if lf_reconnect s1 = Some st then run_parked run s1 else s1 | None \<Rightarrow> s1)"
  have "same_marks s1 s2" using same_marks_run by (auto simp: s2_def split: option.splits)
  moreover have "same_marks u s1" unfolding s1_def by (rule same_marks_untouched) simp
  ultimately have "same_marks u s2" using same_marks_trans by blast
  then have "clean s2 = clean s" "i < length (lf_flows s2)" using u marks_clean(1) by (auto simp: same_marks_def)
  moreover have "init_resolved i who u = check_retired i who s2"
    unfolding init_resolved_def By_Reconnect s2_def s1_def Let_def by simp
  ultimately show ?thesis using check_retired_guard(1) by simp
qed

lemma init_rejected_clean [simp]: "clean (init_rejected i who row r j u) = clean u"
proof (cases who)
  case By_Start
  then show ?thesis by (cases "lf_engine u") (simp_all add: init_rejected_def start_failed_def leave_start_def)
next
  case (By_Reconnect st)
  then show ?thesis
    using marks_clean(1) [OF reconnect_failed_marks [of i r "set_rstate st (\<lambda>r. r\<lparr>rt_inInit := False\<rparr>) u" st row j]]
    by (simp add: init_rejected_def)
qed

lemma init_rejected_guard:
  assumes "idle (lf_flows s ! i)" and u: "clean u = clean s" "lf_stopping u = lf_stopping s" "lf_engine u = lf_engine s \<or> lf_engine u = None"
  shows "guard_move i s (init_rejected i who row r j u)"
proof (cases who)
  case By_Start
  have "lf_engine (start_failed i r u) = None"
    by (cases "lf_engine u") (simp_all add: start_failed_def leave_start_def)
  then show ?thesis
    using init_rejected_clean [of i who row r j u] u(1) By_Start by (simp add: init_rejected_def guard_move_def)
next
  case (By_Reconnect st)
  define v where "v = set_rstate st (\<lambda>r. r\<lparr>rt_inInit := False\<rparr>) u"
  have "lf_engine (reconnect_failed i st row r j v) = lf_engine s \<or> lf_engine (reconnect_failed i st row r j v) = None"
    using reconnect_failed_engine [of i st row r j v] u(3) by (auto simp: v_def)
  moreover have "clean (reconnect_failed i st row r j v) = clean s" "lf_stopping (reconnect_failed i st row r j v) = lf_stopping s"
    using marks_clean [OF reconnect_failed_marks [of i r v st row j]] u by (simp_all add: v_def)
  ultimately show ?thesis
    unfolding init_rejected_def By_Reconnect builder.case v_def [symmetric] by (intro guard_idle [OF assms(1)]) simp_all
qed

lemma init_arms_guard:
  assumes i: "i < length (lf_flows s)"
  shows "lf_flows s ! i = I_Write who e row \<Longrightarrow> guard_move i s (init_written i who e row a j s)"
    and "lf_flows s ! i = I_Init who e row \<Longrightarrow> guard_move i s (init_raced i who e row a j s)"
    and "lf_flows s ! i = I_Down who row \<Longrightarrow> guard_move i s (init_down i who row a j s)"
proof -
  {
    assume p: "lf_flows s ! i = I_Write who e row"
    define s1 where "s1 = (if lf_pendingInitial s = Some (e, i) then s\<lparr>lf_pendingInitial := None\<rparr> else s)"
    have 1: "clean s1 = clean s" "lf_flows s1 = lf_flows s" "lf_stopping s1 = lf_stopping s" "lf_refused s1 = lf_refused s" "lf_failedInit s1 = lf_failedInit s"
      by (simp_all add: s1_def)
    have "guard_move i s (init_resolved i who (write_status SInitializing s1))"
      by (rule init_resolved_guard) (use 1 i in simp_all)
    moreover have "guard_move i s (go i (I_Init who e row) ((write_status SInitializing s1)\<lparr>lf_dirs := True\<rparr>))" if "\<not> lf_stopping s1"
      using 1 i that by (simp add: guard_move_def)
    moreover have "\<not> clean (init_rejected i who row r j (s1\<lparr>lf_failedInit := lf_failedInit s1 @ [i]\<rparr>))" for r
      by simp (simp add: clean_def)
    ultimately show "guard_move i s (init_written i who e row a j s)"
      unfolding init_written_def Let_def s1_def [symmetric] by (auto simp: guard_move_def)
  next
    assume p: "lf_flows s ! i = I_Init who e row"
    have "guard_move i s (init_resolved i who (s\<lparr>lf_dirs := True\<rparr>))" by (rule init_resolved_guard) (use i in simp_all)
    moreover have "guard_move i s (init_rejected i who row r j (s\<lparr>lf_dirs := True\<rparr>))" for r
      by (rule init_rejected_guard) (use p in simp_all)
    moreover have "guard_move i s (go i (I_Kill who e row) (ask e (s\<lparr>lf_dirs := True, lf_error := Some Init_Timed_Out, lf_engine := None\<rparr>)))"
      by (simp add: guard_move_def)
    ultimately show "guard_move i s (init_raced i who e row a j s)"
      by (cases a) (simp_all add: init_raced_def Let_def)
  next
    assume p: "lf_flows s ! i = I_Down who row"
    have "guard_move i s (init_rejected i who row r j (write_status SDisconnected s))" and "guard_move i s (init_rejected i who row r j s)" for r
      by (rule init_rejected_guard; use p in simp)+
    then show "guard_move i s (init_down i who row a j s)" by (simp add: init_down_def)
  }
qed

lemma reconnect_arms_guard:
  assumes i: "i < length (lf_flows s)"
  shows "lf_flows s ! i = Retired who \<Longrightarrow> guard_move i s (retired_read i who a s)"
    and "lf_flows s ! i = Retire_Kill who e \<Longrightarrow> guard_move i s (go i (Purge who) (deleteIfLive e s))"
    and "lf_flows s ! i = Purge who \<Longrightarrow> guard_move i s (purgeAuthDirsIfDeleted i who a s)"
    and "lf_flows s ! i = R_Destroy st e row \<Longrightarrow> guard_move i s (reconnect_destroyed i st e row a s)"
    and "lf_flows s ! i = R_Force st e row \<Longrightarrow> guard_move i s (reconnect_forced i st e row s)"
    and "lf_flows s ! i = R_Fence st row ops \<Longrightarrow> guard_move i s (reconnect_fence i st row ops a j s)"
    and "lf_flows s ! i = D_Row e x \<Longrightarrow> guard_move i s (disconnected_row i e x a j s)"
proof -
  show "guard_move i s (retired_read i who a s)" if "lf_flows s ! i = Retired who"
  proof -
    have "guard_move i s (retire_now i who s)"
      using i by (auto simp: retire_now_def guard_move_def split: option.splits)
    then show ?thesis
      using i that by (auto simp: retired_read_def leave_start_def guard_move_def split: builder.splits)
  qed
  show "lf_flows s ! i = Retire_Kill who e \<Longrightarrow> guard_move i s (go i (Purge who) (deleteIfLive e s))"
    using i by (auto simp: guard_move_def)
  show "lf_flows s ! i = Purge who \<Longrightarrow> guard_move i s (purgeAuthDirsIfDeleted i who a s)"
    by (auto simp: purgeAuthDirsIfDeleted_def Let_def split: builder.splits intro!: guard_idle)
  show "lf_flows s ! i = R_Destroy st e row \<Longrightarrow> guard_move i s (reconnect_destroyed i st e row a s)"
    by (auto simp: reconnect_destroyed_def Let_def intro!: guard_idle split: if_splits)
  show "lf_flows s ! i = R_Force st e row \<Longrightarrow> guard_move i s (reconnect_forced i st e row s)"
    by (auto simp: reconnect_forced_def Let_def intro!: guard_idle split: if_splits)
  show "guard_move i s (reconnect_fence i st row ops a j s)" if p: "lf_flows s ! i = R_Fence st row ops"
  proof -
    have "guard_move i s (reconnect_failed i st row Fence_Closed j s)"
      using reconnect_failed_engine [of i st row Fence_Closed j s] marks_clean [OF reconnect_failed_marks [of i Fence_Closed s st row j]] p
      by (intro guard_idle) simp_all
    moreover have "guard_move i s s" using p by (intro guard_idle) simp_all
    ultimately show ?thesis using build_arms_guard(2) [OF i] by (simp add: reconnect_fence_def split: fence.splits)
  qed
  show "guard_move i s (disconnected_row i e x a j s)" if p: "lf_flows s ! i = D_Row e x"
  proof -
    have "guard_move i s (scheduleReconnect j row (go i (Ended Done) v))" if "clean v = clean s" "lf_stopping v = lf_stopping s" "lf_engine v = lf_engine s" for row v
      using schedule_engine [of j row "go i (Ended Done) v"] marks_clean [OF same_marks_schedule [of "go i (Ended Done) v" j row]] p that
      by (intro guard_idle) simp_all
    moreover have "guard_move i s (go i (Ended Done) s)" using p by (intro guard_idle) simp_all
    ultimately show ?thesis by (auto simp: disconnected_row_def Let_def split: answer.splits option.splits)
  qed
qed

lemma resume_guard:
  assumes i: "i < length (lf_flows s)"
  shows "guard_move i s (resume i (lf_flows s ! i) a h j s)"
proof -
  have simple: "guard_move i s (go i q u)" if "clean u = clean s" "lf_stopping u \<longrightarrow> lf_stopping s" "lf_engine u = lf_engine s \<or> lf_engine u = None" "idle (lf_flows s ! i)" for q u
    using that by (intro guard_idle) simp_all
  show ?thesis
    using start_arms_guard [OF i] build_arms_guard(1) [OF i] init_arms_guard [OF i] reconnect_arms_guard [OF i] verb_arms_guard [OF i]
    by (cases "lf_flows s ! i") (auto intro!: simple guard_idle [of s i s] simp: leave_delete_def Let_def guard_move_def [of i s "go i (Ended Done) (deleteIfLive _ s)"] i)
qed

section \<open>Every step\<close>

lemma move_guarded:
  assumes ok: "guarded s" and i: "i < length (lf_flows s)" and m: "guard_move i s t" and w: "lf_flows t = (lf_flows s)[i := p] @ ws"
  shows "guarded t"
  unfolding guarded_def
proof (intro impI allI)
  fix e assume c: "clean t" and st: "lf_stopping t" and e: "lf_engine t = Some e"
  have len: "i < length (lf_flows t)" using i w by simp
  consider (self) "guards e (lf_flows t ! i)" | (other) "lf_stopping s" "lf_engine s = Some e" "\<not> guards e (lf_flows s ! i)"
    using m c st e by (auto simp: guard_move_def)
  then show "\<exists>p \<in> set (lf_flows t). guards e p"
  proof cases
    case self
    then show ?thesis using len nth_mem by blast
  next
    case other
    have "clean s" using m c by (simp add: guard_move_def)
    then obtain q where "q \<in> set (lf_flows s)" "guards e q" using ok other by (auto simp: guarded_def)
    then obtain k where k: "k < length (lf_flows s)" "guards e (lf_flows s ! k)" by (metis in_set_conv_nth)
    have "k \<noteq> i" using k(2) other(3) by auto
    then have "lf_flows t ! k = lf_flows s ! k" "k < length (lf_flows t)" using k(1) w by (simp_all add: nth_append)
    then show ?thesis using k(2) nth_mem by metis
  qed
qed

text \<open>A call or callback that sets the mark adds the flow that guards the registered engine.\<close>

lemma spawn_guarded:
  assumes "guarded s" and "lf_flows t = lf_flows s @ ws" and "clean t \<Longrightarrow> clean s"
    and "\<And>e. clean t \<Longrightarrow> lf_stopping t \<Longrightarrow> lf_engine t = Some e \<Longrightarrow> lf_stopping s \<and> lf_engine s = Some e \<or> (\<exists>p \<in> set ws. guards e p)"
  shows "guarded t"
  using assms unfolding guarded_def by fastforce

lemma quiet_guarded:
  assumes "guarded s" and "same_marks s t" and "lf_engine t = lf_engine s \<or> lf_engine t = None"
  shows "guarded t"
  unfolding guarded_def
proof (intro impI allI)
  fix e assume "clean t" "lf_stopping t" "lf_engine t = Some e"
  then have "clean s" "lf_stopping s" "lf_engine s = Some e" using assms(3) marks_clean [OF assms(2)] by auto
  then obtain p where "p \<in> set (lf_flows s)" "guards e p" using assms(1) by (auto simp: guarded_def)
  moreover obtain ws where "lf_flows t = lf_flows s @ ws" using assms(2) by (auto simp: same_marks_def)
  ultimately show "\<exists>p \<in> set (lf_flows t). guards e p" by auto
qed

lemma rebind_guarded:
  assumes ok: "guarded s"
  shows "guarded (rejectRebind e u x s)"
proof (cases "isLiveEngine e s")
  case True
  define s1 where "s1 = (cancelReconnect (s\<lparr>lf_stopping := True\<rparr>))\<lparr>lf_error := Some (Rebind_Rejected u x)\<rparr>"
  define t where "t = trackPendingCredentialTeardown (ask e s1)"
  have "clean s1 = clean s" by (simp add: s1_def)
  then have "clean t = clean s" by (simp add: t_def)
  moreover have "lf_flows t = lf_flows s" "lf_engine t = lf_engine s" by (simp_all add: t_def s1_def)
  ultimately have "guarded (spawn (B_Logout e (lf_ops s1)) t)"
    using True by (intro spawn_guarded [OF ok, where ws = "[B_Logout e (lf_ops s1)]"]) (simp_all add: isLiveEngine_def, simp add: spawn_def)
  then show ?thesis using True unfolding rejectRebind_def Let_def s1_def t_def by simp
qed (use ok in \<open>simp add: rejectRebind_def\<close>)

lemma callback_guarded:
  assumes ok: "guarded s"
  shows "guarded (callback_step e c s)"
proof -
  have ready: "guarded (handleEngineReady e x s)" for x
  proof (rule quiet_guarded [OF ok])
    show "same_marks s (handleEngineReady e x s)"
      by (simp add: handleEngineReady_def Let_def spawn_def same_marks_def background_def split: option.splits)
    show "lf_engine (handleEngineReady e x s) = lf_engine s \<or> lf_engine (handleEngineReady e x s) = None"
      by (simp add: handleEngineReady_def Let_def spawn_def split: option.splits)
  qed
  note rebind = rebind_guarded [OF ok]
  have disc: "guarded (spawn (D_Row e x) s)" for x
    by (rule spawn_guarded [OF ok, where ws = "[D_Row e x]"]) (simp_all add: spawn_def clean_def)
  have error: "guarded (record_event x (s\<lparr>lf_error := r\<rparr>))" "guarded (trackPendingCredentialTeardown s)" for r x
    by (rule quiet_guarded [OF ok]; simp add: same_marks_def)+
  have parked: "lf_engine t = lf_engine s'" if "parkReconnectInitFailure run y s' = (b, t)" for run y b t s'
    using that by (auto simp: parkReconnectInitFailure_def Let_def split: option.splits if_splits)
  have "lf_engine (onError e x s) = lf_engine s \<or> lf_engine (onError e x s) = None" for x
    using run_engine [of "Run_Fail e (Engine_Reason x)" "s\<lparr>lf_error := Some (Engine_Reason x)\<rparr>"]
    by (auto simp: onError_def Let_def dest: parked split: prod.splits bool.splits)
  then have err: "guarded (onError e x s)" for x using quiet_guarded [OF ok callback_same_marks(4)] by blast
  have "lf_engine (onStateChanged e st s) = lf_engine s" for st
    by (auto simp: onStateChanged_def dest: parked split: prod.splits bool.splits)
  then have state: "guarded (onStateChanged e st s)" for st using quiet_guarded [OF ok callback_same_marks(3)] by blast
  have "lf_engine (onQRCode s) = lf_engine s"
    by (simp add: onQRCode_def Let_def split: option.splits life_reason.splits)
  then have qr: "guarded (onQRCode s)" using quiet_guarded [OF ok callback_same_marks(1)] by blast
  have "lf_engine (onReconnecting n s) = lf_engine s" for n by (simp add: onReconnecting_def Let_def)
  then have re: "guarded (onReconnecting n s)" for n using quiet_guarded [OF ok callback_same_marks(2)] by blast
  have "lf_engine (claimStuckAuthRecovery e s) = lf_engine s" by (simp add: claimStuckAuthRecovery_def)
  then have claim: "guarded (claimStuckAuthRecovery e s)" using quiet_guarded [OF ok callback_same_marks(5)] by blast
  show ?thesis
    using ok ready rebind disc error err state qr re claim by (cases c) (auto simp: onReady_def split: option.splits)
qed

lemma step_guarded:
  assumes ok: "guarded s" and pend: "pending_ok s"
  shows "guarded (life_exec e s)"
proof -
  have resumes: "guarded (resume i (lf_flows s ! i) a h j s)" if i: "i < length (lf_flows s)" for i a h j
  proof -
    obtain p where "fair_move i p s (resume i (lf_flows s ! i) a h j s)" using resume_fair [OF pend i] by blast
    then show ?thesis using move_guarded [OF ok i resume_guard [OF i]] by (auto simp: fair_move_def)
  qed
  have start: "guarded (call_start s)"
    by (cases "lf_initializing s"; rule spawn_guarded [OF ok, where ws = "[if lf_initializing s then Ended Already_Starting else S_Row]"])
      (simp_all add: call_start_def, simp_all add: spawn_def)
  have verb: "guarded (call_verb v s)" for v
    by (cases "v = Stop \<or> v = Delete"; rule spawn_guarded [OF ok, where ws = "[if v = Stop \<or> v = Delete then V_Owner v else V_Row v]"])
      (auto simp: call_verb_def, simp_all add: spawn_def)
  have orphan: "guarded (stop_orphan s)"
  proof (cases "lf_engine s")
    case None
    then show ?thesis
      by (intro spawn_guarded [OF ok, where ws = "[]"]) (simp_all add: stop_orphan_def Let_def)
  next
    case (Some d)
    then have "stop_orphan s = spawn (O_Destroy d) (ask d (cancelReconnect (s\<lparr>lf_stopping := True\<rparr>)))"
      by (simp add: stop_orphan_def Let_def)
    then show ?thesis
      using Some by (intro spawn_guarded [OF ok, where ws = "[O_Destroy d]"]) (simp_all, simp add: spawn_def)
  qed
  have down: "guarded (call_shutdown s)"
  proof -
    have "lf_flows (call_shutdown s) = lf_flows s @ [Q_Destroy]" "clean (call_shutdown s) = clean s"
      "lf_engine (call_shutdown s) = lf_engine s" "lf_stopping (call_shutdown s) = lf_stopping s"
      by (simp_all add: call_shutdown_def Let_def split: option.splits) (simp_all add: spawn_def split: option.splits)
    then show ?thesis by (intro spawn_guarded [OF ok, where ws = "[Q_Destroy]"]) simp_all
  qed
  have timer: "guarded (timer_fires st s)" for st
  proof -
    define s1 where "s1 = set_rstate st (\<lambda>r. r\<lparr>rt_timer := Fired\<rparr>) s"
    have s1: "lf_flows s1 = lf_flows s" "clean s1 = clean s" "lf_engine s1 = lf_engine s" "lf_stopping s1 = lf_stopping s" by (simp_all add: s1_def)
    have "guarded s1" "guarded (cancelReconnect s1)"
      using s1 by (auto intro!: spawn_guarded [OF ok, where ws = "[]"])
    moreover have "guarded (spawn (R_Destroy st d row) (ask d s1))" for d row
      using s1 by (intro spawn_guarded [OF ok, where ws = "[R_Destroy st d row]"]) (simp_all, simp add: spawn_def)
    moreover have "guarded (spawn (R_Fence st row ops) s1)" for row ops
      using s1 by (intro spawn_guarded [OF ok, where ws = "[R_Fence st row ops]"]) (simp_all, simp add: spawn_def)
    ultimately show ?thesis
      using ok unfolding timer_fires_def Let_def s1_def [symmetric] by (auto split: option.splits)
  qed
  have rest: "guarded (settle_teardown k s)" "guarded (s\<lparr>lf_owned := b\<rparr>)" "guarded (s\<lparr>lf_shutting := True\<rparr>)" "guarded (s\<lparr>lf_others := n\<rparr>)" for k b n
    by (rule quiet_guarded [OF ok]; simp add: same_marks_def)+
  show ?thesis using ok resumes start verb orphan down timer rest callback_guarded [OF ok] by (cases e) auto
qed

lemma run_guarded: "guarded (life_run es (fresh_life row cap))"
proof (induction es rule: rev_induct)
  case Nil
  show ?case by (simp add: life_run_def guarded_def fresh_life_def)
next
  case (snoc e es)
  then show ?case
    using step_guarded [of "life_run es (fresh_life row cap)" e] run_marks [of es row cap] by (simp add: life_run_def marks_ok_def)
qed

text \<open>C6. A session that was told to stop is down once nothing is in flight: no engine is registered, and
  no timer that is still armed brings one back, whatever starts, reconnects, callbacks and deadlines ran
  into the stop. The exceptions are a refused stop or delete, and a stop that met a failing first write.\<close>

theorem stopped_session_stays_down:
  assumes "s = life_run es (fresh_life row cap)" and "\<forall>p \<in> set (lf_flows s). \<exists>r. p = Ended r"
    and "lf_stopping s" and "\<not> lf_refused s" and "lf_failedInit s = []"
  shows "lf_engine s = None \<and> lf_engine (timer_fires st s) = None \<and> lf_flows (timer_fires st s) = lf_flows s"
proof -
  have "\<not> guards e p" if "p \<in> set (lf_flows s)" for e p using assms(2) that by auto
  then have down: "lf_engine s = None"
    using run_guarded [of es row cap] assms by (cases "lf_engine s") (auto simp: guarded_def clean_def)
  then show ?thesis using assms(3) by (auto simp: timer_fires_def Let_def)
qed

theorem stopped_session_stays_down_witness:
  "lf_engine (life_run stop_run (fresh_life sample_session None)) = None"
proof -
  define s where "s = life_run stop_run (fresh_life sample_session None)"
  have "lf_flows s = [Ended Done] \<and> lf_stopping s \<and> \<not> lf_refused s \<and> lf_failedInit s = []"
    unfolding s_def by code_simp
  then show ?thesis
    using stopped_session_stays_down [of s stop_run sample_session None 0] by (simp add: s_def)
qed

end
