(* ===== verification/Session_Races.thy ===== *)
theory Session_Races
  imports Session_Safety
begin

text \<open>
  What the interleavings the code leaves open lead to, each as an explicit run of the machine of
  Session_Lifecycle from a session that was just created; \<open>go_on\<close> resumes a flow whose awaits resolve.
\<close>

definition deadline_run :: "life_step list" where
  "deadline_run = Call_Start # go_on 4 0 @ [Callback 0 (On_Disconnected ''NAVIGATION'')] @ go_on 1 1 @ [Timer 0] @ go_on 5 3
     @ [Resume 0 Deadline False 0] @ go_on 2 0"

text \<open>A start that runs into its deadline after its engine had already been replaced removes the
  replacement from the registry: a reconnect has brought the session back with engine 1, which is never
  told to go down; every call has ended and the node no longer knows that it runs.\<close>

theorem deadline_drops_the_replacement:
  "let s = life_run deadline_run (fresh_life sample_session None)
   in lf_flows s ! 3 = Ended Done \<and> lf_engine s = None \<and> 1 < lf_made s \<and> 1 \<notin> set (lf_asked s)
     \<and> map_option sr_status (lf_row s) = Some SDisconnected"
  by code_simp

definition overlap_run :: "life_step list" where
  "overlap_run = started_run @ [Callback 0 On_Teardown_Started, Callback 0 (On_Disconnected ''LOGOUT'')] @ go_on 1 1 @ [Timer 0] @ go_on 1 4
     @ [Call_Start] @ go_on 1 5 @ [Settles 0] @ go_on 1 5 @ go_on 2 4 @ go_on 1 5 @ go_on 2 4 @ go_on 4 5"

text \<open>A reconnect and a start that wait for the same credential teardown both go on when it has
  settled: the reconnect initialises engine 1, the start registers engine 2 over it, and nobody tells
  engine 1 to go down.\<close>

theorem overlapping_start_orphans_engine:
  "let s = life_run overlap_run (fresh_life sample_session None)
   in lf_flows s ! 4 = Ended Done \<and> lf_flows s ! 5 = Ended Done \<and> lf_engine s = Some 2 \<and> 1 \<notin> set (lf_asked s)"
  by code_simp

definition refused_delete_run :: "life_step list" where
  "refused_delete_run = started_run @ [Callback 0 On_Teardown_Started, Call Delete] @ go_on 2 1 @ [Resume 1 Deadline False 0, Settles 0,
     Callback 0 (On_Disconnected ''NAVIGATION'')] @ go_on 1 2 @ [Timer 0]"

text \<open>A delete that is refused because a credential teardown is pending leaves the stop mark of the
  running session behind: its next disconnect is the end of it, the armed reconnect is cancelled.\<close>

theorem refused_delete_stops_reconnects:
  "let s = life_run refused_delete_run (fresh_life sample_session None)
   in lf_flows s ! 1 = Ended Teardown_Pending \<and> lf_engine s = Some 0 \<and> 0 \<notin> set (lf_asked s) \<and> lf_reconnect s = None \<and> lf_stopping s"
  by code_simp

definition deleted_start_run :: "life_step list" where
  "deleted_start_run = started_run @ [Call Delete] @ go_on 5 1 @ [Call_Start] @ go_on 7 2 @ go_on 4 1"


definition failed_write_run :: "life_step list" where
  "failed_write_run = started_run @ [Callback 0 (On_Disconnected ''NAVIGATION'')] @ go_on 1 1 @ [Timer 0] @ go_on 2 3
     @ [Call Stop] @ go_on 2 4 @ [Resume 3 (Rejects Db_Error) False 0] @ go_on 1 4"

text \<open>A stop that waits for the first status write of a reconnect fails with it when the write
  fails, and the reconnect, whose state the stop has replaced, leaves the engine it had made
  registered and never initialised.\<close>

theorem failed_write_leaves_engine:
  "let s = life_run failed_write_run (fresh_life sample_session None)
   in lf_flows s ! 3 = Ended (Failed_With Db_Error) \<and> lf_flows s ! 4 = Ended (Failed_With Db_Error) \<and> lf_engine s = Some 1 \<and> 1 \<notin> set (lf_asked s)"
  by code_simp

end
