(* ===== verification/Idempotency.thy ===== *)
theory Idempotency
  imports Json
begin

text \<open>
  The idempotency keys of webhook events (src/src/modules/webhook/utils/idempotency.util.ts): the
  receiver, the outbox and the failure table recognise a repeated delivery by this key, so two
  occurrences that are news must not share it and the retries of one occurrence must. The digest of
  sha256, as hexadecimal digits, is the parameter \<open>sha\<close>.
\<close>

section \<open>Building a key\<close>

definition toStr :: "jsval \<Rightarrow> string \<Rightarrow> string" where
  "toStr v fallback =
     (case v of JStr s \<Rightarrow> s | JNum n \<Rightarrow> show_int n | JBool b \<Rightarrow> (if b then ''true'' else ''false'') | _ \<Rightarrow> fallback)"

text \<open>\<open>JSON.stringify\<close> with the sorted member names as its allowlist.\<close>

definition hashData :: "(string \<Rightarrow> string) \<Rightarrow> payload \<Rightarrow> string" where
  "hashData sha d =
     take 12 (sha (case json_val (Some (sort (map fst d))) (JObj d) of Some t \<Rightarrow> t | None \<Rightarrow> ''undefined''))"

text \<open>The operator \<open>??\<close>.\<close>

definition nullish_or :: "jsval \<Rightarrow> jsval \<Rightarrow> jsval" where
  "nullish_or v w = (if v = JNull \<or> v = JUndefined then w else v)"

abbreviation fld :: "payload \<Rightarrow> string \<Rightarrow> string" where
  "fld d k \<equiv> toStr (field_of d k) ''unknown''"

definition message_id :: "payload \<Rightarrow> string" where
  "message_id d = toStr (nullish_or (field_of d ''id'') (field_of d ''messageId'')) ''unknown''"

definition ack_status :: "payload \<Rightarrow> string" where
  "ack_status d = toStr (nullish_or (field_of d ''status'') (field_of d ''ack'')) ''0''"

definition dots_to_underscores :: "string \<Rightarrow> string" where
  "dots_to_underscores s = map (\<lambda>c. if c = CHR ''.'' then CHR ''_'' else c) s"

definition generateIdempotencyKey :: "(string \<Rightarrow> string) \<Rightarrow> string \<Rightarrow> payload \<Rightarrow> string option \<Rightarrow> string" where
  "generateIdempotencyKey sha event d occurredAt =
     (let occurrence = (case occurredAt of Some t \<Rightarrow> if t = [] then [] else CHR ''_'' # t | None \<Rightarrow> []);
          S = fld d ''sessionId'';
          participants = hashData sha [(''participants'', field_of d ''participantIds'')]
      in if event = ''message.received'' \<or> event = ''message.sent'' then ''msg_'' @ S @ ''_'' @ message_id d
      else if event = ''message.ack'' then ''ack_'' @ S @ ''_'' @ message_id d @ ''_'' @ ack_status d
      else if event = ''message.failed'' then ''failed_'' @ S @ ''_'' @ message_id d @ ''_'' @ ack_status d
      else if event = ''message.revoked'' then ''rev_'' @ S @ ''_'' @ message_id d
      else if event = ''message.edited'' then ''edit_'' @ S @ ''_'' @ fld d ''messageId'' @ occurrence
      else if event = ''message.reaction'' then
        ''react_'' @ S @ ''_'' @ fld d ''messageId'' @ ''_'' @ fld d ''senderId'' @ occurrence
      else if event = ''session.status'' then ''sess_'' @ S @ ''_'' @ fld d ''status'' @ occurrence
      else if event = ''session.qr'' then ''qr_'' @ S @ ''_'' @ hashData sha [(''qr'', field_of d ''qr'')]
      else if event = ''session.authenticated'' then ''auth_'' @ S @ ''_'' @ hashData sha d @ occurrence
      else if event = ''session.disconnected'' then
        ''disc_'' @ S @ ''_'' @ hashData sha [(''reason'', field_of d ''reason'')] @ occurrence
      else if event = ''session.reconnect_loop'' then ''loop_'' @ S @ ''_'' @ fld d ''attempts'' @ occurrence
      else if event = ''session.restriction'' then
        ''restr_'' @ S @ ''_'' @ fld d ''kind'' @ ''_'' @ fld d ''active'' @ occurrence
      else if event = ''call.accepted'' \<or> event = ''call.rejected'' \<or> event = ''call.missed'' then
        ''call_'' @ S @ ''_'' @ fld d ''callId'' @ ''_'' @ fld d ''outcome''
      else if event = ''presence.update'' then ''pres_'' @ S @ ''_'' @ fld d ''chatId'' @ occurrence
      else if event = ''group.join'' then ''grp_'' @ fld d ''groupId'' @ ''_'' @ participants @ ''_join'' @ occurrence
      else if event = ''group.leave'' then ''grp_'' @ fld d ''groupId'' @ ''_'' @ participants @ ''_leave'' @ occurrence
      else if event = ''group.join_request'' then
        ''grp_'' @ fld d ''groupId'' @ ''_'' @ participants @ ''_join_request'' @ occurrence
      else if event = ''group.update'' then
        ''grp_'' @ fld d ''groupId'' @ ''_update_''
          @ hashData sha [(''changes'', JStr (stringify (nullish_or (field_of d ''changes'') JNull)))] @ occurrence
      else if event = ''call.received'' then ''call_'' @ S @ ''_'' @ fld d ''callId''
      else ''evt_'' @ dots_to_underscores event @ ''_'' @ hashData sha d)"

section \<open>Which occurrences share a key\<close>

text \<open>The events that can recur with the same content.\<close>

definition recurring :: "string list" where
  "recurring = [''message.edited'', ''message.reaction'', ''session.status'', ''session.authenticated'', ''session.disconnected'',
     ''session.reconnect_loop'', ''session.restriction'', ''presence.update'', ''group.join'', ''group.leave'',
     ''group.join_request'', ''group.update'']"

text \<open>Every recurring key ends in the time of the occurrence, and no other key mentions it.\<close>

lemma recurring_suffix:
  assumes "event \<in> set recurring"
  obtains p where "\<And>t. t \<noteq> [] \<Longrightarrow> generateIdempotencyKey sha event d (Some t) = p @ CHR ''_'' # t"
  using assms unfolding recurring_def by (auto simp: generateIdempotencyKey_def Let_def)

lemma stable_ignores_time:
  assumes "event \<notin> set recurring"
  shows "generateIdempotencyKey sha event d t = generateIdempotencyKey sha event d t'"
  using assms unfolding recurring_def generateIdempotencyKey_def Let_def by simp

text \<open>Two occurrences of recurring events, whatever happened in them, never share a key: the key
  ends in the time of the dispatch, and the times have one length.\<close>

theorem occurrences_have_their_own_keys:
  assumes "event \<in> set recurring" and "event' \<in> set recurring" and "length t = length t'" and "t \<noteq> []"
    and "generateIdempotencyKey sha event d (Some t) = generateIdempotencyKey sha event' d' (Some t')"
  shows "t = t'"
proof -
  obtain p where p: "generateIdempotencyKey sha event d (Some t) = p @ CHR ''_'' # t"
    using recurring_suffix [OF assms(1)] assms(4) by metis
  have "t' \<noteq> []" using assms(3,4) by auto
  then obtain q where q: "generateIdempotencyKey sha event' d' (Some t') = q @ CHR ''_'' # t'"
    using recurring_suffix [OF assms(2)] by metis
  have "drop (length p) (p @ CHR ''_'' # t) = drop (length p) (q @ CHR ''_'' # t')" using p q assms(5) by simp
  moreover have "length p = length q" using arg_cong [OF assms(5), of length] p q assms(3) by simp
  ultimately show ?thesis by simp
qed

theorem occurrences_have_their_own_keys_witness:
  "generateIdempotencyKey (\<lambda>s. s) ''session.status'' [(''sessionId'', JStr ''s1''), (''status'', JStr ''ready'')] (Some ''2026-01-01T00:00:00.000Z'')
   \<noteq> generateIdempotencyKey (\<lambda>s. s) ''session.status'' [(''sessionId'', JStr ''s1''), (''status'', JStr ''ready'')] (Some ''2026-01-01T00:00:01.000Z'')"
  using occurrences_have_their_own_keys [of "''session.status''" "''session.status''" "''2026-01-01T00:00:00.000Z''" "''2026-01-01T00:00:01.000Z''"]
  by (auto simp: recurring_def)

text \<open>The events of a message that are recognised by what they are about.\<close>

datatype message_event = Received | Sent | Revoked | Acked string | Unsent string

definition event_name :: "message_event \<Rightarrow> string" where
  "event_name k = (case k of Received \<Rightarrow> ''message.received'' | Sent \<Rightarrow> ''message.sent'' | Revoked \<Rightarrow> ''message.revoked''
     | Acked _ \<Rightarrow> ''message.ack'' | Unsent _ \<Rightarrow> ''message.failed'')"

definition message_payload :: "message_event \<Rightarrow> string \<Rightarrow> string \<Rightarrow> payload" where
  "message_payload k session mid =
     [(''sessionId'', JStr session), (''id'', JStr mid)]
       @ (case k of Acked st \<Rightarrow> [(''status'', JStr st)] | Unsent st \<Rightarrow> [(''status'', JStr st)] | _ \<Rightarrow> [])"

lemma message_keys:
  "generateIdempotencyKey sha (event_name k) (message_payload k session mid) t =
     (case k of
        Revoked \<Rightarrow> ''rev'' | Acked _ \<Rightarrow> ''ack'' | Unsent _ \<Rightarrow> ''failed'' | _ \<Rightarrow> ''msg'')
     @ CHR ''_'' # session @ CHR ''_'' # mid @ (case k of Acked st \<Rightarrow> CHR ''_'' # st | Unsent st \<Rightarrow> CHR ''_'' # st | _ \<Rightarrow> [])"
  by (cases k) (simp_all add: generateIdempotencyKey_def event_name_def message_payload_def Let_def message_id_def ack_status_def
      nullish_or_def field_of_def toStr_def)

definition state_text :: "message_event \<Rightarrow> string" where
  "state_text k = (case k of Acked st \<Rightarrow> st | Unsent st \<Rightarrow> st | _ \<Rightarrow> [])"



end
