(* ===== verification/Ingress_Verify.thy ===== *)
theory Ingress_Verify
  imports Body_Budget Json
begin

text \<open>
  Who may deliver to a plugin: the signature of an inbound webhook
  (src/src/modules/integration/ingress-signature.ts). HMAC, the decoding of base64 and the keyed
  digest of the constant-time comparison belong to the platform; they are the fields of
  \<open>node_crypto\<close>. Header names arrive in lower case. A header is read from an object, so a name it
  does not have is absent.
\<close>

section \<open>What a route declares and what a delivery carries\<close>

datatype signature_scheme = HmacSha256 | SharedSecret | StandardWebhooks | NoScheme
datatype digest_encoding = Hex | Base64
datatype hmac_key = TextKey string | ByteKey string

record signature_spec =
  scheme :: signature_scheme
  header_name :: "string option"
  contentTemplate :: "string option"
  encoding :: "digest_encoding option"
  sig_prefix :: "string option"
  timestampHeader :: "string option"
  toleranceSec :: "jsnum option"
  sig_dedupHeader :: "string option"

record verify_input =
  vi_rawBody :: string
  vi_headers :: "(string, string) jsmap"
  vi_secret :: string
  vi_now :: millis
  vi_instanceId :: string

record node_crypto =
  eq_digest :: "string \<Rightarrow> string"
  hmac :: "digest_encoding \<Rightarrow> hmac_key \<Rightarrow> string \<Rightarrow> string"
  from_base64 :: "string \<Rightarrow> string"

section \<open>Reading the request\<close>

definition resolveIngressTimestampToleranceSec :: "string option \<Rightarrow> int" where
  "resolveIngressTimestampToleranceSec raw =
     (let n = (case raw of Some s \<Rightarrow> js_Number s | None \<Rightarrow> NaN)
      in if num_is_integer n \<and> num_le 1 n then num_floor n else 300)"

definition header :: "(string, string) jsmap \<Rightarrow> string option \<Rightarrow> string option" where
  "header hs name = (case name of None \<Rightarrow> None | Some n \<Rightarrow> if n = [] then None else jm_get hs (js_lower n))"

definition truthy_str :: "string option \<Rightarrow> bool" where
  "truthy_str v = (case v of Some s \<Rightarrow> s \<noteq> [] | None \<Rightarrow> False)"

definition parseWebhookSecret :: "string \<Rightarrow> string option" where
  "parseWebhookSecret secret =
     (let s = js_trim secret;
          s = (if starts_with ''v1,'' s then drop 3 s else s);
          s = (if starts_with ''whsec_'' s then drop 6 s else s)
      in if s = [] then None else Some s)"

definition safeEqualStr :: "node_crypto \<Rightarrow> string \<Rightarrow> string \<Rightarrow> bool" where
  "safeEqualStr C a b = (eq_digest C a = eq_digest C b)"

text \<open>\<open>Math.abs(now / 1000 - ts) > tolerance\<close>, with the milliseconds kept: the tolerance \<open>m * 10 ^ e\<close>
  seconds is \<open>m * 10 ^ (e + 3)\<close> of them. Nothing exceeds \<open>NaN\<close>.\<close>

fun skew_beyond :: "millis \<Rightarrow> int \<Rightarrow> jsnum \<Rightarrow> bool" where
  "skew_beyond now ts NaN = False"
| "skew_beyond now ts (Inf neg) = neg"
| "skew_beyond now ts (Dec m e) = (\<not> num_le \<bar>now - 1000 * ts\<bar> (Dec m (e + 3)))"

definition tolerance_of :: "signature_spec \<Rightarrow> string option \<Rightarrow> jsnum" where
  "tolerance_of spec env =
     (case toleranceSec spec of Some t \<Rightarrow> t | None \<Rightarrow> Dec (resolveIngressTimestampToleranceSec env) 0)"

section \<open>The signed content\<close>

text \<open>\<open>template.replace\<close> with the three tokens and a function: one pass from the left, and what is
  inserted is not scanned again.\<close>

fun fill_template :: "string \<Rightarrow> string \<Rightarrow> string \<Rightarrow> string \<Rightarrow> string" where
  "fill_template [] rawBody ts i = []"
| "fill_template (c # cs) rawBody ts i =
     (if starts_with ''{rawBody}'' (c # cs) then rawBody @ fill_template (drop 8 cs) rawBody ts i
      else if starts_with ''{timestamp}'' (c # cs) then ts @ fill_template (drop 10 cs) rawBody ts i
      else if starts_with ''{id}'' (c # cs) then i @ fill_template (drop 3 cs) rawBody ts i
      else c # fill_template cs rawBody ts i)"

definition webhook_content :: "string \<Rightarrow> string \<Rightarrow> string \<Rightarrow> string" where
  "webhook_content i ts rawBody = i @ CHR ''.'' # ts @ CHR ''.'' # rawBody"

text \<open>The signature of one \<open>v1\<close> candidate of the list in the header.\<close>

definition candidate_signature :: "string \<Rightarrow> string option" where
  "candidate_signature cand =
     (case index_of CHR '','' cand of
        None \<Rightarrow> None
      | Some comma \<Rightarrow> if take comma cand = ''v1'' then Some (drop (Suc comma) cand) else None)"

section \<open>The verdict\<close>

text \<open>\<open>None\<close> for \<open>ok: true\<close>, otherwise the reason.\<close>

definition verifyStandardWebhooks :: "node_crypto \<Rightarrow> string option \<Rightarrow> signature_spec \<Rightarrow> verify_input \<Rightarrow> string option" where
  "verifyStandardWebhooks C env spec inp =
     (case parseWebhookSecret (vi_secret inp) of
        None \<Rightarrow> Some ''empty standard-webhooks secret''
      | Some keyB64 \<Rightarrow>
          let key = from_base64 C keyB64;
              i = header (vi_headers inp) (Some ''webhook-id'');
              tsRaw = header (vi_headers inp) (Some ''webhook-timestamp'');
              sigHeader = header (vi_headers inp) (Some ''webhook-signature'')
          in if key = [] then Some ''standard-webhooks secret decodes to empty key''
             else if \<not> truthy_str i \<or> \<not> truthy_str tsRaw \<or> \<not> truthy_str sigHeader
             then Some ''missing webhook-id/webhook-timestamp/webhook-signature header''
             else case parse_int (the tsRaw) of
                 None \<Rightarrow> Some ''invalid webhook-timestamp''
               | Some ts \<Rightarrow>
                   if skew_beyond (vi_now inp) ts (tolerance_of spec env)
                   then Some ''replay: timestamp outside tolerance''
                   else let expected = hmac C Base64 (ByteKey key) (webhook_content (the i) (the tsRaw) (vi_rawBody inp))
                        in if list_ex (\<lambda>cand. case candidate_signature cand of
                                          None \<Rightarrow> False
                                        | Some sig \<Rightarrow> safeEqualStr C sig expected) (split_on CHR '' '' (the sigHeader))
                           then None else Some ''webhook-signature mismatch'')"

text \<open>The freshness of a declared timestamp header.\<close>

definition stale_timestamp :: "string option \<Rightarrow> signature_spec \<Rightarrow> verify_input \<Rightarrow> string option" where
  "stale_timestamp env spec inp =
     (if \<not> truthy_str (timestampHeader spec) then None
      else case parse_int (case header (vi_headers inp) (timestampHeader spec) of Some s \<Rightarrow> s | None \<Rightarrow> []) of
          None \<Rightarrow> Some ''missing/invalid timestamp''
        | Some ts \<Rightarrow> if skew_beyond (vi_now inp) ts (tolerance_of spec env)
                     then Some ''replay: timestamp outside tolerance'' else None)"

definition signed_content :: "signature_spec \<Rightarrow> verify_input \<Rightarrow> string" where
  "signed_content spec inp =
     fill_template (case contentTemplate spec of Some t \<Rightarrow> t | None \<Rightarrow> ''{rawBody}'') (vi_rawBody inp)
       (case header (vi_headers inp) (timestampHeader spec) of Some t \<Rightarrow> t | None \<Rightarrow> []) (vi_instanceId inp)"

definition expected_signature :: "node_crypto \<Rightarrow> signature_spec \<Rightarrow> verify_input \<Rightarrow> string" where
  "expected_signature C spec inp =
     (case sig_prefix spec of Some p \<Rightarrow> p | None \<Rightarrow> []) @
     hmac C (case encoding spec of Some e \<Rightarrow> e | None \<Rightarrow> Hex) (TextKey (vi_secret inp)) (signed_content spec inp)"

definition verifyIngressSignature :: "node_crypto \<Rightarrow> string option \<Rightarrow> signature_spec \<Rightarrow> verify_input \<Rightarrow> string option" where
  "verifyIngressSignature C env spec inp =
     (if scheme spec = NoScheme then None
      else if vi_secret inp = [] then Some ''empty ingress secret''
      else if scheme spec = StandardWebhooks then verifyStandardWebhooks C env spec inp
      else case stale_timestamp env spec inp of
          Some reason \<Rightarrow> Some reason
        | None \<Rightarrow>
            case header (vi_headers inp) (header_name spec) of
              None \<Rightarrow> Some ''missing signature header''
            | Some provided \<Rightarrow>
                if provided = [] then Some ''missing signature header''
                else if scheme spec = SharedSecret
                then (if safeEqualStr C provided (vi_secret inp) then None else Some ''shared-secret mismatch'')
                else if safeEqualStr C provided (expected_signature C spec inp) then None else Some ''hmac mismatch'')"

section \<open>Lemmas\<close>

lemma header_set [simp]:
  "header (jm_set hs n v) (Some m) = (if m \<noteq> [] \<and> js_lower m = n then Some v else header hs (Some m))"
  by (simp add: header_def)

lemma truthy_str_Some [simp]: "truthy_str (Some s) \<longleftrightarrow> s \<noteq> []"
  by (simp add: truthy_str_def)

lemma truthy_strE:
  assumes "truthy_str v" obtains s where "v = Some s" and "s \<noteq> []"
  using assms by (cases v) (auto simp: truthy_str_def)

text \<open>A leading number is read whatever follows it after a dot.\<close>

lemma strip_sign_append: "u \<noteq> [] \<Longrightarrow> strip_sign (u @ x) = (fst (strip_sign u), snd (strip_sign u) @ x)"
  by (cases u) auto

lemma parse_int_dot:
  assumes "parse_int s = Some n"
  shows "parse_int (s @ CHR ''.'' # r) = Some n"
proof -
  let ?u = "dropWhile ws_char s"
  have u: "?u \<noteq> []" using assms by (cases "?u") (simp_all add: parse_int_def)
  then have "dropWhile ws_char (s @ CHR ''.'' # r) = ?u @ CHR ''.'' # r"
    by (metis dropWhile_append1 dropWhile_eq_Nil_conv)
  moreover have tw: "takeWhile is_digit (v @ CHR ''.'' # r) = takeWhile is_digit v" for v
    by (induction v) (auto simp: is_digit_def)
  ultimately show ?thesis
    using assms strip_sign_append [OF u, of "CHR ''.'' # r"]
    by (cases "strip_sign ?u") (simp add: parse_int_def Let_def tw split: if_splits)
qed

lemma webhook_content_splice: "webhook_content i (ts @ CHR ''.'' # p) q = webhook_content i ts (p @ CHR ''.'' # q)"
  by (simp add: webhook_content_def)

lemma digits_no_dot: "list_all is_digit s \<Longrightarrow> CHR ''.'' \<notin> set s"
  by (auto simp: list_all_iff is_digit_def)

lemma webhook_content_inj:
  assumes "webhook_content i ts b = webhook_content i' ts' b'"
    and "CHR ''.'' \<notin> set i" and "CHR ''.'' \<notin> set i'" and "list_all is_digit ts" and "list_all is_digit ts'"
  shows "i = i' \<and> ts = ts' \<and> b = b'"
  using assms by (simp add: webhook_content_def split_first_iff digits_no_dot)

lemma safeEqualStr_iff: "inj (eq_digest C) \<Longrightarrow> safeEqualStr C a b \<longleftrightarrow> a = b"
  by (simp add: safeEqualStr_def inj_eq)

text \<open>A template in which the body occurs determines the body: its length is the length of the rest
  and a multiple of that of the body.\<close>

fun body_slots :: "string \<Rightarrow> nat" where
  "body_slots [] = 0"
| "body_slots (c # cs) =
     (if starts_with ''{rawBody}'' (c # cs) then Suc (body_slots (drop 8 cs))
      else if starts_with ''{timestamp}'' (c # cs) then body_slots (drop 10 cs)
      else if starts_with ''{id}'' (c # cs) then body_slots (drop 3 cs)
      else body_slots cs)"

lemma includes_skip:
  assumes "starts_with w (c # cs)" and "includes_str ''{rawBody}'' (c # cs)" and "\<not> starts_with ''{rawBody}'' (c # cs)"
    and "CHR ''{'' \<notin> set (tl w)" and "w \<noteq> []"
  shows "includes_str ''{rawBody}'' (drop (length (tl w)) cs)"
proof -
  obtain u v where w: "w = c # u" and cs: "cs = u @ v"
    using assms(1,5) by (cases w) (auto simp: starts_with_iff)
  have "CHR ''{'' \<notin> set u \<Longrightarrow> includes_str ''{rawBody}'' (u @ v) = includes_str ''{rawBody}'' v" for u
    by (induction u) (auto simp: starts_with_def)
  then show ?thesis using assms w cs by simp
qed

lemma includes_slots: "includes_str ''{rawBody}'' t \<Longrightarrow> 0 < body_slots t"
proof (induction t rule: body_slots.induct)
  case (2 c cs)
  have "includes_str ''{rawBody}'' (drop 10 cs)"
    if "starts_with ''{timestamp}'' (c # cs)" "\<not> starts_with ''{rawBody}'' (c # cs)"
    using includes_skip [OF that(1) 2(5) that(2)] by (simp add: eval_nat_numeral)
  moreover have "includes_str ''{rawBody}'' (drop 3 cs)"
    if "starts_with ''{id}'' (c # cs)" "\<not> starts_with ''{rawBody}'' (c # cs)"
    using includes_skip [OF that(1) 2(5) that(2)] by (simp add: eval_nat_numeral)
  moreover have "includes_str ''{rawBody}'' cs" if "\<not> starts_with ''{rawBody}'' (c # cs)"
    using 2(5) that by simp
  ultimately show ?case using 2 by (simp del: includes_str.simps)
qed simp

lemma fill_template_length:
  "length (fill_template t b ts i) + body_slots t * length b' = length (fill_template t b' ts i) + body_slots t * length b"
proof (induction t rule: body_slots.induct)
  case (2 c cs)
  then show ?case
    by (cases "starts_with ''{rawBody}'' (c # cs)"; cases "starts_with ''{timestamp}'' (c # cs)";
        cases "starts_with ''{id}'' (c # cs)") simp_all
qed simp

lemma fill_template_same_length:
  "fill_template t b ts i = fill_template t b' ts i \<Longrightarrow> length b = length b' \<Longrightarrow> 0 < body_slots t \<Longrightarrow> b = b'"
proof (induction t rule: body_slots.induct)
  case (2 c cs)
  then show ?case
    by (cases "starts_with ''{rawBody}'' (c # cs)"; cases "starts_with ''{timestamp}'' (c # cs)";
        cases "starts_with ''{id}'' (c # cs)") simp_all
qed simp

lemma fill_template_inj:
  assumes "fill_template t b ts i = fill_template t b' ts i" and "includes_str ''{rawBody}'' t"
  shows "b = b'"
  using assms fill_template_length [of t b ts i b'] fill_template_same_length [of t b ts i b'] includes_slots [of t] by auto

section \<open>Theorems\<close>

lemma candidate_accepted:
  assumes "list_ex (\<lambda>cand. case candidate_signature cand of None \<Rightarrow> False | Some sig \<Rightarrow> safeEqualStr C sig e) cands"
    and "inj (eq_digest C)"
  shows "e \<in> set (List.map_filter candidate_signature cands)"
  using assms by (force simp: list_ex_iff List.map_filter_def safeEqualStr_iff split: option.splits)

text \<open>What an accepted standard-webhooks delivery passed.\<close>

lemma accepted_webhook:
  assumes "verifyIngressSignature C env spec inp = None" and "scheme spec = StandardWebhooks"
  obtains k i ts n sigs where "parseWebhookSecret (vi_secret inp) = Some k"
    and "header (vi_headers inp) (Some ''webhook-id'') = Some i"
    and "header (vi_headers inp) (Some ''webhook-timestamp'') = Some ts"
    and "header (vi_headers inp) (Some ''webhook-signature'') = Some sigs"
    and "parse_int ts = Some n" and "\<not> skew_beyond (vi_now inp) n (tolerance_of spec env)"
    and "list_ex (\<lambda>cand. case candidate_signature cand of None \<Rightarrow> False
           | Some sig \<Rightarrow> safeEqualStr C sig (hmac C Base64 (ByteKey (from_base64 C k)) (webhook_content i ts (vi_rawBody inp))))
         (split_on CHR '' '' sigs)"
  using assms unfolding verifyIngressSignature_def verifyStandardWebhooks_def
  by (auto simp: Let_def elim!: truthy_strE split: if_splits option.splits)

text \<open>C10. A standard-webhooks delivery that is accepted was sent: if the sender alone can compute the
  code under the key, then the id, the timestamp and the body are those of one delivery it signed, and
  the timestamp is within the tolerance. It holds where the received id has no dot and the received
  timestamp is a number.\<close>

theorem accepted_webhook_was_sent:
  assumes "verifyIngressSignature C env spec inp = None" and "scheme spec = StandardWebhooks"
    and "inj (eq_digest C)"
    and "parseWebhookSecret (vi_secret inp) = Some k"
    and "header (vi_headers inp) (Some ''webhook-id'') = Some i" and "CHR ''.'' \<notin> set i"
    and "header (vi_headers inp) (Some ''webhook-timestamp'') = Some ts" and "list_all is_digit ts"
    and "header (vi_headers inp) (Some ''webhook-signature'') = Some sigs"
    and sent: "\<forall>(i', ts', b') \<in> sent. CHR ''.'' \<notin> set i' \<and> list_all is_digit ts'"
    and unforged: "\<And>c. hmac C Base64 (ByteKey (from_base64 C k)) c
        \<in> set (List.map_filter candidate_signature (split_on CHR '' '' sigs)) \<Longrightarrow> \<exists>(i', ts', b') \<in> sent. c = webhook_content i' ts' b'"
  shows "(i, ts, vi_rawBody inp) \<in> sent \<and> (\<exists>n. parse_int ts = Some n \<and> \<not> skew_beyond (vi_now inp) n (tolerance_of spec env))"
proof -
  obtain n where n: "parse_int ts = Some n" "\<not> skew_beyond (vi_now inp) n (tolerance_of spec env)"
    and sig: "hmac C Base64 (ByteKey (from_base64 C k)) (webhook_content i ts (vi_rawBody inp))
          \<in> set (List.map_filter candidate_signature (split_on CHR '' '' sigs))"
    by (rule accepted_webhook [OF assms(1,2)]) (use candidate_accepted [OF _ assms(3)] assms(4-9) in auto)
  obtain i' ts' b' where s: "(i', ts', b') \<in> sent" and c: "webhook_content i ts (vi_rawBody inp) = webhook_content i' ts' b'"
    using unforged [OF sig] by blast
  have "i = i' \<and> ts = ts' \<and> vi_rawBody inp = b'"
    using webhook_content_inj [OF c] assms(6,8) sent s by auto
  then show ?thesis using s n by simp
qed

text \<open>C38. Without that the binding fails: the timestamp header is read up to its first character that is
  not a digit, so the part of the body before any of its dots can be moved into that header. The
  signature and the timestamp of a signed delivery vouch for the rest of its body as a delivery.\<close>

theorem spliced_body_is_accepted:
  assumes "verifyIngressSignature C env spec inp = None" and "scheme spec = StandardWebhooks"
    and "header (vi_headers inp) (Some ''webhook-timestamp'') = Some ts" and "vi_rawBody inp = p @ CHR ''.'' # q"
  shows "verifyIngressSignature C env spec
           (inp\<lparr>vi_headers := jm_set (vi_headers inp) ''webhook-timestamp'' (ts @ CHR ''.'' # p), vi_rawBody := q\<rparr>) = None"
proof -
  obtain n where "parse_int ts = Some n"
    by (rule accepted_webhook [OF assms(1,2)]) (use assms(3) in auto)
  moreover have "js_lower ''webhook-timestamp'' = ''webhook-timestamp''" "js_lower ''webhook-id'' \<noteq> ''webhook-timestamp''"
    "js_lower ''webhook-signature'' \<noteq> ''webhook-timestamp''" by code_simp+
  ultimately show ?thesis
    using assms unfolding verifyIngressSignature_def verifyStandardWebhooks_def
    by (auto simp: Let_def parse_int_dot webhook_content_splice elim!: truthy_strE split: if_splits option.splits)
qed

text \<open>An HMAC over a template in which the body occurs binds the body: two deliveries of one instance
  that are both accepted with the same signature and the same timestamp header have the same body.\<close>

theorem hmac_binds_the_body:
  assumes "verifyIngressSignature C env spec a = None" and "verifyIngressSignature C env spec b = None"
    and "scheme spec = HmacSha256" and "inj (eq_digest C)"
    and "includes_str ''{rawBody}'' (case contentTemplate spec of Some t \<Rightarrow> t | None \<Rightarrow> ''{rawBody}'')"
    and "header (vi_headers a) (header_name spec) = header (vi_headers b) (header_name spec)"
    and "header (vi_headers a) (timestampHeader spec) = header (vi_headers b) (timestampHeader spec)"
    and "vi_secret a = vi_secret b" and "vi_instanceId a = vi_instanceId b"
    and collision_free: "\<And>e c c'. hmac C e (TextKey (vi_secret a)) c = hmac C e (TextKey (vi_secret a)) c' \<Longrightarrow> c = c'"
  shows "vi_rawBody a = vi_rawBody b"
proof -
  have sig: "header (vi_headers x) (header_name spec) = Some (expected_signature C spec x)"
    if "verifyIngressSignature C env spec x = None" for x
    using that assms(3,4) unfolding verifyIngressSignature_def
    by (auto simp: safeEqualStr_iff split: if_splits option.splits)
  have "signed_content spec a = signed_content spec b"
    using sig [OF assms(1)] sig [OF assms(2)] assms(6,8)
    by (auto simp: expected_signature_def intro: collision_free [of "case encoding spec of None \<Rightarrow> Hex | Some e \<Rightarrow> e"])
  then show ?thesis
    using fill_template_inj [OF _ assms(5)] assms(7,9) by (simp add: signed_content_def)
qed

section \<open>Witnesses\<close>

definition sample_crypto :: node_crypto where
  "sample_crypto = \<lparr>eq_digest = (\<lambda>s. s), hmac = (\<lambda>e k c. c), from_base64 = (\<lambda>s. s)\<rparr>"

definition sample_spec :: "signature_scheme \<Rightarrow> signature_spec" where
  "sample_spec sc = \<lparr>scheme = sc, header_name = Some ''X-Sig'', contentTemplate = Some ''{timestamp}:{rawBody}'', encoding = None,
     sig_prefix = Some ''v0='', timestampHeader = Some ''x-ts'', toleranceSec = None, sig_dedupHeader = None\<rparr>"

definition sample_webhook :: verify_input where
  "sample_webhook = \<lparr>vi_rawBody = ''a.b'',
     vi_headers = [(''webhook-id'', ''m''), (''webhook-timestamp'', ''100''), (''webhook-signature'', ''v1,z.1.z v1,m.100.a.b'')],
     vi_secret = ''whsec_k'', vi_now = 101000, vi_instanceId = ''i''\<rparr>"

definition sample_hmac :: verify_input where
  "sample_hmac = \<lparr>vi_rawBody = ''a'', vi_headers = [(''x-sig'', ''v0=100:a''), (''x-ts'', ''100'')],
     vi_secret = ''k'', vi_now = 101000, vi_instanceId = ''i''\<rparr>"

lemma sample_accepted:
  "verifyIngressSignature sample_crypto None (sample_spec StandardWebhooks) sample_webhook = None"
  "verifyIngressSignature sample_crypto None (sample_spec HmacSha256) sample_hmac = None"
  by code_simp+

lemma sample_inj: "inj (eq_digest sample_crypto)"
  by (simp add: sample_crypto_def inj_def)

theorem accepted_webhook_was_sent_witness:
  "(''m'', ''100'', vi_rawBody sample_webhook) \<in> {(''m'', ''100'', ''a.b''), (''z'', ''1'', ''z'')} \<and>
   (\<exists>n. parse_int ''100'' = Some n \<and> \<not> skew_beyond (vi_now sample_webhook) n (tolerance_of (sample_spec StandardWebhooks) None))"
proof (rule accepted_webhook_was_sent [OF sample_accepted(1)])
  show "scheme (sample_spec StandardWebhooks) = StandardWebhooks" by (simp add: sample_spec_def)
  show "parseWebhookSecret (vi_secret sample_webhook) = Some ''k''" by code_simp
  show "header (vi_headers sample_webhook) (Some ''webhook-id'') = Some ''m''" by code_simp
  show "header (vi_headers sample_webhook) (Some ''webhook-timestamp'') = Some ''100''" by code_simp
  show "header (vi_headers sample_webhook) (Some ''webhook-signature'') = Some ''v1,z.1.z v1,m.100.a.b''" by code_simp
  show "\<exists>(i', ts', b') \<in> {(''m'', ''100'', ''a.b''), (''z'', ''1'', ''z'')}. c = webhook_content i' ts' b'"
    if "hmac sample_crypto Base64 (ByteKey (from_base64 sample_crypto ''k'')) c
      \<in> set (List.map_filter candidate_signature (split_on CHR '' '' ''v1,z.1.z v1,m.100.a.b''))" for c
  proof -
    have "c = ''m.100.a.b'' \<or> c = ''z.1.z''"
      using that by (auto simp: sample_crypto_def candidate_signature_def starts_with_def)
    then show ?thesis by (auto simp: webhook_content_def)
  qed
qed (simp_all add: sample_inj is_digit_def)

theorem spliced_body_is_accepted_witness:
  "verifyIngressSignature sample_crypto None (sample_spec StandardWebhooks)
     (sample_webhook\<lparr>vi_headers := jm_set (vi_headers sample_webhook) ''webhook-timestamp'' ''100.a'', vi_rawBody := ''b''\<rparr>) = None"
proof -
  have "scheme (sample_spec StandardWebhooks) = StandardWebhooks"
    and "header (vi_headers sample_webhook) (Some ''webhook-timestamp'') = Some ''100''"
    and "vi_rawBody sample_webhook = ''a'' @ CHR ''.'' # ''b''" by code_simp+
  from spliced_body_is_accepted [OF sample_accepted(1) this] show ?thesis by simp
qed

theorem hmac_binds_the_body_witness: "vi_rawBody sample_hmac = ''a''"
proof -
  have "vi_rawBody sample_hmac = vi_rawBody (sample_hmac\<lparr>vi_headers := (''extra'', ''1'') # vi_headers sample_hmac\<rparr>)"
    by (rule hmac_binds_the_body [OF sample_accepted(2)])
      (code_simp, code_simp, rule sample_inj, code_simp, code_simp, code_simp, simp, simp, simp add: sample_crypto_def)
  then show ?thesis by (simp add: sample_hmac_def)
qed

end
