(* ===== verification/Ingress_Service.thy ===== *)
theory Ingress_Service
  imports Ingress_Verify
begin

text \<open>
  The inbound webhook endpoint: \<open>IngressService.handle\<close> up to the recording of the delivery
  (src/src/modules/integration/ingress.service.ts), the preflight checks (ingress-preflight.ts), the
  acknowledgement (ingress-ack.ts) and the controller that reads the request and writes the answer
  (ingress.controller.ts). SHA-256 and \<open>JSON.parse\<close> are parameters.
\<close>

section \<open>The acknowledgement\<close>

record ack_result =
  status :: int
  ar_body :: "string option"
  ar_headers :: "(string \<times> string) list option"

text \<open>A declared acknowledgement: its members as they stand in the manifest.\<close>

record ack_spec =
  as_status :: jsval
  as_body :: jsval
  as_headers :: "(string \<times> jsval) list option"

record ack_ctx =
  ac_rawBody :: string
  ac_timestamp :: string
  ac_id :: string

text \<open>\<open>template.split(token).join(value)\<close> for a token that is not empty.\<close>

fun replace_all :: "string \<Rightarrow> string \<Rightarrow> string \<Rightarrow> string" where
  "replace_all token value [] = []"
| "replace_all token value (c # cs) =
     (if starts_with token (c # cs) then value @ replace_all token value (drop (length token - 1) cs)
      else c # replace_all token value cs)"

definition ack_substitute :: "string \<Rightarrow> ack_ctx \<Rightarrow> string" where
  "ack_substitute template ctx =
     replace_all ''{id}'' (ac_id ctx)
       (replace_all ''{timestamp}'' (ac_timestamp ctx) (replace_all ''{rawBody}'' (ac_rawBody ctx) template))"

definition string_entries :: "(string \<times> jsval) list \<Rightarrow> (string \<times> string) list" where
  "string_entries hs = List.map_filter (\<lambda>(n, v). case v of JStr s \<Rightarrow> Some (n, s) | _ \<Rightarrow> None) hs"

definition renderAck :: "ack_spec option \<Rightarrow> ack_ctx \<Rightarrow> ack_result" where
  "renderAck spec ctx =
     (case spec of
        None \<Rightarrow> \<lparr>status = 202, ar_body = Some ''accepted'', ar_headers = None\<rparr>
      | Some a \<Rightarrow> \<lparr>status = (case as_status a of JNum n \<Rightarrow> n | _ \<Rightarrow> 202),
                  ar_body = (case as_body a of JStr b \<Rightarrow> Some (ack_substitute b ctx) | _ \<Rightarrow> None),
                  ar_headers = map_option string_entries (as_headers a)\<rparr>)"

definition RESERVED_ACK_HEADERS :: "string list" where
  "RESERVED_ACK_HEADERS =
     [''content-type'', ''content-length'', ''transfer-encoding'', ''content-encoding'', ''trailer'',
      ''content-security-policy'', ''x-content-type-options'', ''x-frame-options'', ''strict-transport-security'',
      ''referrer-policy'', ''set-cookie'', ''access-control-allow-origin'', ''access-control-allow-credentials'']"

definition safeAckHeaders :: "(string \<times> string) list option \<Rightarrow> (string \<times> string) list" where
  "safeAckHeaders hs = filter (\<lambda>(n, v). js_lower n \<notin> set RESERVED_ACK_HEADERS) (case hs of Some l \<Rightarrow> l | None \<Rightarrow> [])"

definition HONORED_ACK_MEDIA_TYPES :: "string list" where
  "HONORED_ACK_MEDIA_TYPES = [''application/json'', ''text/plain'']"

definition media_type :: "string \<Rightarrow> string" where
  "media_type declared = js_lower (js_trim (hd (split_on CHR '';'' declared)))"

definition ackContentType :: "(string \<times> string) list option \<Rightarrow> string" where
  "ackContentType hs =
     (case map_option snd (List.find (\<lambda>(n, v). js_lower n = ''content-type'') (case hs of Some l \<Rightarrow> l | None \<Rightarrow> [])) of
        Some declared \<Rightarrow>
          if declared \<noteq> [] \<and> media_type declared \<in> set HONORED_ACK_MEDIA_TYPES then declared else ''text/plain''
      | None \<Rightarrow> ''text/plain'')"

section \<open>Routes, instances and requests\<close>

datatype engine_status =
  ES_DISCONNECTED | ES_INITIALIZING | ES_QR_READY | ES_AUTHENTICATING | ES_READY | ES_ACTION_REQUIRED | ES_FAILED

datatype preflight_check = Session_Alive | Other_Check

record response_contract =
  rc_preflight :: "preflight_check list option"
  rc_ack :: "ack_spec option"

datatype declared_cap = Cap_Number jsnum | Cap_String string | Cap_Other

record conversation_spec =
  cs_header :: "string option"
  cs_jsonPointer :: "string option"

record ingress_route =
  ir_route :: string
  ir_signature :: signature_spec
  ir_challenge :: "(string \<times> string) option"
  ir_maxBodyBytes :: declared_cap
  ir_conversationId :: "conversation_spec option"
  ir_dedupOnBody :: bool
  ir_dedupHeader :: "string option"
  ir_response :: "response_contract option"

record resolved_instance =
  ri_secret :: string
  ri_enabled :: bool
  ri_sessionScope :: "string option"
  ri_verifyToken :: "string option"

record ingress_request =
  rq_plugin :: string
  rq_instance :: string
  rq_route :: string
  rq_method :: string
  rq_headers :: "(string, string) jsmap"
  rq_query :: "(string, string) jsmap"
  rq_rawBody :: string

record ingress_payload =
  ip_headers :: "(string, string) jsmap"
  ip_query :: "(string, string) jsmap"
  ip_body :: string
  ip_rawBody :: string

record job_data =
  jd_plugin :: string
  jd_instance :: string
  jd_route :: string
  jd_method :: "string option"
  jd_deliveryId :: string
  jd_sessionId :: "string option"
  jd_conversation :: "string option"
  jd_payload :: ingress_payload

text \<open>What the handler is given: the tables it reads, the probe of the engines, the clock and the
  environment; and the digests and the parser of the platform.\<close>

record ingress_host =
  resolve :: "string \<Rightarrow> string \<Rightarrow> resolved_instance option"
  manifestRoute :: "string \<Rightarrow> string \<Rightarrow> ingress_route option"
  sessionStatus :: "(string \<Rightarrow> engine_status option) option"
  h_now :: millis
  body_limit_env :: "string option"
  tolerance_env :: "string option"
  crypto :: node_crypto
  sha256 :: "string \<Rightarrow> string"
  json_parse :: "string \<Rightarrow> jsval option"

section \<open>The steps of the handler\<close>

definition evaluatePreflight ::
  "ingress_route \<Rightarrow> string option \<Rightarrow> (string \<Rightarrow> engine_status option) option \<Rightarrow> ack_result option" where
  "evaluatePreflight route scope probe =
     (if list_ex (\<lambda>c. c = Session_Alive \<and>
           (case (scope, probe) of
              (Some s, Some f) \<Rightarrow> s \<noteq> [] \<and> s \<noteq> ''*'' \<and> (f s = None \<or> f s = Some ES_FAILED)
            | _ \<Rightarrow> False))
         (case ir_response route of Some r \<Rightarrow> (case rc_preflight r of Some cs \<Rightarrow> cs | None \<Rightarrow> []) | None \<Rightarrow> [])
      then Some \<lparr>status = 503, ar_body = Some ''session not ready'', ar_headers = Some [(''Retry-After'', ''5'')]\<rparr>
      else None)"

definition parsed_cap :: "declared_cap \<Rightarrow> jsnum" where
  "parsed_cap c =
     (case c of Cap_Number n \<Rightarrow> n | Cap_String s \<Rightarrow> if js_trim s \<noteq> [] then js_Number s else NaN | Cap_Other \<Rightarrow> NaN)"

definition effective_cap :: "declared_cap \<Rightarrow> string option \<Rightarrow> jsnum" where
  "effective_cap c env =
     (if num_finite (parsed_cap c) \<and> num_le 0 (parsed_cap c) then parsed_cap c
      else Dec (parseBodyLimitBytes (resolveBodyLimit env)) 0)"

definition SENSITIVE_INGRESS_HEADERS :: "string list" where
  "SENSITIVE_INGRESS_HEADERS =
     [''authorization'', ''proxy-authorization'', ''cookie'', ''x-hub-signature'', ''x-hub-signature-256'', ''x-signature'',
      ''x-signature-ed25519'', ''x-webhook-signature'']"

definition redactSensitiveHeaders :: "(string, string) jsmap \<Rightarrow> string option \<Rightarrow> (string, string) jsmap" where
  "redactSensitiveHeaders hs credentialHeader =
     map (\<lambda>(n, v). (n, if js_lower n \<in> set SENSITIVE_INGRESS_HEADERS \<or> Some (js_lower n) = map_option js_lower credentialHeader
                       then ''[redacted]'' else v)) hs"

definition deriveDeliveryId :: "ingress_host \<Rightarrow> ingress_request \<Rightarrow> string" where
  "deriveDeliveryId H req =
     sha256 H (join_with [CHR 0x00] [rq_plugin req, rq_instance req, rq_route req, rq_rawBody req])"

definition dedup_header_of :: "ingress_route \<Rightarrow> string" where
  "dedup_header_of route =
     js_lower (case ir_dedupHeader route of Some h \<Rightarrow> h
       | None \<Rightarrow> (case sig_dedupHeader (ir_signature route) of Some h \<Rightarrow> h
         | None \<Rightarrow> if scheme (ir_signature route) = StandardWebhooks then ''webhook-id'' else ''x-delivery''))"

definition delivery_id_of :: "ingress_host \<Rightarrow> ingress_route \<Rightarrow> ingress_request \<Rightarrow> string" where
  "delivery_id_of H route req =
     (let headerId = map_option js_trim (jm_get (rq_headers req) (dedup_header_of route))
      in if ir_dedupOnBody route \<or> \<not> truthy_str headerId then deriveDeliveryId H req else the headerId)"

text \<open>\<open>node?.[seg]\<close> of a value that \<open>JSON.parse\<close> returned.\<close>

definition canonical_index :: "string \<Rightarrow> nat option" where
  "canonical_index s = (if s \<noteq> [] \<and> list_all is_digit s \<and> show_nat (digits_val s) = s then Some (digits_val s) else None)"

definition member_of :: "jsval \<Rightarrow> string \<Rightarrow> jsval" where
  "member_of node seg =
     (case node of
        JObj fs \<Rightarrow> field_of fs seg
      | JArr vs \<Rightarrow> if seg = ''length'' then JNum (int (length vs))
          else (case canonical_index seg of Some i \<Rightarrow> if i < length vs then vs ! i else JUndefined | None \<Rightarrow> JUndefined)
      | JStr s \<Rightarrow> if seg = ''length'' then JNum (int (length s))
          else (case canonical_index seg of Some i \<Rightarrow> if i < length s then JStr [s ! i] else JUndefined | None \<Rightarrow> JUndefined)
      | _ \<Rightarrow> JUndefined)"

definition pointer_value :: "(string \<Rightarrow> jsval option) \<Rightarrow> string \<Rightarrow> string \<Rightarrow> string option" where
  "pointer_value parse pointer rawBody =
     (case parse rawBody of
        None \<Rightarrow> None
      | Some node \<Rightarrow>
          case foldl member_of node (filter (\<lambda>s. s \<noteq> []) (split_on CHR ''/'' pointer)) of
            JStr s \<Rightarrow> Some s
          | JNum n \<Rightarrow> Some (show_int n)
          | JBool b \<Rightarrow> Some (if b then ''true'' else ''false'')
          | _ \<Rightarrow> None)"

definition extractConversationId ::
  "(string \<Rightarrow> jsval option) \<Rightarrow> conversation_spec option \<Rightarrow> (string, string) jsmap \<Rightarrow> string \<Rightarrow> string option" where
  "extractConversationId parse spec hs rawBody =
     (case spec of
        None \<Rightarrow> None
      | Some cs \<Rightarrow>
          if truthy_str (cs_header cs) \<and> truthy_str (jm_get hs (js_lower (the (cs_header cs))))
          then jm_get hs (js_lower (the (cs_header cs)))
          else if truthy_str (cs_jsonPointer cs) then pointer_value parse (the (cs_jsonPointer cs)) rawBody else None)"

section \<open>The handler\<close>

text \<open>What a delivery that passes every check is recorded and enqueued as.\<close>

record admission =
  ad_job :: job_data
  ad_payloadHash :: string
  ad_ack :: ack_result
  ad_sync :: bool

definition plain_reply :: "int \<Rightarrow> string \<Rightarrow> ack_result" where
  "plain_reply n b = \<lparr>status = n, ar_body = Some b, ar_headers = None\<rparr>"

definition answer_challenge :: "ingress_host \<Rightarrow> resolved_instance \<Rightarrow> ingress_request \<Rightarrow> string \<times> string \<Rightarrow> ack_result" where
  "answer_challenge H inst req c =
     (let token = jm_get (rq_query req) (fst c); echo = jm_get (rq_query req) (snd c) in
      if truthy_str token \<and> truthy_str (ri_verifyToken inst) \<and> safeEqualStr (crypto H) (the token) (the (ri_verifyToken inst))
      then plain_reply 200 (case echo of Some e \<Rightarrow> e | None \<Rightarrow> []) else plain_reply 403 ''challenge failed'')"

definition verify_input_of :: "ingress_host \<Rightarrow> resolved_instance \<Rightarrow> ingress_request \<Rightarrow> verify_input" where
  "verify_input_of H inst req =
     \<lparr>vi_rawBody = rq_rawBody req, vi_headers = rq_headers req, vi_secret = ri_secret inst, vi_now = h_now H,
      vi_instanceId = rq_instance req\<rparr>"

definition admission_of :: "ingress_host \<Rightarrow> resolved_instance \<Rightarrow> ingress_route \<Rightarrow> ingress_request \<Rightarrow> admission" where
  "admission_of H inst route req =
     (let deliveryId = delivery_id_of H route req;
          payload = \<lparr>ip_headers = redactSensitiveHeaders (rq_headers req)
                       (if scheme (ir_signature route) = SharedSecret then header_name (ir_signature route) else None),
                     ip_query = rq_query req, ip_body = rq_rawBody req, ip_rawBody = rq_rawBody req\<rparr>
      in \<lparr>ad_job = \<lparr>jd_plugin = rq_plugin req, jd_instance = rq_instance req, jd_route = rq_route req,
                     jd_method = Some (rq_method req), jd_deliveryId = deliveryId, jd_sessionId = ri_sessionScope inst,
                     jd_conversation = extractConversationId (json_parse H) (ir_conversationId route) (rq_headers req) (rq_rawBody req),
                     jd_payload = payload\<rparr>,
          ad_payloadHash = sha256 H (rq_rawBody req),
          ad_ack = renderAck (case ir_response route of Some r \<Rightarrow> rc_ack r | None \<Rightarrow> None)
                     \<lparr>ac_rawBody = rq_rawBody req, ac_timestamp = show_int (h_now H div 1000), ac_id = deliveryId\<rparr>,
          ad_sync = (ir_response route \<noteq> None)\<rparr>)"

definition handle :: "ingress_host \<Rightarrow> ingress_request \<Rightarrow> ack_result + admission" where
  "handle H req =
     (case resolve H (rq_plugin req) (rq_instance req) of
        None \<Rightarrow> Inl (plain_reply 404 ''unknown instance'')
      | Some inst \<Rightarrow>
          if \<not> ri_enabled inst then Inl (plain_reply 404 ''unknown instance'')
          else case manifestRoute H (rq_plugin req) (rq_route req) of
              None \<Rightarrow> Inl (plain_reply 404 ''unknown route'')
            | Some route \<Rightarrow>
                if rq_method req = ''GET'' \<and> ir_challenge route \<noteq> None
                then Inl (answer_challenge H inst req (the (ir_challenge route)))
                else if \<not> num_le (int (utf8_length (rq_rawBody req))) (effective_cap (ir_maxBodyBytes route) (body_limit_env H))
                then Inl (plain_reply 413 ''payload too large'')
                else case verifyIngressSignature (crypto H) (tolerance_env H) (ir_signature route) (verify_input_of H inst req) of
                    Some reason \<Rightarrow> Inl (plain_reply 401 reason)
                  | None \<Rightarrow>
                      case evaluatePreflight route (ri_sessionScope inst) (sessionStatus H) of
                        Some rejection \<Rightarrow> Inl rejection
                      | None \<Rightarrow> Inr (admission_of H inst route req))"

section \<open>The controller\<close>

datatype header_value = Header_One string | Header_Many "string list" | Header_Missing

definition flat_headers :: "(string \<times> header_value) list \<Rightarrow> (string, string) jsmap" where
  "flat_headers hs =
     foldl (\<lambda>m (n, v). jm_set m (js_lower n)
        (case v of Header_One s \<Rightarrow> s | Header_Many vs \<Rightarrow> join_with '','' vs | Header_Missing \<Rightarrow> [])) [] hs"

definition flat_query :: "(string \<times> header_value) list \<Rightarrow> (string, string) jsmap" where
  "flat_query qs =
     foldl (\<lambda>m (n, v). jm_set m n
        (case v of Header_One s \<Rightarrow> s | Header_Many (w # ws) \<Rightarrow> w | _ \<Rightarrow> [])) [] qs"

record wire_answer =
  wa_status :: int
  wa_headers :: "(string \<times> string) list"
  wa_contentType :: string
  wa_body :: string

definition write_answer :: "ack_result \<Rightarrow> wire_answer" where
  "write_answer r =
     \<lparr>wa_status = status r,
      wa_headers = (case ar_headers r of Some hs \<Rightarrow> safeAckHeaders (Some hs) | None \<Rightarrow> []),
      wa_contentType = ackContentType (ar_headers r),
      wa_body = (case ar_body r of Some b \<Rightarrow> b | None \<Rightarrow> [])\<rparr>"

section \<open>Lemmas\<close>

text \<open>What an admitted request passed.\<close>

lemma handle_admitted:
  assumes "handle H req = Inr a"
  obtains inst route where "resolve H (rq_plugin req) (rq_instance req) = Some inst" and "ri_enabled inst"
    and "manifestRoute H (rq_plugin req) (rq_route req) = Some route"
    and "verifyIngressSignature (crypto H) (tolerance_env H) (ir_signature route) (verify_input_of H inst req) = None"
    and "a = admission_of H inst route req"
  using assms by (auto simp: handle_def split: option.splits if_splits)

lemma replace_all_absent: "\<not> includes_str token s \<Longrightarrow> replace_all token v s = s"
  by (induction s) auto

lemma includes_replace_absent:
  assumes "\<not> includes_str t s" shows "replace_all t v s = replace_all t w s"
  using assms by (simp add: replace_all_absent)

lemma join_NUL_inj:
  assumes "join_with [CHR 0x00] [a, b, c, d] = join_with [CHR 0x00] [a', b', c', d']"
    and "CHR 0x00 \<notin> set a \<union> set b \<union> set c \<union> set a' \<union> set b' \<union> set c'"
  shows "a = a' \<and> b = b' \<and> c = c' \<and> d = d'"
  using assms by (simp add: split_first_iff)

lemma derived_ids:
  assumes "inj (sha256 H)" and "CHR 0x00 \<notin> set (rq_plugin r) \<union> set (rq_instance r) \<union> set (rq_route r)"
    and "CHR 0x00 \<notin> set (rq_plugin r') \<union> set (rq_instance r') \<union> set (rq_route r')"
  shows "deriveDeliveryId H r = deriveDeliveryId H r' \<longleftrightarrow>
         rq_plugin r = rq_plugin r' \<and> rq_instance r = rq_instance r' \<and> rq_route r = rq_route r' \<and> rq_rawBody r = rq_rawBody r'"
proof
  assume "deriveDeliveryId H r = deriveDeliveryId H r'"
  then have "join_with [CHR 0x00] [rq_plugin r, rq_instance r, rq_route r, rq_rawBody r]
      = join_with [CHR 0x00] [rq_plugin r', rq_instance r', rq_route r', rq_rawBody r']"
    using assms(1) by (simp only: deriveDeliveryId_def inj_eq)
  from join_NUL_inj [OF this] assms(2,3) show
    "rq_plugin r = rq_plugin r' \<and> rq_instance r = rq_instance r' \<and> rq_route r = rq_route r' \<and> rq_rawBody r = rq_rawBody r'" by blast
qed (simp add: deriveDeliveryId_def)

lemma redacted_header:
  "(n, v) \<in> set (redactSensitiveHeaders hs c) \<Longrightarrow>
   js_lower n \<in> set SENSITIVE_INGRESS_HEADERS \<or> Some (js_lower n) = map_option js_lower c \<Longrightarrow> v = ''[redacted]''"
  by (auto simp: redactSensitiveHeaders_def)

lemma redacted_names [simp]: "map fst (redactSensitiveHeaders hs c) = map fst hs"
  by (simp add: redactSensitiveHeaders_def split_def o_def)

lemma kept_header:
  "js_lower n \<notin> set SENSITIVE_INGRESS_HEADERS \<Longrightarrow> Some (js_lower n) \<noteq> map_option js_lower c \<Longrightarrow>
   jm_get (redactSensitiveHeaders hs c) n = jm_get hs n"
  by (induction hs) (auto simp: redactSensitiveHeaders_def jm_get_def)

lemma probe_irrelevant [simp]:
  "verify_input_of (H\<lparr>sessionStatus := p\<rparr>) inst req = verify_input_of H inst req"
  "answer_challenge (H\<lparr>sessionStatus := p\<rparr>) inst req c = answer_challenge H inst req c"
  by (simp_all add: verify_input_of_def answer_challenge_def)

section \<open>Theorems\<close>

text \<open>C17. The liveness of a session is not revealed to a caller without the signature: where the
  verification fails, or before it is reached, the answer does not depend on the probe.\<close>

theorem probe_needs_the_signature:
  assumes "\<And>inst route. resolve H (rq_plugin req) (rq_instance req) = Some inst \<Longrightarrow>
      manifestRoute H (rq_plugin req) (rq_route req) = Some route \<Longrightarrow>
      verifyIngressSignature (crypto H) (tolerance_env H) (ir_signature route) (verify_input_of H inst req) \<noteq> None"
  shows "handle (H\<lparr>sessionStatus := probe\<rparr>) req = handle H req"
proof (cases "resolve H (rq_plugin req) (rq_instance req)")
  case inst: (Some inst)
  show ?thesis
  proof (cases "manifestRoute H (rq_plugin req) (rq_route req)")
    case route: (Some route)
    obtain reason where
      "verifyIngressSignature (crypto H) (tolerance_env H) (ir_signature route) (verify_input_of H inst req) = Some reason"
      using assms [OF inst route] by blast
    then show ?thesis using inst route by (auto simp: handle_def)
  qed (simp add: handle_def inst)
qed (simp add: handle_def)

text \<open>Deliveries whose provider sends no usable id are told apart by their content: two of them have
  one delivery id exactly if the instance, the route and the body are the same.\<close>

theorem derived_ids_separate_deliveries:
  assumes "\<not> truthy_str (map_option js_trim (jm_get (rq_headers r) (dedup_header_of route)))"
    and "\<not> truthy_str (map_option js_trim (jm_get (rq_headers r') (dedup_header_of route')))"
    and "inj (sha256 H)" and "CHR 0x00 \<notin> set (rq_plugin r) \<union> set (rq_instance r) \<union> set (rq_route r)"
    and "CHR 0x00 \<notin> set (rq_plugin r') \<union> set (rq_instance r') \<union> set (rq_route r')"
  shows "delivery_id_of H route r = delivery_id_of H route' r' \<longleftrightarrow>
         rq_plugin r = rq_plugin r' \<and> rq_instance r = rq_instance r' \<and> rq_route r = rq_route r' \<and> rq_rawBody r = rq_rawBody r'"
  using derived_ids [OF assms(3-5)] assms(1,2) by (simp add: delivery_id_of_def Let_def)

text \<open>What is recorded of a delivery keeps the names of all its headers and the values of none that
  carries a credential, the header with the secret of a shared-secret route included.\<close>

theorem no_credential_is_recorded:
  assumes "handle H req = Inr a" and "manifestRoute H (rq_plugin req) (rq_route req) = Some route"
    and "(n, v) \<in> set (ip_headers (jd_payload (ad_job a)))"
    and "js_lower n \<in> set SENSITIVE_INGRESS_HEADERS \<or>
         (scheme (ir_signature route) = SharedSecret \<and> Some (js_lower n) = map_option js_lower (header_name (ir_signature route)))"
  shows "v = ''[redacted]'' \<and> map fst (ip_headers (jd_payload (ad_job a))) = map fst (rq_headers req)"
proof -
  obtain inst where a: "a = admission_of H inst route req"
    by (rule handle_admitted [OF assms(1)]) (use assms(2) in auto)
  show ?thesis using assms(3,4) unfolding a
    by (auto simp: admission_of_def Let_def intro: redacted_header)
qed

text \<open>The signature of a standard-webhooks delivery is not among them: it is recorded as it came.\<close>

theorem webhook_signature_is_recorded:
  assumes "handle H req = Inr a" and "manifestRoute H (rq_plugin req) (rq_route req) = Some route"
    and "scheme (ir_signature route) = StandardWebhooks"
  shows "jm_get (ip_headers (jd_payload (ad_job a))) ''webhook-signature'' = jm_get (rq_headers req) ''webhook-signature''"
proof -
  obtain inst where a: "a = admission_of H inst route req"
    by (rule handle_admitted [OF assms(1)]) (use assms(2) in auto)
  have "js_lower ''webhook-signature'' \<notin> set SENSITIVE_INGRESS_HEADERS" by code_simp
  then show ?thesis using assms(3) unfolding a by (simp add: admission_of_def Let_def kept_header)
qed

text \<open>Whatever a manifest declares, the answer has a type that a browser does not execute, and none of
  the headers that the gateway decides itself.\<close>

theorem reflections_are_inert:
  "media_type (wa_contentType (write_answer r)) \<in> {''application/json'', ''text/plain''} \<and>
   (\<forall>(n, v) \<in> set (wa_headers (write_answer r)). js_lower n \<notin> set RESERVED_ACK_HEADERS)"
proof -
  have "media_type ''text/plain'' = ''text/plain''" by code_simp
  then show ?thesis
    by (auto simp: write_answer_def ackContentType_def HONORED_ACK_MEDIA_TYPES_def safeAckHeaders_def split: option.splits)
qed

text \<open>The acknowledgement of a retry is that of the first delivery, whatever the clock shows, if the
  time does not occur in the declared body once the request body is filled in.\<close>

theorem retry_gets_the_same_ack:
  assumes "handle H req = Inr a" and "handle (H\<lparr>h_now := t\<rparr>) req = Inr b"
    and "manifestRoute H (rq_plugin req) (rq_route req) = Some route"
    and "\<And>r k s. ir_response route = Some r \<Longrightarrow> rc_ack r = Some k \<Longrightarrow> as_body k = JStr s \<Longrightarrow>
           \<not> includes_str ''{timestamp}'' (replace_all ''{rawBody}'' (rq_rawBody req) s)"
  shows "ad_ack a = ad_ack b \<and> jd_deliveryId (ad_job a) = jd_deliveryId (ad_job b)"
proof -
  obtain inst where a: "a = admission_of H inst route req" and i: "resolve H (rq_plugin req) (rq_instance req) = Some inst"
    by (rule handle_admitted [OF assms(1)]) (use assms(3) in auto)
  have b: "b = admission_of (H\<lparr>h_now := t\<rparr>) inst route req"
    by (rule handle_admitted [OF assms(2)]) (use assms(3) i in auto)
  have "delivery_id_of (H\<lparr>h_now := t\<rparr>) route req = delivery_id_of H route req"
    by (simp add: delivery_id_of_def deriveDeliveryId_def cong: if_cong)
  then show ?thesis unfolding a b using assms(4)
    by (auto simp: admission_of_def Let_def renderAck_def ack_substitute_def replace_all_absent split: option.splits jsval.splits)
qed

section \<open>Witnesses\<close>

definition sample_request :: "(string, string) jsmap \<Rightarrow> string \<Rightarrow> ingress_request" where
  "sample_request hs b = \<lparr>rq_plugin = ''p'', rq_instance = ''i'', rq_route = ''r'', rq_method = ''POST'',
     rq_headers = hs, rq_query = [], rq_rawBody = b\<rparr>"

definition sample_route :: "signature_scheme \<Rightarrow> string \<Rightarrow> ingress_route" where
  "sample_route sc t = \<lparr>ir_route = ''r'', ir_signature = (sample_spec sc)\<lparr>timestampHeader := None\<rparr>, ir_challenge = None,
     ir_maxBodyBytes = Cap_Number (Dec 1000 0), ir_conversationId = None, ir_dedupOnBody = False, ir_dedupHeader = None,
     ir_response = Some \<lparr>rc_preflight = Some [Session_Alive],
       rc_ack = Some \<lparr>as_status = JNum 200, as_body = JStr t, as_headers = None\<rparr>\<rparr>\<rparr>"

definition sample_instance :: resolved_instance where
  "sample_instance = \<lparr>ri_secret = ''k'', ri_enabled = True, ri_sessionScope = Some ''s'', ri_verifyToken = None\<rparr>"

definition sample_host :: "signature_scheme \<Rightarrow> string \<Rightarrow> millis \<Rightarrow> ingress_host" where
  "sample_host sc t now = \<lparr>resolve = (\<lambda>p i. Some sample_instance),
     manifestRoute = (\<lambda>p r. Some (sample_route sc t)), sessionStatus = Some (\<lambda>s. Some ES_READY), h_now = now,
     body_limit_env = None, tolerance_env = None, crypto = sample_crypto, sha256 = (\<lambda>s. s), json_parse = (\<lambda>s. None)\<rparr>"

theorem probe_needs_the_signature_witness:
  "handle (sample_host SharedSecret [] 0\<lparr>sessionStatus := Some (\<lambda>s. None)\<rparr>) (sample_request [] [])
   = handle (sample_host SharedSecret [] 0) (sample_request [] [])"
proof (rule probe_needs_the_signature)
  fix inst route
  assume "resolve (sample_host SharedSecret [] 0) (rq_plugin (sample_request [] [])) (rq_instance (sample_request [] [])) = Some inst"
    and "manifestRoute (sample_host SharedSecret [] 0) (rq_plugin (sample_request [] [])) (rq_route (sample_request [] [])) = Some route"
  then have "route = sample_route SharedSecret []" "ri_secret inst = ''k''" by (auto simp: sample_host_def sample_instance_def)
  then show "verifyIngressSignature (crypto (sample_host SharedSecret [] 0)) (tolerance_env (sample_host SharedSecret [] 0))
      (ir_signature route) (verify_input_of (sample_host SharedSecret [] 0) inst (sample_request [] [])) \<noteq> None"
    by (simp add: verifyIngressSignature_def sample_route_def sample_spec_def verify_input_of_def stale_timestamp_def
        sample_request_def header_def jm_get_def truthy_str_def)
qed

theorem derived_ids_separate_deliveries_witness:
  "delivery_id_of (sample_host NoScheme [] 0) (sample_route NoScheme []) (sample_request [(''x-delivery'', '' '')] ''a'')
   \<noteq> delivery_id_of (sample_host NoScheme [] 0) (sample_route NoScheme []) (sample_request [] ''b'')"
proof -
  have "\<not> truthy_str (map_option js_trim (jm_get (rq_headers (sample_request [(''x-delivery'', '' '')] ''a''))
      (dedup_header_of (sample_route NoScheme []))))"
    and "\<not> truthy_str (map_option js_trim (jm_get (rq_headers (sample_request [] ''b'')) (dedup_header_of (sample_route NoScheme []))))"
    by code_simp+
  moreover have "inj (sha256 (sample_host NoScheme [] 0))" by (simp add: sample_host_def inj_def)
  ultimately show ?thesis
    using derived_ids_separate_deliveries [of "sample_request [(''x-delivery'', '' '')] ''a''" "sample_route NoScheme []"
      "sample_request [] ''b''" "sample_route NoScheme []" "sample_host NoScheme [] 0"]
    by (simp add: sample_request_def)
qed

definition shared_request :: ingress_request where
  "shared_request = sample_request [(''x-sig'', ''k''), (''Cookie'', ''c'')] ''b''"

definition webhook_request :: ingress_request where
  "webhook_request = sample_request [(''webhook-id'', ''m''), (''webhook-timestamp'', ''1''), (''webhook-signature'', ''v1,m.1.b'')] ''b''"

abbreviation admitted :: "signature_scheme \<Rightarrow> string \<Rightarrow> millis \<Rightarrow> ingress_request \<Rightarrow> admission" where
  "admitted sc t now \<equiv> admission_of (sample_host sc t 0\<lparr>h_now := now\<rparr>) sample_instance (sample_route sc t)"

lemma sample_handled:
  "handle (sample_host SharedSecret ''{rawBody}'' 0) shared_request = Inr (admitted SharedSecret ''{rawBody}'' 0 shared_request)"
  "handle (sample_host SharedSecret ''{rawBody}'' 0\<lparr>h_now := 5000\<rparr>) shared_request
   = Inr (admitted SharedSecret ''{rawBody}'' 5000 shared_request)"
  "handle (sample_host StandardWebhooks [] 0) webhook_request = Inr (admitted StandardWebhooks [] 0 webhook_request)"
  by code_simp+

lemma sample_manifest: "manifestRoute (sample_host sc t now) p r = Some (sample_route sc t)"
  by (simp add: sample_host_def)

theorem no_credential_is_recorded_witness:
  "snd (hd (ip_headers (jd_payload (ad_job (admitted SharedSecret ''{rawBody}'' 0 shared_request))))) = ''[redacted]''"
proof -
  have "(''x-sig'', snd (hd (ip_headers (jd_payload (ad_job (admitted SharedSecret ''{rawBody}'' 0 shared_request))))))
      \<in> set (ip_headers (jd_payload (ad_job (admitted SharedSecret ''{rawBody}'' 0 shared_request))))"
    and "scheme (ir_signature (sample_route SharedSecret ''{rawBody}'')) = SharedSecret \<and>
      Some (js_lower ''x-sig'') = map_option js_lower (header_name (ir_signature (sample_route SharedSecret ''{rawBody}'')))"
    by code_simp+
  then show ?thesis using no_credential_is_recorded [OF sample_handled(1) sample_manifest] by blast
qed

theorem webhook_signature_is_recorded_witness:
  "jm_get (ip_headers (jd_payload (ad_job (admitted StandardWebhooks [] 0 webhook_request)))) ''webhook-signature'' = Some ''v1,m.1.b''"
proof -
  have "scheme (ir_signature (sample_route StandardWebhooks [])) = StandardWebhooks"
    and "jm_get (rq_headers webhook_request) ''webhook-signature'' = Some ''v1,m.1.b''" by code_simp+
  then show ?thesis using webhook_signature_is_recorded [OF sample_handled(3) sample_manifest] by simp
qed

theorem retry_gets_the_same_ack_witness:
  "ad_ack (admitted SharedSecret ''{rawBody}'' 0 shared_request) = ad_ack (admitted SharedSecret ''{rawBody}'' 5000 shared_request)"
proof -
  have "\<not> includes_str ''{timestamp}'' (replace_all ''{rawBody}'' (rq_rawBody shared_request) s)"
    if "ir_response (sample_route SharedSecret ''{rawBody}'') = Some r" "rc_ack r = Some k" "as_body k = JStr s" for r k s
  proof -
    have "s = ''{rawBody}''" using that by (auto simp: sample_route_def)
    moreover have "\<not> includes_str ''{timestamp}'' (replace_all ''{rawBody}'' (rq_rawBody shared_request) ''{rawBody}'')" by code_simp
    ultimately show ?thesis by simp
  qed
  then show ?thesis using retry_gets_the_same_ack [OF sample_handled(1,2) sample_manifest] by blast
qed

text \<open>A declared body with the time is rendered anew for every retry, and so is a body that the
  provider sends with the token in it.\<close>

theorem retry_ack_shows_the_clock:
  "\<exists>H req a b. handle H req = Inr a \<and> handle (H\<lparr>h_now := 5000\<rparr>) req = Inr b \<and>
     jd_deliveryId (ad_job a) = jd_deliveryId (ad_job b) \<and> ad_ack a \<noteq> ad_ack b"
proof -
  let ?r = "sample_request [] ''b''"
  let ?a = "admitted NoScheme ''{timestamp}'' 0 ?r" and ?b = "admitted NoScheme ''{timestamp}'' 5000 ?r"
  have "handle (sample_host NoScheme ''{timestamp}'' 0) ?r = Inr ?a"
    and "handle (sample_host NoScheme ''{timestamp}'' 0\<lparr>h_now := 5000\<rparr>) ?r = Inr ?b"
    and "jd_deliveryId (ad_job ?a) = jd_deliveryId (ad_job ?b)" and "ad_ack ?a \<noteq> ad_ack ?b"
    by code_simp+
  then show ?thesis by blast
qed

end
