(* ===== verification/Ingress_Queue.thy ===== *)
theory Ingress_Queue
  imports Ingress_Service Env_Options
begin

text \<open>
  The identity and the options of ingress jobs (src/src/modules/integration/ingress-enqueue.service.ts)
  and the key of their ordering lock (ordering-lock.ts). The queue is shared by all instances and drops
  a job whose id it knows; which shapes of an id it refuses is what the comment of
  \<open>sanitizeIngressJobId\<close> says of it.
\<close>

section \<open>A whole number as text\<close>

text \<open>\<open>parseInt\<close> returns the double nearest to the digits, and its text has the fewest digits that
  denote that double; from \<open>10 ^ 21\<close> on the text has an exponent.\<close>

fun bit_length :: "nat \<Rightarrow> nat" where
  "bit_length n = (if n = 0 then 0 else Suc (bit_length (n div 2)))"

declare bit_length.simps [simp del]

definition nearest_double :: "nat \<Rightarrow> nat" where
  "nearest_double n =
     (let s = bit_length n - 53; q = n div 2 ^ s; r = 2 * (n mod 2 ^ s)
      in if s = 0 then n else if r > 2 ^ s \<or> r = 2 ^ s \<and> odd q then Suc q * 2 ^ s else q * 2 ^ s)"

definition with_digits :: "nat \<Rightarrow> nat \<Rightarrow> nat option" where
  "with_digits v unit =
     (let lo = v div unit * unit; hi = lo + unit;
          fits = filter (\<lambda>c. nearest_double c = v) (if 2 * (v - lo) \<le> unit then [lo, hi] else [hi, lo])
      in case fits of [] \<Rightarrow> None | c # _ \<Rightarrow> Some c)"

fun fewest_digits :: "nat \<Rightarrow> nat \<Rightarrow> nat" where
  "fewest_digits v 0 = v"
| "fewest_digits v (Suc k) = (case with_digits v (10 ^ Suc k) of Some c \<Rightarrow> c | None \<Rightarrow> fewest_digits v k)"

definition int_text :: "int \<Rightarrow> string option" where
  "int_text n =
     (let v = nearest_double (nat \<bar>n\<bar>)
      in if v \<ge> 10 ^ 21 then None
         else Some ((if n < 0 then ''-'' else []) @ show_nat (fewest_digits v (length (show_nat v)))))"

section \<open>The id of a job\<close>

definition looks_integer :: "string \<Rightarrow> bool" where
  "looks_integer raw = (case parse_int raw of Some n \<Rightarrow> int_text n = Some raw | None \<Rightarrow> raw = ''NaN'')"

definition bad_colon :: "string \<Rightarrow> bool" where
  "bad_colon raw = (CHR '':'' \<in> set raw \<and> length (split_on CHR '':'' raw) \<noteq> 3)"

definition zero_prefixed :: "string \<Rightarrow> bool" where
  "zero_prefixed raw = (raw = ''0'' \<or> starts_with ''0:'' raw)"

definition sanitizeIngressJobId :: "(string \<Rightarrow> string) \<Rightarrow> string \<Rightarrow> string \<Rightarrow> string" where
  "sanitizeIngressJobId sha raw namespace =
     (if \<not> looks_integer raw \<and> \<not> bad_colon raw \<and> \<not> zero_prefixed raw then raw
      else ''ing-'' @ take 40 (sha (namespace @ CHR 0x00 # raw)))"

definition job_namespace :: "job_data \<Rightarrow> string" where
  "job_namespace d = jd_plugin d @ CHR 0x00 # jd_instance d"

definition resolveIngressJobOptions :: "string option \<Rightarrow> string option \<Rightarrow> nat \<times> int" where
  "resolveIngressJobOptions attempts delay = (nat (positive_int_or 3 attempts), resolveNonNegativeIntEnv delay 5000)"

section \<open>The key of the ordering lock\<close>

definition orderingKeyFor :: "job_data \<Rightarrow> string" where
  "orderingKeyFor d =
     (case jd_conversation d of
        Some c \<Rightarrow> if c \<noteq> [] then jd_instance d @ CHR '':'' # c else ''instance:'' @ jd_instance d
      | None \<Rightarrow> ''instance:'' @ jd_instance d)"

section \<open>Theorems\<close>

lemma hashed_id_shape:
  assumes "CHR '':'' \<notin> set h"
  shows "\<not> looks_integer (''ing-'' @ h) \<and> \<not> bad_colon (''ing-'' @ h) \<and> \<not> zero_prefixed (''ing-'' @ h)"
proof -
  have "parse_int (''ing-'' @ h) = None"
    by (simp add: parse_int_def ws_char_def is_digit_def)
  then show ?thesis using assms
    by (auto simp: looks_integer_def bad_colon_def zero_prefixed_def starts_with_def)
qed

text \<open>No id that is handed to the queue has a refused shape.\<close>

theorem sanitized_ids_are_accepted:
  assumes "\<And>s. CHR '':'' \<notin> set (sha s)"
  shows "\<not> looks_integer (sanitizeIngressJobId sha raw ns) \<and> \<not> bad_colon (sanitizeIngressJobId sha raw ns) \<and>
         \<not> zero_prefixed (sanitizeIngressJobId sha raw ns)"
proof -
  have "CHR '':'' \<notin> set (take 40 (sha s))" for s using assms in_set_takeD by metis
  from hashed_id_shape [OF this] show ?thesis by (simp add: sanitizeIngressJobId_def)
qed

text \<open>Two instances whose providers number a delivery alike share its job id, unless the id has a
  refused shape: the queue drops the second delivery as known.\<close>

theorem job_ids_of_instances_collide:
  assumes "take 40 (sha (job_namespace d @ CHR 0x00 # raw)) = take 40 (sha (job_namespace d' @ CHR 0x00 # raw)) \<Longrightarrow>
      job_namespace d = job_namespace d'" and "CHR 0x00 \<notin> set (jd_plugin d) \<union> set (jd_plugin d')"
  shows "sanitizeIngressJobId sha raw (job_namespace d) = sanitizeIngressJobId sha raw (job_namespace d') \<longleftrightarrow>
         \<not> (looks_integer raw \<or> bad_colon raw \<or> zero_prefixed raw) \<or> (jd_plugin d = jd_plugin d' \<and> jd_instance d = jd_instance d')"
  using assms by (auto simp: sanitizeIngressJobId_def job_namespace_def split_first_iff)

section \<open>Witnesses\<close>

theorem sanitized_ids_are_accepted_witness:
  "\<not> looks_integer (sanitizeIngressJobId (\<lambda>s. ''ab'') ''12'' ''n'') \<and> \<not> bad_colon (sanitizeIngressJobId (\<lambda>s. ''ab'') ''12'' ''n'') \<and>
   \<not> zero_prefixed (sanitizeIngressJobId (\<lambda>s. ''ab'') ''12'' ''n'')"
  by (rule sanitized_ids_are_accepted) simp

definition sample_job :: "string \<Rightarrow> string \<Rightarrow> job_data" where
  "sample_job inst i = \<lparr>jd_plugin = ''p'', jd_instance = inst, jd_route = ''r'', jd_method = Some ''POST'', jd_deliveryId = i,
     jd_sessionId = None, jd_conversation = None,
     jd_payload = \<lparr>ip_headers = [], ip_query = [], ip_body = ''b'', ip_rawBody = ''b''\<rparr>\<rparr>"

theorem job_ids_of_instances_collide_witness:
  "sanitizeIngressJobId (\<lambda>s. s) ''evt'' (job_namespace (sample_job ''a'' ''evt'')) =
   sanitizeIngressJobId (\<lambda>s. s) ''evt'' (job_namespace (sample_job ''b'' ''evt''))"
proof -
  have "\<not> looks_integer ''evt'' \<and> \<not> bad_colon ''evt'' \<and> \<not> zero_prefixed ''evt''" by code_simp
  then show ?thesis
    using job_ids_of_instances_collide [of "\<lambda>s. s" "sample_job ''a'' ''evt''" "''evt''" "sample_job ''b'' ''evt''"]
    by (simp add: sample_job_def job_namespace_def)
qed

end
