(* ===== verification/Ingress_Flow.thy ===== *)
theory Ingress_Flow
  imports Ingress_Queue
begin

text \<open>
  What becomes of a recorded delivery: the live path of the endpoint (the wiring of
  src/src/modules/integration/integration.module.ts, ingress-event.service.ts and
  ingress-enqueue.service.ts), the reconciler (ingress-reconciler.service.ts), the replay of dead
  letters (redrive.service.ts), the queue worker (src/src/modules/queue/processors/ingress.processor.ts)
  and the retention. Each flow is a program counter and advances by one call to a table, the queue or
  the plugin; the steps of all flows interleave, and a crash ends every flow. What the queue and the
  plugin answer comes with the step: whether the queue took a job or knows its id, and the error of the
  plugin, if any. Only inbound rows of the table of failures are kept here.
\<close>

section \<open>The tables, the queue and the flows\<close>

type_synonym ingress_key = "string \<times> string \<times> string"

datatype dispatch_state = Ev_Pending | Ev_Dispatched | Ev_Failed

record ingress_event =
  ev_id :: nat
  ev_plugin :: string
  ev_instance :: string
  ev_delivery :: string
  ev_route :: string
  ev_payload :: "ingress_payload option"
  ev_payloadHash :: string
  ev_session :: "string option"
  ev_state :: "dispatch_state option"
  ev_attempts :: nat
  ev_last :: "millis option"
  ev_created :: millis

record dead_letter =
  dl_id :: nat
  dl_plugin :: string
  dl_instance :: string
  dl_session :: "string option"
  dl_delivery :: "string option"
  dl_attempts :: int
  dl_error :: string
  dl_route :: string
  dl_method :: "string option"
  dl_conversation :: "string option"
  dl_payload :: ingress_payload
  dl_redriven :: bool
  dl_created :: millis

record queue_job =
  qj_id :: string
  qj_data :: job_data
  qj_made :: nat
  qj_attempts :: nat

datatype enqueue_outcome = Enq_Queued | Enq_Dispatched | Enq_Failed string

datatype live_phase = Lv_Enqueue | Lv_Mark enqueue_outcome | Lv_Save string
datatype sweep_phase = Sw_Next | Sw_Mark | Sw_Retire | Sw_Ensure string nat | Sw_Save string nat | Sw_Fail nat | Sw_Bump nat
datatype redrive_phase = Rd_Next | Rd_Event | Rd_Mark | Rd_Bump string

record sweep_flow =
  sw_rows :: "ingress_event list"
  sw_now :: millis
  sw_phase :: sweep_phase

record redrive_flow =
  rd_rows :: "dead_letter list"
  rd_phase :: redrive_phase

record ingress_state =
  events :: "ingress_event list"
  dlq :: "dead_letter list"
  queue :: "queue_job list"
  delivered :: "job_data list"
  acked :: "ingress_key list"
  live :: "(job_data \<times> live_phase) list"
  sweeping :: "sweep_flow option"
  redrives :: "(string \<times> string, redrive_flow) jsmap"
  failing :: "(queue_job \<times> string) list"
  next_id :: nat
  clock :: millis

record ingress_config =
  use_queue :: bool
  job_attempts :: nat
  job_sha :: "string \<Rightarrow> string"
  graceMs :: int
  batchSize :: nat
  maxAttempts :: nat
  conversationOf :: "string \<Rightarrow> string \<Rightarrow> ingress_payload \<Rightarrow> string option"

definition job_key :: "job_data \<Rightarrow> ingress_key" where
  "job_key d = (jd_plugin d, jd_instance d, jd_deliveryId d)"

definition ev_key :: "ingress_event \<Rightarrow> ingress_key" where
  "ev_key r = (ev_plugin r, ev_instance r, ev_delivery r)"

definition dl_key :: "dead_letter \<Rightarrow> ingress_key option" where
  "dl_key d = map_option (\<lambda>i. (dl_plugin d, dl_instance d, i)) (dl_delivery d)"

section \<open>Options of the reconciler\<close>

definition resolveIngressReconcilerOptions ::
  "string option \<Rightarrow> string option \<Rightarrow> string option \<Rightarrow> string option \<Rightarrow> int \<times> int \<times> int \<times> int" where
  "resolveIngressReconcilerOptions interval grace batch attempts =
     (resolveNonNegativeIntEnv interval 60000, resolveNonNegativeIntEnv grace 60000, positive_int_or 50 batch,
      positive_int_or 5 attempts)"

section \<open>Operations on the tables\<close>

text \<open>\<open>recordOrSkip\<close>: the unique index answers a second insertion.\<close>

definition recordOrSkip :: "admission \<Rightarrow> ingress_state \<Rightarrow> (ingress_state \<times> bool)" where
  "recordOrSkip a s =
     (let d = ad_job a in
      if job_key d \<in> ev_key ` set (events s) then (s, False)
      else (s\<lparr>events := events s @ [\<lparr>ev_id = next_id s, ev_plugin = jd_plugin d, ev_instance = jd_instance d,
                 ev_delivery = jd_deliveryId d, ev_route = jd_route d, ev_payload = Some (jd_payload d),
                 ev_payloadHash = ad_payloadHash a, ev_session = jd_sessionId d, ev_state = Some Ev_Pending, ev_attempts = 0,
                 ev_last = None, ev_created = clock s\<rparr>],
              next_id := Suc (next_id s)\<rparr>, True))"

definition update_events :: "(ingress_event \<Rightarrow> bool) \<Rightarrow> (ingress_event \<Rightarrow> ingress_event) \<Rightarrow> ingress_state \<Rightarrow> ingress_state" where
  "update_events P f s = s\<lparr>events := map (\<lambda>r. if P r then f r else r) (events s)\<rparr>"

definition update_letters :: "(dead_letter \<Rightarrow> bool) \<Rightarrow> (dead_letter \<Rightarrow> dead_letter) \<Rightarrow> ingress_state \<Rightarrow> ingress_state" where
  "update_letters P f s = s\<lparr>dlq := map (\<lambda>d. if P d then f d else d) (dlq s)\<rparr>"

definition markDispatchOutcome :: "ingress_key \<Rightarrow> enqueue_outcome \<Rightarrow> ingress_state \<Rightarrow> ingress_state" where
  "markDispatchOutcome k outcome s =
     (case outcome of
        Enq_Failed e \<Rightarrow> update_events (\<lambda>r. ev_key r = k) (\<lambda>r. r\<lparr>ev_attempts := Suc (ev_attempts r), ev_last := Some (clock s)\<rparr>) s
      | _ \<Rightarrow> update_events (\<lambda>r. ev_key r = k)
               (\<lambda>r. r\<lparr>ev_state := Some Ev_Dispatched, ev_last := Some (clock s), ev_payload := None\<rparr>) s)"

definition buildIngressDeadLetterRow :: "job_data \<Rightarrow> string \<Rightarrow> dead_letter" where
  "buildIngressDeadLetterRow d e =
     \<lparr>dl_id = 0, dl_plugin = jd_plugin d, dl_instance = jd_instance d, dl_session = jd_sessionId d,
      dl_delivery = Some (jd_deliveryId d), dl_attempts = 1, dl_error = e, dl_route = jd_route d, dl_method = jd_method d,
      dl_conversation = jd_conversation d, dl_payload = jd_payload d, dl_redriven = False, dl_created = 0\<rparr>"

definition save_letter :: "dead_letter \<Rightarrow> ingress_state \<Rightarrow> ingress_state" where
  "save_letter d s = s\<lparr>dlq := dlq s @ [d\<lparr>dl_id := next_id s, dl_created := clock s\<rparr>], next_id := Suc (next_id s)\<rparr>"

text \<open>\<open>enqueue\<close>: to the queue, and where that fails or is switched off, to the plugin.\<close>

datatype add_answer = Added | Known_Id | Add_Fails

definition dispatch_inline :: "job_data \<Rightarrow> string option \<Rightarrow> ingress_state \<Rightarrow> ingress_state \<times> enqueue_outcome" where
  "dispatch_inline d answer s =
     (case answer of None \<Rightarrow> (s\<lparr>delivered := delivered s @ [d]\<rparr>, Enq_Dispatched) | Some e \<Rightarrow> (s, Enq_Failed e))"

definition enqueue ::
  "ingress_config \<Rightarrow> job_data \<Rightarrow> string \<Rightarrow> add_answer \<Rightarrow> string option \<Rightarrow> ingress_state \<Rightarrow> ingress_state \<times> enqueue_outcome" where
  "enqueue cfg d jobId add answer s =
     (if \<not> use_queue cfg then dispatch_inline d answer s
      else case add of
          Added \<Rightarrow> (s\<lparr>queue := queue s @ [\<lparr>qj_id = sanitizeIngressJobId (job_sha cfg) jobId (job_namespace d), qj_data = d,
                        qj_made = 0, qj_attempts = job_attempts cfg\<rparr>]\<rparr>, Enq_Queued)
        | Known_Id \<Rightarrow> (s, Enq_Queued)
        | Add_Fails \<Rightarrow> dispatch_inline d answer s)"

section \<open>The live path\<close>

definition remove_nth :: "nat \<Rightarrow> 'a list \<Rightarrow> 'a list" where
  "remove_nth i xs = take i xs @ drop (Suc i) xs"

definition receive :: "ingress_host \<Rightarrow> ingress_request \<Rightarrow> bool \<Rightarrow> ingress_state \<Rightarrow> ingress_state" where
  "receive H req ok s =
     (case handle H req of
        Inl reply \<Rightarrow> s
      | Inr a \<Rightarrow>
          if \<not> ok then s
          else case recordOrSkip a s of (s', new) \<Rightarrow>
            s'\<lparr>acked := job_key (ad_job a) # acked s',
               live := (if new then live s' @ [(ad_job a, Lv_Enqueue)] else live s')\<rparr>)"

definition live_step :: "ingress_config \<Rightarrow> nat \<Rightarrow> add_answer \<Rightarrow> string option \<Rightarrow> bool \<Rightarrow> ingress_state \<Rightarrow> ingress_state" where
  "live_step cfg i add answer ok s =
     (if i < length (live s) then
        case live s ! i of
          (d, Lv_Enqueue) \<Rightarrow>
            (case enqueue cfg d (jd_deliveryId d) add answer s of
               (s', outcome) \<Rightarrow> s'\<lparr>live := (live s)[i := (d, Lv_Mark outcome)]\<rparr>)
        | (d, Lv_Mark outcome) \<Rightarrow>
            (if ok then markDispatchOutcome (job_key d) outcome s else s)
              \<lparr>live := (case outcome of Enq_Failed e \<Rightarrow> (live s)[i := (d, Lv_Save e)] | _ \<Rightarrow> remove_nth i (live s))\<rparr>
        | (d, Lv_Save e) \<Rightarrow>
            (if ok then save_letter (buildIngressDeadLetterRow d e) s else s)\<lparr>live := remove_nth i (live s)\<rparr>
      else s)"

section \<open>The reconciler\<close>

definition jobDataFor :: "ingress_config \<Rightarrow> ingress_event \<Rightarrow> ingress_payload \<Rightarrow> job_data" where
  "jobDataFor cfg r p =
     \<lparr>jd_plugin = ev_plugin r, jd_instance = ev_instance r, jd_route = ev_route r, jd_method = None,
      jd_deliveryId = ev_delivery r, jd_sessionId = ev_session r,
      jd_conversation = conversationOf cfg (ev_plugin r) (ev_route r) p, jd_payload = p\<rparr>"

definition stale_row :: "ingress_config \<Rightarrow> millis \<Rightarrow> ingress_event \<Rightarrow> bool" where
  "stale_row cfg now r \<longleftrightarrow> ev_state r = Some Ev_Pending \<and> ev_created r < now - graceMs cfg"

definition sweep_rows :: "ingress_config \<Rightarrow> ingress_state \<Rightarrow> ingress_event list" where
  "sweep_rows cfg s =
     take (batchSize cfg) (sort_key ev_created (filter (stale_row cfg (clock s)) (events s)))"

definition sweep_begin :: "ingress_config \<Rightarrow> ingress_state \<Rightarrow> ingress_state" where
  "sweep_begin cfg s =
     (if sweeping s \<noteq> None then s
      else s\<lparr>sweeping := Some \<lparr>sw_rows = sweep_rows cfg s, sw_now = clock s, sw_phase = Sw_Next\<rparr>\<rparr>)"

definition sweep_to :: "sweep_phase \<Rightarrow> sweep_flow \<Rightarrow> ingress_state \<Rightarrow> ingress_state" where
  "sweep_to ph f s = s\<lparr>sweeping := Some (f\<lparr>sw_phase := ph\<rparr>)\<rparr>"

definition sweep_skip :: "sweep_flow \<Rightarrow> ingress_state \<Rightarrow> ingress_state" where
  "sweep_skip f s = s\<lparr>sweeping := Some (f\<lparr>sw_rows := tl (sw_rows f), sw_phase := Sw_Next\<rparr>)\<rparr>"

definition sweep_replay ::
  "ingress_config \<Rightarrow> bool \<Rightarrow> add_answer \<Rightarrow> string option \<Rightarrow> sweep_flow \<Rightarrow> ingress_event \<Rightarrow> ingress_state \<Rightarrow> ingress_state" where
  "sweep_replay cfg usable add answer f r s =
     (case ev_payload r of
        None \<Rightarrow> sweep_skip f s
      | Some p \<Rightarrow>
          if (case ev_last r of Some t \<Rightarrow> t > sw_now f - graceMs cfg | None \<Rightarrow> False) \<or> \<not> usable then sweep_skip f s
          else case enqueue cfg (jobDataFor cfg r p) (ev_delivery r) add answer s of
              (s', Enq_Failed e) \<Rightarrow>
                (let n = Suc (ev_attempts r) in sweep_to (if maxAttempts cfg \<le> n then Sw_Ensure e n else Sw_Bump n) f s')
            | (s', _) \<Rightarrow> sweep_to Sw_Mark f s')"

definition sweep_row ::
  "ingress_config \<Rightarrow> bool \<Rightarrow> add_answer \<Rightarrow> string option \<Rightarrow> sweep_flow \<Rightarrow> ingress_event \<Rightarrow> ingress_state \<Rightarrow> ingress_state" where
  "sweep_row cfg ok add answer f r s =
     (case sw_phase f of
        Sw_Next \<Rightarrow> sweep_replay cfg ok add answer f r s
      | Sw_Mark \<Rightarrow>
          if ok then sweep_to Sw_Retire f (update_events (\<lambda>x. ev_id x = ev_id r)
                       (\<lambda>x. x\<lparr>ev_state := Some Ev_Dispatched, ev_last := Some (sw_now f), ev_payload := None\<rparr>) s)
          else sweep_skip f s
      | Sw_Retire \<Rightarrow>
          sweep_skip f (if ok then update_letters (\<lambda>d. dl_key d = Some (ev_key r) \<and> \<not> dl_redriven d) (\<lambda>d. d\<lparr>dl_redriven := True\<rparr>) s else s)
      | Sw_Ensure e n \<Rightarrow>
          if \<not> ok then sweep_skip f s
          else sweep_to (if Some (ev_key r) \<in> dl_key ` set (dlq s) then Sw_Fail n else Sw_Save e n) f s
      | Sw_Save e n \<Rightarrow>
          if ok then sweep_to (Sw_Fail n) f
                       (save_letter ((buildIngressDeadLetterRow (jobDataFor cfg r (the (ev_payload r))) e)\<lparr>dl_attempts := int n\<rparr>) s)
          else sweep_skip f s
      | Sw_Fail n \<Rightarrow>
          sweep_skip f (if ok then update_events (\<lambda>x. ev_id x = ev_id r)
              (\<lambda>x. x\<lparr>ev_attempts := n, ev_last := Some (sw_now f), ev_state := Some Ev_Failed, ev_payload := None\<rparr>) s else s)
      | Sw_Bump n \<Rightarrow>
          sweep_skip f (if ok then update_events (\<lambda>x. ev_id x = ev_id r)
              (\<lambda>x. x\<lparr>ev_attempts := n, ev_last := Some (sw_now f)\<rparr>) s else s))"

definition sweep_step :: "ingress_config \<Rightarrow> bool \<Rightarrow> add_answer \<Rightarrow> string option \<Rightarrow> ingress_state \<Rightarrow> ingress_state" where
  "sweep_step cfg ok add answer s =
     (case sweeping s of
        None \<Rightarrow> s
      | Some f \<Rightarrow> (case sw_rows f of [] \<Rightarrow> s\<lparr>sweeping := None\<rparr> | r # _ \<Rightarrow> sweep_row cfg ok add answer f r s))"

section \<open>The replay of dead letters\<close>

definition letter_job :: "dead_letter \<Rightarrow> job_data" where
  "letter_job d =
     \<lparr>jd_plugin = dl_plugin d, jd_instance = dl_instance d, jd_route = dl_route d,
      jd_method = Some (case dl_method d of Some m \<Rightarrow> m | None \<Rightarrow> ''POST''),
      jd_deliveryId = (case dl_delivery d of Some i \<Rightarrow> i | None \<Rightarrow> show_nat (dl_id d)), jd_sessionId = dl_session d,
      jd_conversation = dl_conversation d, jd_payload = dl_payload d\<rparr>"

definition redrive_rows :: "string \<Rightarrow> string \<Rightarrow> string option \<Rightarrow> ingress_state \<Rightarrow> dead_letter list" where
  "redrive_rows p i session s =
     take 100 (sort_key dl_attempts (sort_key dl_created
       (filter (\<lambda>d. dl_plugin d = p \<and> dl_instance d = i \<and> \<not> dl_redriven d \<and> (session = None \<or> dl_session d = session)) (dlq s))))"

definition redrive_begin :: "string \<Rightarrow> string \<Rightarrow> string option \<Rightarrow> ingress_state \<Rightarrow> ingress_state" where
  "redrive_begin p i session s =
     (if jm_get (redrives s) (p, i) \<noteq> None then s
      else s\<lparr>redrives := jm_set (redrives s) (p, i) \<lparr>rd_rows = redrive_rows p i session s, rd_phase = Rd_Next\<rparr>\<rparr>)"

definition redrive_to :: "string \<times> string \<Rightarrow> redrive_flow \<Rightarrow> ingress_state \<Rightarrow> ingress_state" where
  "redrive_to inst f s = s\<lparr>redrives := jm_set (redrives s) inst f\<rparr>"

definition redrive_end :: "string \<times> string \<Rightarrow> ingress_state \<Rightarrow> ingress_state" where
  "redrive_end inst s = s\<lparr>redrives := jm_del (redrives s) inst\<rparr>"

definition redrive_row ::
  "ingress_config \<Rightarrow> string \<times> string \<Rightarrow> bool \<Rightarrow> add_answer \<Rightarrow> string option \<Rightarrow> redrive_flow \<Rightarrow> dead_letter \<Rightarrow> ingress_state \<Rightarrow> ingress_state" where
  "redrive_row cfg inst ok add answer f d s =
     (case rd_phase f of
        Rd_Next \<Rightarrow>
          (case enqueue cfg (letter_job d) (''redrive:'' @ show_nat (dl_id d)) add answer s of
             (s', Enq_Failed e) \<Rightarrow> redrive_to inst (f\<lparr>rd_phase := Rd_Bump e\<rparr>) s'
           | (s', _) \<Rightarrow> redrive_to inst (f\<lparr>rd_phase := (if truthy_str (dl_delivery d) then Rd_Event else Rd_Mark)\<rparr>) s')
      | Rd_Event \<Rightarrow>
          if ok then redrive_to inst (f\<lparr>rd_phase := Rd_Mark\<rparr>)
                       (update_events (\<lambda>x. Some (ev_key x) = dl_key d \<and> ev_state x = Some Ev_Pending)
                          (\<lambda>x. x\<lparr>ev_state := Some Ev_Dispatched, ev_last := Some (clock s), ev_payload := None\<rparr>) s)
          else redrive_end inst s
      | Rd_Mark \<Rightarrow>
          if ok then redrive_to inst (f\<lparr>rd_rows := tl (rd_rows f), rd_phase := Rd_Next\<rparr>)
                       (update_letters (\<lambda>x. dl_id x = dl_id d) (\<lambda>x. x\<lparr>dl_redriven := True\<rparr>) s)
          else redrive_end inst s
      | Rd_Bump e \<Rightarrow>
          if ok then redrive_to inst (f\<lparr>rd_rows := tl (rd_rows f), rd_phase := Rd_Next\<rparr>)
                       (update_letters (\<lambda>x. dl_id x = dl_id d) (\<lambda>x. x\<lparr>dl_attempts := max 0 (dl_attempts d) + 1, dl_error := e\<rparr>) s)
          else redrive_end inst s)"

definition redrive_step ::
  "ingress_config \<Rightarrow> string \<times> string \<Rightarrow> bool \<Rightarrow> add_answer \<Rightarrow> string option \<Rightarrow> ingress_state \<Rightarrow> ingress_state" where
  "redrive_step cfg inst ok add answer s =
     (case jm_get (redrives s) inst of
        None \<Rightarrow> s
      | Some f \<Rightarrow> (case rd_rows f of [] \<Rightarrow> redrive_end inst s | d # _ \<Rightarrow> redrive_row cfg inst ok add answer f d s))"

section \<open>The worker, crashes and the retention\<close>

text \<open>An attempt of a job: delivered, to be retried, or out of attempts. A job that is out of attempts
  leaves the queue once the row of its failure is written.\<close>

definition work :: "nat \<Rightarrow> string option \<Rightarrow> ingress_state \<Rightarrow> ingress_state" where
  "work i answer s =
     (if i < length (queue s) then
        let j = queue s ! i in
        case answer of
          None \<Rightarrow> s\<lparr>queue := remove_nth i (queue s), delivered := delivered s @ [qj_data j]\<rparr>
        | Some e \<Rightarrow>
            if qj_attempts j \<le> Suc (qj_made j) then s\<lparr>failing := failing s @ [(j, e)]\<rparr>
            else s\<lparr>queue := (queue s)[i := j\<lparr>qj_made := Suc (qj_made j)\<rparr>]\<rparr>
      else s)"

definition work_save :: "nat \<Rightarrow> bool \<Rightarrow> ingress_state \<Rightarrow> ingress_state" where
  "work_save i ok s =
     (if i < length (failing s) then
        case failing s ! i of
          (j, e) \<Rightarrow> (if ok then save_letter ((buildIngressDeadLetterRow (qj_data j) e)\<lparr>dl_attempts := int (Suc (qj_made j))\<rparr>) s else s)
                     \<lparr>queue := remove1 j (queue s), failing := remove_nth i (failing s)\<rparr>
      else s)"

definition crash :: "ingress_state \<Rightarrow> ingress_state" where
  "crash s = s\<lparr>live := [], sweeping := None, redrives := [], failing := []\<rparr>"

definition pruneOlderThan :: "millis \<Rightarrow> millis option \<Rightarrow> ingress_state \<Rightarrow> ingress_state" where
  "pruneOlderThan eventsCutoff failuresCutoff s =
     s\<lparr>events := filter (\<lambda>r. \<not> ev_created r < eventsCutoff) (events s),
       dlq := (case failuresCutoff of Some c \<Rightarrow> filter (\<lambda>d. \<not> dl_created d < c) (dlq s) | None \<Rightarrow> dlq s)\<rparr>"

datatype ingress_step =
    Request ingress_host ingress_request bool
  | Live nat add_answer "string option" bool
  | Sweep_Begin
  | Sweep bool add_answer "string option"
  | Redrive_Begin string string "string option"
  | Redrive "string \<times> string" bool add_answer "string option"
  | Work nat "string option"
  | Work_Save nat bool
  | Crash
  | Tick nat
  | Prune millis "millis option"

fun ingress_exec :: "ingress_config \<Rightarrow> ingress_step \<Rightarrow> ingress_state \<Rightarrow> ingress_state" where
  "ingress_exec cfg (Request H req ok) s = receive H req ok s"
| "ingress_exec cfg (Live i add answer ok) s = live_step cfg i add answer ok s"
| "ingress_exec cfg Sweep_Begin s = sweep_begin cfg s"
| "ingress_exec cfg (Sweep ok add answer) s = sweep_step cfg ok add answer s"
| "ingress_exec cfg (Redrive_Begin p i session) s = redrive_begin p i session s"
| "ingress_exec cfg (Redrive inst ok add answer) s = redrive_step cfg inst ok add answer s"
| "ingress_exec cfg (Work i answer) s = work i answer s"
| "ingress_exec cfg (Work_Save i ok) s = work_save i ok s"
| "ingress_exec cfg Crash s = crash s"
| "ingress_exec cfg (Tick n) s = s\<lparr>clock := clock s + int n\<rparr>"
| "ingress_exec cfg (Prune e f) s = pruneOlderThan e f s"

definition ingress_start :: "millis \<Rightarrow> ingress_state" where
  "ingress_start now = \<lparr>events = [], dlq = [], queue = [], delivered = [], acked = [], live = [], sweeping = None,
     redrives = [], failing = [], next_id = 1, clock = now\<rparr>"

end
