(* ===== verification/Ingress_Safety.thy ===== *)
theory Ingress_Safety
  imports Ingress_Flow
begin

text \<open>
  No acknowledged delivery is lost: it waits in its row with its payload, or the queue holds it, or
  the plugin has taken it, or a dead letter that is open holds it. The theorem is about steps on which
  the queue and the tables keep what the code relies on (\<open>honest\<close>); Ingress_Losses shows what happens
  on the others.
\<close>

declare split_paired_Ex [simp del] split_paired_All [simp del]

section \<open>Where a delivery is\<close>

definition carried_keys :: "ingress_state \<Rightarrow> ingress_key set" where
  "carried_keys s = (job_key \<circ> qj_data) ` set (queue s) \<union> job_key ` set (delivered s)"

definition open_letters :: "ingress_state \<Rightarrow> (nat \<times> ingress_key) set" where
  "open_letters s = {(dl_id d, k) | d k. d \<in> set (dlq s) \<and> \<not> dl_redriven d \<and> dl_key d = Some k}"

definition secured_keys :: "ingress_state \<Rightarrow> ingress_key set" where
  "secured_keys s = carried_keys s \<union> snd ` open_letters s"

text \<open>Held without the letter \<open>n\<close>.\<close>

definition secured_without :: "nat \<Rightarrow> ingress_state \<Rightarrow> ingress_key set" where
  "secured_without n s = carried_keys s \<union> {k. \<exists>m. m \<noteq> n \<and> (m, k) \<in> open_letters s}"

fun waiting :: "ingress_event \<Rightarrow> bool" where
  "waiting r = (ev_state r = Some Ev_Pending \<and> ev_payload r \<noteq> None)"

section \<open>The invariant\<close>

definition rows_kept :: "ingress_state \<Rightarrow> bool" where
  "rows_kept s = (\<forall>r \<in> set (events s). waiting r \<or> ev_key r \<in> secured_keys s)"

definition acks_kept :: "ingress_state \<Rightarrow> bool" where
  "acks_kept s = (set (acked s) \<subseteq> ev_key ` set (events s))"

definition known_row :: "ingress_state \<Rightarrow> ingress_event \<Rightarrow> bool" where
  "known_row s r = (ev_id r < next_id s \<and> (\<forall>r' \<in> set (events s). ev_id r' = ev_id r \<longrightarrow> ev_key r' = ev_key r))"

definition known_letter :: "ingress_state \<Rightarrow> string \<times> string \<Rightarrow> dead_letter \<Rightarrow> bool" where
  "known_letter s inst d \<longleftrightarrow>
     dl_id d < next_id s \<and> (dl_plugin d, dl_instance d) = inst \<and> dl_key d \<noteq> None \<and>
     (\<forall>d' \<in> set (dlq s). dl_id d' = dl_id d \<longrightarrow> dl_key d' = dl_key d)"

definition ids_fresh :: "ingress_state \<Rightarrow> bool" where
  "ids_fresh s \<longleftrightarrow>
     (\<forall>r \<in> set (events s). known_row s r) \<and> (\<forall>d \<in> set (dlq s). known_letter s (dl_plugin d, dl_instance d) d)"

definition letters_kept :: "ingress_state \<Rightarrow> bool" where
  "letters_kept s = (\<forall>d \<in> set (dlq s). dl_redriven d \<longrightarrow> (\<exists>k. dl_key d = Some k \<and> k \<in> secured_keys s))"

fun live_holds :: "live_phase \<Rightarrow> bool" where
  "live_holds (Lv_Mark Enq_Queued) = True"
| "live_holds (Lv_Mark Enq_Dispatched) = True"
| "live_holds _ = False"

definition live_kept :: "ingress_state \<Rightarrow> bool" where
  "live_kept s = (\<forall>(d, ph) \<in> set (live s). live_holds ph \<longrightarrow> job_key d \<in> secured_keys s)"

fun sweep_holds :: "sweep_phase \<Rightarrow> ingress_state \<Rightarrow> ingress_key \<Rightarrow> bool" where
  "sweep_holds Sw_Mark s k = (k \<in> carried_keys s)"
| "sweep_holds Sw_Retire s k = (k \<in> carried_keys s)"
| "sweep_holds (Sw_Fail n) s k = (k \<in> secured_keys s)"
| "sweep_holds _ s k = True"

definition sweep_kept :: "ingress_state \<Rightarrow> bool" where
  "sweep_kept s =
     (case sweeping s of None \<Rightarrow> True
      | Some f \<Rightarrow> (\<forall>r \<in> set (sw_rows f). known_row s r) \<and>
                 (sw_rows f \<noteq> [] \<longrightarrow> sweep_holds (sw_phase f) s (ev_key (hd (sw_rows f)))))"

fun redrive_holds :: "redrive_phase \<Rightarrow> bool" where
  "redrive_holds Rd_Event = True"
| "redrive_holds Rd_Mark = True"
| "redrive_holds _ = False"

definition redrive_kept :: "ingress_state \<Rightarrow> bool" where
  "redrive_kept s \<longleftrightarrow>
     jm_wf (redrives s) \<and>
     (\<forall>(inst, f) \<in> set (redrives s).
        (\<forall>d \<in> set (rd_rows f). known_letter s inst d) \<and>
        (rd_rows f \<noteq> [] \<and> redrive_holds (rd_phase f) \<longrightarrow>
           the (dl_key (hd (rd_rows f))) \<in> secured_without (dl_id (hd (rd_rows f))) s))"

definition ingress_inv :: "ingress_state \<Rightarrow> bool" where
  "ingress_inv s \<longleftrightarrow> rows_kept s \<and> acks_kept s \<and> ids_fresh s \<and> letters_kept s \<and> live_kept s \<and> sweep_kept s \<and> redrive_kept s"

section \<open>Honest steps\<close>

text \<open>The delivery that a step hands to the queue.\<close>

definition offered_key :: "ingress_step \<Rightarrow> ingress_state \<Rightarrow> ingress_key option" where
  "offered_key e s =
     (case e of
        Live i add answer ok \<Rightarrow> if i < length (live s) \<and> add = Known_Id then Some (job_key (fst (live s ! i))) else None
      | Sweep ok add answer \<Rightarrow>
          (case sweeping s of Some f \<Rightarrow> if add = Known_Id \<and> sw_rows f \<noteq> [] then Some (ev_key (hd (sw_rows f))) else None | None \<Rightarrow> None)
      | Redrive inst ok add answer \<Rightarrow>
          (case jm_get (redrives s) inst of
             Some f \<Rightarrow> if add = Known_Id \<and> rd_rows f \<noteq> [] then dl_key (hd (rd_rows f)) else None | None \<Rightarrow> None)
      | _ \<Rightarrow> None)"

text \<open>The row of a delivery whose replay is being booked by the reconciler.\<close>

definition being_booked :: "ingress_state \<Rightarrow> ingress_key option" where
  "being_booked s =
     (case sweeping s of
        Some f \<Rightarrow> if sw_rows f \<noteq> [] \<and> sw_phase f \<in> {Sw_Mark, Sw_Retire} then Some (ev_key (hd (sw_rows f))) else None
      | None \<Rightarrow> None)"

text \<open>The queue knows an id only while it holds the delivery or after the plugin took it. The row of a
  final failure is written, and not while the reconciler books a replay of the same delivery. The
  retention deletes nothing.\<close>

definition honest :: "ingress_step \<Rightarrow> ingress_state \<Rightarrow> bool" where
  "honest e s \<longleftrightarrow>
     (case offered_key e s of Some k \<Rightarrow> k \<in> carried_keys s | None \<Rightarrow> True) \<and>
     (case e of
        Work_Save i ok \<Rightarrow> ok \<and> (i < length (failing s) \<longrightarrow> being_booked s \<noteq> Some (job_key (qj_data (fst (failing s ! i)))))
      | Prune _ _ \<Rightarrow> False
      | _ \<Rightarrow> True)"

fun honest_run :: "ingress_config \<Rightarrow> ingress_step list \<Rightarrow> ingress_state \<Rightarrow> bool" where
  "honest_run cfg [] s = True"
| "honest_run cfg (e # es) s = (honest e s \<and> honest_run cfg es (ingress_exec cfg e s))"

section \<open>What the operations keep\<close>

lemma secured_mono:
  assumes "carried_keys s \<subseteq> carried_keys s'" and "open_letters s \<subseteq> open_letters s'"
  shows "secured_keys s \<subseteq> secured_keys s'" and "secured_without n s \<subseteq> secured_without n s'"
  using assms by (auto simp: secured_keys_def secured_without_def)

lemma secured_without_keep:
  assumes "k \<in> secured_without n s" and "carried_keys s \<subseteq> carried_keys s'"
    and "\<And>m. (m, k) \<in> open_letters s \<Longrightarrow> m \<noteq> n \<Longrightarrow> (m, k) \<in> open_letters s' \<or> k \<in> carried_keys s'"
  shows "k \<in> secured_without n s'"
  using assms unfolding secured_without_def by blast

lemma secured_without_secured: "secured_without n s \<subseteq> secured_keys s"
  unfolding secured_without_def secured_keys_def by force

lemma carried_secured: "carried_keys s \<subseteq> secured_keys s" "carried_keys s \<subseteq> secured_without n s"
  by (auto simp: secured_keys_def secured_without_def)

lemma set_jm_set: "set (jm_set m k v) \<subseteq> insert (k, v) (set m)"
  by (induction m k v rule: jm_set.induct) auto

lemma frame [simp]:
  "carried_keys (s\<lparr>events := ev\<rparr>) = carried_keys s" "carried_keys (s\<lparr>dlq := dl\<rparr>) = carried_keys s"
  "carried_keys (s\<lparr>acked := ak\<rparr>) = carried_keys s" "carried_keys (s\<lparr>live := lv\<rparr>) = carried_keys s"
  "carried_keys (s\<lparr>sweeping := sw\<rparr>) = carried_keys s" "carried_keys (s\<lparr>redrives := rd\<rparr>) = carried_keys s"
  "carried_keys (s\<lparr>failing := fl\<rparr>) = carried_keys s" "carried_keys (s\<lparr>next_id := n\<rparr>) = carried_keys s"
  "carried_keys (s\<lparr>clock := c\<rparr>) = carried_keys s"
  "open_letters (s\<lparr>events := ev\<rparr>) = open_letters s" "open_letters (s\<lparr>queue := q\<rparr>) = open_letters s"
  "open_letters (s\<lparr>delivered := dv\<rparr>) = open_letters s"
  "open_letters (s\<lparr>acked := ak\<rparr>) = open_letters s" "open_letters (s\<lparr>live := lv\<rparr>) = open_letters s"
  "open_letters (s\<lparr>sweeping := sw\<rparr>) = open_letters s" "open_letters (s\<lparr>redrives := rd\<rparr>) = open_letters s"
  "open_letters (s\<lparr>failing := fl\<rparr>) = open_letters s" "open_letters (s\<lparr>next_id := n\<rparr>) = open_letters s"
  "open_letters (s\<lparr>clock := c\<rparr>) = open_letters s"
  by (simp_all add: carried_keys_def open_letters_def)

lemma secured_cong:
  assumes "carried_keys s' = carried_keys s" and "open_letters s' = open_letters s"
  shows "secured_keys s' = secured_keys s" and "secured_without n s' = secured_without n s"
    and "sweep_holds ph s' k = sweep_holds ph s k"
  using assms by (cases ph; simp add: secured_keys_def secured_without_def)+

lemmas frames = secured_cong [OF frame(1) frame(10)] secured_cong [OF frame(3) frame(13)] secured_cong [OF frame(4) frame(14)]
  secured_cong [OF frame(5) frame(15)] secured_cong [OF frame(6) frame(16)] secured_cong [OF frame(7) frame(17)]
  secured_cong [OF frame(8) frame(18)] secured_cong [OF frame(9) frame(19)]

lemma frame_parts [simp]:
  "rows_kept (s\<lparr>acked := ak\<rparr>) = rows_kept s" "ids_fresh (s\<lparr>acked := ak\<rparr>) = ids_fresh s"
  "letters_kept (s\<lparr>acked := ak\<rparr>) = letters_kept s" "live_kept (s\<lparr>acked := ak\<rparr>) = live_kept s"
  "sweep_kept (s\<lparr>acked := ak\<rparr>) = sweep_kept s" "redrive_kept (s\<lparr>acked := ak\<rparr>) = redrive_kept s"
  "rows_kept (s\<lparr>live := lv\<rparr>) = rows_kept s" "acks_kept (s\<lparr>live := lv\<rparr>) = acks_kept s"
  "ids_fresh (s\<lparr>live := lv\<rparr>) = ids_fresh s" "letters_kept (s\<lparr>live := lv\<rparr>) = letters_kept s"
  "sweep_kept (s\<lparr>live := lv\<rparr>) = sweep_kept s" "redrive_kept (s\<lparr>live := lv\<rparr>) = redrive_kept s"
  "known_row (s\<lparr>live := lv\<rparr>) = known_row s" "known_letter (s\<lparr>live := lv\<rparr>) = known_letter s"
  "rows_kept (s\<lparr>sweeping := sw\<rparr>) = rows_kept s" "acks_kept (s\<lparr>sweeping := sw\<rparr>) = acks_kept s"
  "ids_fresh (s\<lparr>sweeping := sw\<rparr>) = ids_fresh s" "letters_kept (s\<lparr>sweeping := sw\<rparr>) = letters_kept s"
  "live_kept (s\<lparr>sweeping := sw\<rparr>) = live_kept s" "redrive_kept (s\<lparr>sweeping := sw\<rparr>) = redrive_kept s"
  "known_row (s\<lparr>sweeping := sw\<rparr>) = known_row s" "known_letter (s\<lparr>sweeping := sw\<rparr>) = known_letter s"
  "rows_kept (s\<lparr>redrives := rd\<rparr>) = rows_kept s" "acks_kept (s\<lparr>redrives := rd\<rparr>) = acks_kept s"
  "ids_fresh (s\<lparr>redrives := rd\<rparr>) = ids_fresh s" "letters_kept (s\<lparr>redrives := rd\<rparr>) = letters_kept s"
  "live_kept (s\<lparr>redrives := rd\<rparr>) = live_kept s" "sweep_kept (s\<lparr>redrives := rd\<rparr>) = sweep_kept s"
  "known_row (s\<lparr>redrives := rd\<rparr>) = known_row s" "known_letter (s\<lparr>redrives := rd\<rparr>) = known_letter s"
  "rows_kept (s\<lparr>failing := fl\<rparr>) = rows_kept s" "acks_kept (s\<lparr>failing := fl\<rparr>) = acks_kept s"
  "ids_fresh (s\<lparr>failing := fl\<rparr>) = ids_fresh s" "letters_kept (s\<lparr>failing := fl\<rparr>) = letters_kept s"
  "live_kept (s\<lparr>failing := fl\<rparr>) = live_kept s" "sweep_kept (s\<lparr>failing := fl\<rparr>) = sweep_kept s"
  "redrive_kept (s\<lparr>failing := fl\<rparr>) = redrive_kept s" "known_row (s\<lparr>failing := fl\<rparr>) = known_row s"
  "known_letter (s\<lparr>failing := fl\<rparr>) = known_letter s" "rows_kept (s\<lparr>clock := c\<rparr>) = rows_kept s"
  "acks_kept (s\<lparr>clock := c\<rparr>) = acks_kept s" "ids_fresh (s\<lparr>clock := c\<rparr>) = ids_fresh s"
  "letters_kept (s\<lparr>clock := c\<rparr>) = letters_kept s" "live_kept (s\<lparr>clock := c\<rparr>) = live_kept s"
  "sweep_kept (s\<lparr>clock := c\<rparr>) = sweep_kept s" "redrive_kept (s\<lparr>clock := c\<rparr>) = redrive_kept s"
  "known_row (s\<lparr>clock := c\<rparr>) = known_row s" "known_letter (s\<lparr>clock := c\<rparr>) = known_letter s"
  by (simp_all add: rows_kept_def acks_kept_def ids_fresh_def letters_kept_def live_kept_def sweep_kept_def redrive_kept_def
    known_row_def [abs_def] known_letter_def [abs_def] frames cong: option.case_cong)

text \<open>Changes of what only one flow looks at.\<close>

lemma set_live:
  assumes "ingress_inv s" and "\<And>d ph. (d, ph) \<in> set xs \<Longrightarrow> (d, ph) \<in> set (live s) \<or> (live_holds ph \<longrightarrow> job_key d \<in> secured_keys s)"
  shows "ingress_inv (s\<lparr>live := xs\<rparr>)"
proof -
  have "live_kept (s\<lparr>live := xs\<rparr>)"
    using assms unfolding ingress_inv_def live_kept_def by (fastforce simp: frames)
  then show ?thesis using assms(1) by (simp add: ingress_inv_def)
qed

lemma set_sweeping:
  assumes "ingress_inv s" and "\<And>f. sw = Some f \<Longrightarrow> (\<forall>r \<in> set (sw_rows f). known_row s r) \<and>
      (sw_rows f \<noteq> [] \<longrightarrow> sweep_holds (sw_phase f) s (ev_key (hd (sw_rows f))))"
  shows "ingress_inv (s\<lparr>sweeping := sw\<rparr>)"
  using assms by (cases sw) (simp_all add: ingress_inv_def sweep_kept_def frames)

lemma set_redrive:
  assumes "ingress_inv s" and "\<forall>d \<in> set (rd_rows f). known_letter s inst d"
    and "rd_rows f \<noteq> [] \<Longrightarrow> redrive_holds (rd_phase f) \<Longrightarrow>
      the (dl_key (hd (rd_rows f))) \<in> secured_without (dl_id (hd (rd_rows f))) s"
  shows "ingress_inv (redrive_to inst f s)"
proof -
  have "set (jm_set (redrives s) inst f) \<subseteq> insert (inst, f) (set (redrives s))"
    by (rule set_jm_set)
  then have "redrive_kept (redrive_to inst f s)"
    using assms unfolding ingress_inv_def redrive_kept_def redrive_to_def
    by (fastforce simp: frames)
  then show ?thesis using assms(1) by (simp add: ingress_inv_def redrive_to_def)
qed

lemma end_redrive:
  assumes "ingress_inv s" shows "ingress_inv (redrive_end inst s)"
proof -
  have "set (jm_del (redrives s) inst) \<subseteq> set (redrives s)" by (auto simp: jm_del_def)
  then have "redrive_kept (redrive_end inst s)"
    using assms unfolding ingress_inv_def redrive_kept_def redrive_end_def
    by (fastforce simp: frames)
  then show ?thesis using assms by (simp add: ingress_inv_def redrive_end_def)
qed

text \<open>Changes of the rows of events that keep their identities.\<close>

lemma update_events_kept:
  assumes "ingress_inv s" and f: "\<And>r. ev_id (f r) = ev_id r \<and> ev_key (f r) = ev_key r"
    and "\<And>r. r \<in> set (events s) \<Longrightarrow> P r \<Longrightarrow> (waiting r \<longrightarrow> waiting (f r)) \<or> ev_key r \<in> secured_keys s"
  shows "ingress_inv (update_events P f s)"
proof -
  let ?s = "update_events P f s"
  have ev: "set (events ?s) = (\<lambda>r. if P r then f r else r) ` set (events s)" by (simp add: update_events_def)
  have same: "carried_keys ?s = carried_keys s" "open_letters ?s = open_letters s" "dlq ?s = dlq s" "next_id ?s = next_id s"
    "live ?s = live s" "sweeping ?s = sweeping s" "redrives ?s = redrives s" "acked ?s = acked s"
    by (simp_all add: update_events_def)
  note sec = secured_cong [OF same(1,2)]
  have ids: "ev_id (if P r then f r else r) = ev_id r" "ev_key (if P r then f r else r) = ev_key r" for r using f by simp_all
  have kr: "known_row ?s r = known_row s r" for r by (simp only: known_row_def ev same ball_simps ids)
  have ki: "known_row s (if P r then f r else r) = known_row s r" for r by (simp only: known_row_def ids)
  have kl: "known_letter ?s inst d = known_letter s inst d" for inst d by (simp add: known_letter_def same)
  have "rows_kept ?s" unfolding rows_kept_def ev sec
    using assms f unfolding ingress_inv_def rows_kept_def by fastforce
  moreover have "acks_kept ?s" using assms(1) by (simp only: ingress_inv_def acks_kept_def ev same image_image ids)
  moreover have "ids_fresh ?s" using assms(1) by (simp only: ingress_inv_def ids_fresh_def same ev ball_simps kr kl ki) blast
  moreover have "letters_kept ?s = letters_kept s" "live_kept ?s = live_kept s" "sweep_kept ?s = sweep_kept s"
    "redrive_kept ?s = redrive_kept s"
    by (simp_all add: letters_kept_def live_kept_def sweep_kept_def redrive_kept_def sec kr kl same cong: option.case_cong)
  ultimately show ?thesis using assms(1) by (simp add: ingress_inv_def)
qed

text \<open>A step that takes nothing away from the queue, the plugin and the letters.\<close>

lemma growth:
  assumes "ingress_inv s" and "carried_keys s \<subseteq> carried_keys s'" and "open_letters s \<subseteq> open_letters s'"
    and "events s' = events s" "acked s' = acked s" "live s' = live s" "sweeping s' = sweeping s" "redrives s' = redrives s"
    and "ids_fresh s'" and "letters_kept s'"
    and "\<And>r. known_row s r \<Longrightarrow> known_row s' r" and "\<And>inst d. known_letter s inst d \<Longrightarrow> known_letter s' inst d"
  shows "ingress_inv s'"
proof -
  note m = secured_mono [OF assms(2,3)] assms(2)
  have h: "sweep_holds ph s k \<Longrightarrow> sweep_holds ph s' k" for ph k using m by (cases ph) auto
  have "rows_kept s'" "acks_kept s'" "live_kept s'"
    using assms(1,4-6) m unfolding ingress_inv_def rows_kept_def acks_kept_def live_kept_def by fastforce+
  moreover have "sweep_kept s'"
    using assms(1,7,11) h by (auto simp: ingress_inv_def sweep_kept_def split: option.splits)
  moreover have "redrive_kept s'"
    using assms(1,8,12) m unfolding ingress_inv_def redrive_kept_def by fastforce
  ultimately show ?thesis using assms(9,10) by (simp add: ingress_inv_def)
qed

lemma save_letter_fields [simp]:
  "carried_keys (save_letter d s) = carried_keys s" "events (save_letter d s) = events s" "acked (save_letter d s) = acked s"
  "live (save_letter d s) = live s" "sweeping (save_letter d s) = sweeping s" "redrives (save_letter d s) = redrives s"
  "failing (save_letter d s) = failing s" "queue (save_letter d s) = queue s" "delivered (save_letter d s) = delivered s"
  "next_id (save_letter d s) = Suc (next_id s)"
  by (simp_all add: save_letter_def carried_keys_def)

lemma dlq_save: "set (dlq (save_letter d s)) = insert (d\<lparr>dl_id := next_id s, dl_created := clock s\<rparr>) (set (dlq s))"
  by (simp add: save_letter_def)

lemma dl_key_update [simp]: "dl_key (d\<lparr>dl_id := n, dl_created := c\<rparr>) = dl_key d"
  by (simp add: dl_key_def)

lemma open_letters_save:
  assumes "dl_key d = Some k" and "\<not> dl_redriven d"
  shows "open_letters (save_letter d s) = insert (next_id s, k) (open_letters s)"
proof -
  have "dl_key (d\<lparr>dl_id := next_id s, dl_created := clock s\<rparr>) = Some k" using assms(1) by simp
  then show ?thesis using assms(2) unfolding open_letters_def dlq_save by force
qed

lemma save_letter_kept:
  assumes "ingress_inv s" and "dl_key d = Some k" and "\<not> dl_redriven d"
  shows "ingress_inv (save_letter d s)"
proof (rule growth [OF assms(1)])
  let ?s = "save_letter d s" and ?d = "d\<lparr>dl_id := next_id s, dl_created := clock s\<rparr>"
  have fresh: "ids_fresh s" and kept: "letters_kept s" using assms(1) by (auto simp: ingress_inv_def)
  then have old: "dl_id d' \<noteq> next_id s" if "d' \<in> set (dlq s)" for d'
    using that by (force simp: ids_fresh_def known_letter_def)
  show "open_letters s \<subseteq> open_letters ?s" using assms(2,3) by (auto simp: open_letters_save)
  then have sec: "secured_keys s \<subseteq> secured_keys ?s" by (intro secured_mono) simp_all
  show row: "known_row ?s r" if "known_row s r" for r using that by (simp add: known_row_def less_SucI)
  show letter: "known_letter ?s inst d'" if "known_letter s inst d'" for inst d'
    using that unfolding known_letter_def dlq_save by (simp add: less_SucI)
  have "known_letter ?s (dl_plugin ?d, dl_instance ?d) ?d"
    using old assms(2) unfolding known_letter_def dlq_save by auto
  then show "ids_fresh ?s" using fresh row letter unfolding ids_fresh_def dlq_save by simp
  show "letters_kept ?s" using kept sec assms(3) unfolding letters_kept_def dlq_save by fastforce
qed simp_all

text \<open>What enqueueing does.\<close>

lemma carried_update:
  "carried_keys (s\<lparr>queue := q\<rparr>) = (job_key \<circ> qj_data) ` set q \<union> job_key ` set (delivered s)"
  "carried_keys (s\<lparr>delivered := dv\<rparr>) = (job_key \<circ> qj_data) ` set (queue s) \<union> job_key ` set dv"
  by (simp_all add: carried_keys_def)

lemma queue_growth:
  assumes "ingress_inv s" and "carried_keys s \<subseteq> carried_keys (s\<lparr>queue := q, delivered := dv\<rparr>)"
  shows "ingress_inv (s\<lparr>queue := q, delivered := dv\<rparr>)"
proof (rule growth [OF assms(1)])
  have "secured_keys s \<subseteq> secured_keys (s\<lparr>queue := q, delivered := dv\<rparr>)"
    using assms(2) by (intro secured_mono) (simp_all add: open_letters_def)
  then show "letters_kept (s\<lparr>queue := q, delivered := dv\<rparr>)"
    using assms(1) unfolding ingress_inv_def letters_kept_def by fastforce
  have "known_row (s\<lparr>queue := q, delivered := dv\<rparr>) = known_row s" "known_letter (s\<lparr>queue := q, delivered := dv\<rparr>) = known_letter s"
    by (simp_all add: known_row_def [abs_def] known_letter_def [abs_def])
  then show "ids_fresh (s\<lparr>queue := q, delivered := dv\<rparr>)"
    using assms(1) by (simp add: ingress_inv_def ids_fresh_def)
qed (use assms(2) in \<open>simp_all add: open_letters_def known_row_def known_letter_def\<close>)

lemma enqueue_shape:
  assumes "enqueue cfg d i add answer s = (s', outcome)"
  shows "\<exists>q dv. s' = s\<lparr>queue := q, delivered := dv\<rparr>" and "carried_keys s \<subseteq> carried_keys s'"
    and "\<forall>e. outcome \<noteq> Enq_Failed e \<Longrightarrow> (add = Known_Id \<Longrightarrow> job_key d \<in> carried_keys s) \<Longrightarrow> job_key d \<in> carried_keys s'"
proof -
  consider (queued) j where "s' = s\<lparr>queue := queue s @ [j]\<rparr>" "qj_data j = d"
    | (taken) "s' = s\<lparr>delivered := delivered s @ [d]\<rparr>"
    | (known) "s' = s" "add = Known_Id" | (failed) e where "s' = s" "outcome = Enq_Failed e"
    using assms unfolding enqueue_def dispatch_inline_def
    by (auto split: if_splits add_answer.splits option.splits)
  note c = this
  show "\<exists>q dv. s' = s\<lparr>queue := q, delivered := dv\<rparr>"
  proof (cases rule: c)
    case queued
    then have "s' = s\<lparr>queue := queue s @ [j], delivered := delivered s\<rparr>" by simp
    then show ?thesis by blast
  next
    case taken
    then have "s' = s\<lparr>queue := queue s, delivered := delivered s @ [d]\<rparr>" by simp
    then show ?thesis by blast
  qed (metis ingress_state.surjective ingress_state.update_convs(3,4))+
  show "carried_keys s \<subseteq> carried_keys s'"
    by (cases rule: c) (auto simp: carried_update carried_keys_def)
  show "\<forall>e. outcome \<noteq> Enq_Failed e \<Longrightarrow> (add = Known_Id \<Longrightarrow> job_key d \<in> carried_keys s) \<Longrightarrow> job_key d \<in> carried_keys s'"
    by (cases rule: c) (auto simp: carried_update)
qed

lemma enqueue_kept:
  assumes "ingress_inv s" and "enqueue cfg d i add answer s = (s', outcome)"
  shows "ingress_inv s'" and "carried_keys s \<subseteq> carried_keys s'"
    and "events s' = events s" "live s' = live s" "sweeping s' = sweeping s" "redrives s' = redrives s" "next_id s' = next_id s"
    and "dlq s' = dlq s"
    and "(\<forall>e. outcome \<noteq> Enq_Failed e) \<Longrightarrow> (add = Known_Id \<Longrightarrow> job_key d \<in> carried_keys s) \<Longrightarrow> job_key d \<in> carried_keys s'"
proof -
  obtain q dv where eq: "s' = s\<lparr>queue := q, delivered := dv\<rparr>" using enqueue_shape(1) [OF assms(2)] by blast
  show grow: "carried_keys s \<subseteq> carried_keys s'" by (rule enqueue_shape(2) [OF assms(2)])
  then show "ingress_inv s'" using queue_growth [OF assms(1)] unfolding eq by blast
  show "events s' = events s" "live s' = live s" "sweeping s' = sweeping s" "redrives s' = redrives s" "next_id s' = next_id s"
    "dlq s' = dlq s" by (simp_all add: eq)
  show "(\<forall>e. outcome \<noteq> Enq_Failed e) \<Longrightarrow> (add = Known_Id \<Longrightarrow> job_key d \<in> carried_keys s) \<Longrightarrow> job_key d \<in> carried_keys s'"
    by (rule enqueue_shape(3) [OF assms(2)])
qed

text \<open>Changes of the letters that keep their identities.\<close>

lemma update_letters_kept:
  assumes "ingress_inv s"
    and f: "\<And>d. dl_id (f d) = dl_id d \<and> dl_key (f d) = dl_key d \<and> dl_plugin (f d) = dl_plugin d \<and> dl_instance (f d) = dl_instance d"
    and sec: "secured_keys s \<subseteq> secured_keys (update_letters P f s)"
    and heads: "\<And>inst g. (inst, g) \<in> set (redrives s) \<Longrightarrow> rd_rows g \<noteq> [] \<Longrightarrow> redrive_holds (rd_phase g) \<Longrightarrow>
        the (dl_key (hd (rd_rows g))) \<in> secured_without (dl_id (hd (rd_rows g))) s \<Longrightarrow>
        the (dl_key (hd (rd_rows g))) \<in> secured_without (dl_id (hd (rd_rows g))) (update_letters P f s)"
  shows "ingress_inv (update_letters P f s)"
proof -
  let ?s = "update_letters P f s"
  have dl: "set (dlq ?s) = (\<lambda>d. if P d then f d else d) ` set (dlq s)" by (simp add: update_letters_def)
  have same: "carried_keys ?s = carried_keys s" "events ?s = events s" "next_id ?s = next_id s"
    "live ?s = live s" "sweeping ?s = sweeping s" "redrives ?s = redrives s" "acked ?s = acked s"
    by (simp_all add: update_letters_def)
  have ids: "dl_id (if P d then f d else d) = dl_id d" "dl_key (if P d then f d else d) = dl_key d"
    "dl_plugin (if P d then f d else d) = dl_plugin d" "dl_instance (if P d then f d else d) = dl_instance d" for d
    using f by simp_all
  have kr: "known_row ?s r = known_row s r" for r by (simp add: known_row_def same)
  have kl: "known_letter ?s inst d = known_letter s inst d" for inst d
    by (simp only: known_letter_def dl same ball_simps ids)
  have ki: "known_letter s inst (if P d then f d else d) = known_letter s inst d" for inst d
    by (simp only: known_letter_def ids)
  have h: "sweep_holds ph s k \<Longrightarrow> sweep_holds ph ?s k" for ph k using sec by (cases ph) (auto simp: same)
  have "rows_kept ?s" "acks_kept ?s" "live_kept ?s"
    using assms(1) sec unfolding ingress_inv_def rows_kept_def acks_kept_def live_kept_def same by fastforce+
  moreover have "ids_fresh ?s"
    using assms(1) by (simp only: ingress_inv_def ids_fresh_def same dl ball_simps kr kl ki ids) blast
  moreover have "letters_kept ?s"
    unfolding letters_kept_def dl ball_simps ids
  proof (intro ballI impI)
    fix d assume d: "d \<in> set (dlq s)"
    then obtain k where k: "dl_key d = Some k"
      using assms(1) unfolding ingress_inv_def ids_fresh_def known_letter_def by blast
    have "k \<in> secured_keys s"
    proof (cases "dl_redriven d")
      case True
      then show ?thesis using assms(1) d k unfolding ingress_inv_def letters_kept_def by fastforce
    next
      case False
      then have "(dl_id d, k) \<in> open_letters s" using d k unfolding open_letters_def by blast
      then show ?thesis unfolding secured_keys_def by force
    qed
    then show "\<exists>k. dl_key d = Some k \<and> k \<in> secured_keys ?s" using k sec by blast
  qed
  moreover have "sweep_kept ?s"
    using assms(1) h by (auto simp: ingress_inv_def sweep_kept_def same kr split: option.splits)
  moreover have "redrive_kept ?s"
    using assms(1) heads unfolding ingress_inv_def redrive_kept_def same kl by fastforce
  ultimately show ?thesis by (simp add: ingress_inv_def)
qed

lemma open_letters_tags:
  "open_letters s = {(n, k). (n, False, Some k) \<in> (\<lambda>d. (dl_id d, dl_redriven d, dl_key d)) ` set (dlq s)}"
  unfolding open_letters_def by force

lemma update_letters_same:
  assumes "ingress_inv s"
    and f: "\<And>d. dl_id (f d) = dl_id d \<and> dl_key (f d) = dl_key d \<and> dl_plugin (f d) = dl_plugin d \<and> dl_instance (f d) = dl_instance d"
    and "\<And>d. dl_redriven (f d) = dl_redriven d"
  shows "ingress_inv (update_letters P f s)"
proof -
  have tag: "(dl_id (if P d then f d else d), dl_redriven (if P d then f d else d), dl_key (if P d then f d else d))
      = (dl_id d, dl_redriven d, dl_key d)" for d using assms(2,3) by simp
  have dl: "set (dlq (update_letters P f s)) = (\<lambda>d. if P d then f d else d) ` set (dlq s)" by (simp add: update_letters_def)
  have o: "open_letters (update_letters P f s) = open_letters s"
    unfolding open_letters_tags dl by (simp only: image_image tag)
  have c: "carried_keys (update_letters P f s) = carried_keys s" by (simp add: update_letters_def)
  note e = secured_cong [OF c o]
  show ?thesis by (rule update_letters_kept [OF assms(1) f]) (simp_all add: e)
qed

lemma open_letters_retire:
  "open_letters (update_letters P (\<lambda>d. d\<lparr>dl_redriven := True\<rparr>) s)
   = {(dl_id d, k) | d k. d \<in> set (dlq s) \<and> \<not> dl_redriven d \<and> \<not> P d \<and> dl_key d = Some k}"
  by (force simp: open_letters_def update_letters_def dl_key_def split: if_splits)

lemma retire_fields [simp]:
  "dl_id (d\<lparr>dl_redriven := b\<rparr>) = dl_id d" "dl_key (d\<lparr>dl_redriven := b\<rparr>) = dl_key d"
  "carried_keys (update_letters P f s) = carried_keys s"
  by (simp_all add: dl_key_def update_letters_def)

text \<open>The letters of a delivery are retired when the queue holds it or the plugin took it.\<close>

lemma retire_key_kept:
  assumes "ingress_inv s" and "k \<in> carried_keys s"
  shows "ingress_inv (update_letters (\<lambda>d. dl_key d = Some k \<and> \<not> dl_redriven d) (\<lambda>d. d\<lparr>dl_redriven := True\<rparr>) s)"
proof (rule update_letters_kept [OF assms(1)])
  let ?s = "update_letters (\<lambda>d. dl_key d = Some k \<and> \<not> dl_redriven d) (\<lambda>d. d\<lparr>dl_redriven := True\<rparr>) s"
  have o: "(m, k') \<in> open_letters ?s" if "(m, k') \<in> open_letters s" "k' \<noteq> k" for m k'
    using that unfolding open_letters_retire by (auto simp: open_letters_def)
  show "secured_keys s \<subseteq> secured_keys ?s"
    using assms(2) o unfolding secured_keys_def by force
  show "the (dl_key (hd (rd_rows g))) \<in> secured_without (dl_id (hd (rd_rows g))) ?s"
    if "the (dl_key (hd (rd_rows g))) \<in> secured_without (dl_id (hd (rd_rows g))) s" for g
  proof (rule secured_without_keep [OF that])
    fix m assume "(m, the (dl_key (hd (rd_rows g)))) \<in> open_letters s"
    then show "(m, the (dl_key (hd (rd_rows g)))) \<in> open_letters ?s \<or> the (dl_key (hd (rd_rows g))) \<in> carried_keys ?s"
      using o assms(2) by (cases "the (dl_key (hd (rd_rows g))) = k") (simp, blast)
  qed simp
qed simp_all

text \<open>One letter is retired by the flow that replayed it.\<close>

lemma retire_letter_kept:
  assumes "ingress_inv s" and "(inst, g) \<in> set (redrives s)" and "rd_rows g \<noteq> []" and "redrive_holds (rd_phase g)"
  shows "ingress_inv (update_letters (\<lambda>x. dl_id x = dl_id (hd (rd_rows g))) (\<lambda>x. x\<lparr>dl_redriven := True\<rparr>) s)"
proof (rule update_letters_kept [OF assms(1)])
  let ?d = "hd (rd_rows g)"
  let ?s = "update_letters (\<lambda>x. dl_id x = dl_id ?d) (\<lambda>x. x\<lparr>dl_redriven := True\<rparr>) s"
  have rk: "redrive_kept s" using assms(1) by (simp add: ingress_inv_def)
  then have kd: "known_letter s inst ?d" and wo: "the (dl_key ?d) \<in> secured_without (dl_id ?d) s"
    using assms(2-4) unfolding redrive_kept_def by fastforce+
  have o: "(m, k') \<in> open_letters ?s" if "(m, k') \<in> open_letters s" "m \<noteq> dl_id ?d" for m k'
    using that unfolding open_letters_retire by (auto simp: open_letters_def)
  have own: "k' = the (dl_key ?d)" if "(dl_id ?d, k') \<in> open_letters s" for k'
    using that kd unfolding open_letters_def known_letter_def by force
  show "secured_keys s \<subseteq> secured_keys ?s"
  proof
    fix k' assume "k' \<in> secured_keys s"
    then consider "k' \<in> carried_keys s" | m where "(m, k') \<in> open_letters s" by (auto simp: secured_keys_def)
    then show "k' \<in> secured_keys ?s"
    proof cases
      case (2 m)
      then have "k' \<in> secured_without (dl_id ?d) s"
        using wo own by (cases "m = dl_id ?d") (auto simp: secured_without_def)
      then have "k' \<in> secured_without (dl_id ?d) ?s" by (rule secured_without_keep) (use o in auto)
      then show ?thesis using secured_without_secured by blast
    qed (simp add: secured_keys_def)
  qed
  show "the (dl_key (hd (rd_rows h))) \<in> secured_without (dl_id (hd (rd_rows h))) ?s"
    if h: "(inst', h) \<in> set (redrives s)" "rd_rows h \<noteq> []" "redrive_holds (rd_phase h)"
      "the (dl_key (hd (rd_rows h))) \<in> secured_without (dl_id (hd (rd_rows h))) s" for inst' h
  proof (cases "inst' = inst")
    case True
    then have "h = g" using rk h(1) assms(2) unfolding redrive_kept_def by (metis jm_get_iff_in_set option.inject)
    show ?thesis unfolding \<open>h = g\<close> by (rule secured_without_keep [OF wo]) (use o in auto)
  next
    case False
    have "known_letter s inst' (hd (rd_rows h))" using rk h(1,2) unfolding redrive_kept_def by fastforce
    then have "the (dl_key (hd (rd_rows h))) \<noteq> the (dl_key ?d)"
      using kd False by (auto simp: known_letter_def dl_key_def)
    then show ?thesis by (intro secured_without_keep [OF h(4)]) (simp, metis o own)
  qed
qed simp_all

section \<open>Every honest step keeps the invariant\<close>

lemma clock_kept: "ingress_inv s \<Longrightarrow> ingress_inv (s\<lparr>clock := c\<rparr>)" "ingress_inv s \<Longrightarrow> ingress_inv (s\<lparr>failing := fl\<rparr>)"
  by (simp_all add: ingress_inv_def)

lemma receive_kept:
  assumes "ingress_inv s" shows "ingress_inv (receive H req ok s)"
proof (cases "handle H req")
  case (Inr a)
  let ?k = "job_key (ad_job a)"
  let ?r = "\<lparr>ev_id = next_id s, ev_plugin = jd_plugin (ad_job a), ev_instance = jd_instance (ad_job a),
    ev_delivery = jd_deliveryId (ad_job a), ev_route = jd_route (ad_job a), ev_payload = Some (jd_payload (ad_job a)),
    ev_payloadHash = ad_payloadHash a, ev_session = jd_sessionId (ad_job a), ev_state = Some Ev_Pending, ev_attempts = 0,
    ev_last = None, ev_created = clock s\<rparr>"
  have parts: "rows_kept s" "acks_kept s" "ids_fresh s" "letters_kept s" "live_kept s" "sweep_kept s" "redrive_kept s"
    using assms by (simp_all add: ingress_inv_def)
  show ?thesis
  proof (cases "?k \<in> ev_key ` set (events s)")
    case True
    then have "ingress_inv (s\<lparr>acked := ?k # acked s\<rparr>)"
      using parts by (simp add: ingress_inv_def acks_kept_def)
    then show ?thesis using assms Inr True by (simp add: receive_def recordOrSkip_def Let_def)
  next
    case False
    let ?s = "s\<lparr>events := events s @ [?r], next_id := Suc (next_id s), acked := ?k # acked s\<rparr>"
    have old: "ev_id r \<noteq> next_id s" if "r \<in> set (events s)" for r
      using parts(3) that by (force simp: ids_fresh_def known_row_def)
    have same: "carried_keys ?s = carried_keys s" "open_letters ?s = open_letters s" by simp_all
    note sec = secured_cong [OF same]
    have kr: "known_row ?s r" if "known_row s r" for r using that by (auto simp: known_row_def)
    have kn: "known_row ?s ?r" using old by (auto simp: known_row_def)
    have kl: "known_letter ?s inst d" if "known_letter s inst d" for inst d using that by (simp add: known_letter_def)
    have "rows_kept ?s" using parts(1) by (simp add: rows_kept_def sec)
    moreover have "acks_kept ?s" using parts(2) by (auto simp: acks_kept_def ev_key_def job_key_def)
    moreover have "ids_fresh ?s" using parts(3) kr kn kl by (simp add: ids_fresh_def)
    moreover have "letters_kept ?s" "live_kept ?s" using parts(4,5) by (simp_all add: letters_kept_def live_kept_def sec)
    moreover have "sweep_kept ?s" using parts(6) kr by (simp add: sweep_kept_def sec split: option.splits)
    moreover have "redrive_kept ?s" using parts(7) kl unfolding redrive_kept_def sec by fastforce
    ultimately have "ingress_inv ?s" by (simp add: ingress_inv_def)
    then have "ingress_inv (?s\<lparr>live := live s @ [(ad_job a, Lv_Enqueue)]\<rparr>)" by (rule set_live) auto
    then show ?thesis using assms Inr False by (simp add: receive_def recordOrSkip_def Let_def)
  qed
qed (simp add: receive_def assms)

lemma set_remove_nth: "set (remove_nth i xs) \<subseteq> set xs"
  unfolding remove_nth_def using set_take_subset [of i xs] set_drop_subset [of "Suc i" xs] by auto

lemma build_letter [simp]:
  "dl_key (buildIngressDeadLetterRow d e) = Some (job_key d)" "dl_key (buildIngressDeadLetterRow d e\<lparr>dl_attempts := n\<rparr>) = Some (job_key d)"
  "\<not> dl_redriven (buildIngressDeadLetterRow d e)" "\<not> dl_redriven (buildIngressDeadLetterRow d e\<lparr>dl_attempts := n\<rparr>)"
  by (simp_all add: buildIngressDeadLetterRow_def dl_key_def job_key_def)

lemma row_updates [simp]:
  "ev_key (r\<lparr>ev_state := x, ev_last := y, ev_payload := z\<rparr>) = ev_key r"
  "ev_key (r\<lparr>ev_attempts := n, ev_last := y, ev_state := x, ev_payload := z\<rparr>) = ev_key r"
  "ev_key (r\<lparr>ev_attempts := n, ev_last := y\<rparr>) = ev_key r"
  by (simp_all add: ev_key_def)

lemma mark_kept:
  assumes "ingress_inv s" and "(\<forall>e. outcome \<noteq> Enq_Failed e) \<Longrightarrow> k \<in> secured_keys s"
  shows "ingress_inv (markDispatchOutcome k outcome s)"
  using assms by (cases outcome) (auto simp: markDispatchOutcome_def intro!: update_events_kept)

lemma mark_fields [simp]:
  "live (markDispatchOutcome k outcome s) = live s" "carried_keys (markDispatchOutcome k outcome s) = carried_keys s"
  "open_letters (markDispatchOutcome k outcome s) = open_letters s"
  by (simp_all add: markDispatchOutcome_def update_events_def split: enqueue_outcome.split)

lemma live_step_kept:
  assumes "ingress_inv s" and "honest (Live i add answer ok) s"
  shows "ingress_inv (live_step cfg i add answer ok s)"
proof (cases "i < length (live s)")
  case True
  obtain d ph where f: "live s ! i = (d, ph)" by fastforce
  then have mem: "(d, ph) \<in> set (live s)" using True by (metis nth_mem)
  have holds: "live_holds ph \<Longrightarrow> job_key d \<in> secured_keys s"
    using assms(1) mem unfolding ingress_inv_def live_kept_def by fastforce
  have known: "add = Known_Id \<Longrightarrow> job_key d \<in> carried_keys s"
    using assms(2) True f by (simp add: honest_def offered_key_def)
  show ?thesis
  proof (cases ph)
    case Lv_Enqueue
    obtain s' outcome where e: "enqueue cfg d (jd_deliveryId d) add answer s = (s', outcome)" by fastforce
    note k = enqueue_kept [OF assms(1) e]
    have "ingress_inv (s'\<lparr>live := (live s)[i := (d, Lv_Mark outcome)]\<rparr>)"
    proof (rule set_live [OF k(1)])
      fix d' ph' assume "(d', ph') \<in> set ((live s)[i := (d, Lv_Mark outcome)])"
      then have "(d', ph') = (d, Lv_Mark outcome) \<or> (d', ph') \<in> set (live s)" using set_update_subset_insert by fast
      moreover have "job_key d \<in> secured_keys s'" if "live_holds (Lv_Mark outcome)"
        using that k(9) known carried_secured(1) by (cases outcome) auto
      ultimately show "(d', ph') \<in> set (live s') \<or> (live_holds ph' \<longrightarrow> job_key d' \<in> secured_keys s')" using k(4) by auto
    qed
    then show ?thesis using True f e Lv_Enqueue by (simp add: live_step_def)
  next
    case (Lv_Mark outcome)
    let ?s = "if ok then markDispatchOutcome (job_key d) outcome s else s"
    have "ingress_inv ?s"
      using holds Lv_Mark assms(1) by (cases outcome) (auto intro!: mark_kept)
    then have "ingress_inv (?s\<lparr>live := (case outcome of Enq_Failed e \<Rightarrow> (live s)[i := (d, Lv_Save e)] | _ \<Rightarrow> remove_nth i (live s))\<rparr>)"
      by (rule set_live) (use set_remove_nth [of i "live s"] set_update_subset_insert in \<open>fastforce split: enqueue_outcome.splits\<close>)
    then show ?thesis using True f Lv_Mark by (simp add: live_step_def)
  next
    case (Lv_Save e)
    have "ingress_inv (if ok then save_letter (buildIngressDeadLetterRow d e) s else s)"
      using save_letter_kept [OF assms(1) build_letter(1,3)] assms(1) by simp
    then have "ingress_inv ((if ok then save_letter (buildIngressDeadLetterRow d e) s else s)\<lparr>live := remove_nth i (live s)\<rparr>)"
      by (rule set_live) (use set_remove_nth [of i "live s"] in auto)
    then show ?thesis using True f Lv_Save by (simp add: live_step_def)
  qed
qed (simp add: live_step_def assms(1))

lemma sweep_begin_kept:
  assumes "ingress_inv s" shows "ingress_inv (sweep_begin cfg s)"
proof -
  have "set (sweep_rows cfg s) \<subseteq> set (events s)"
    unfolding sweep_rows_def by (auto dest: in_set_takeD)
  moreover have "\<forall>r \<in> set (events s). known_row s r" using assms by (simp add: ingress_inv_def ids_fresh_def)
  ultimately show ?thesis using assms
    by (auto simp: sweep_begin_def intro!: set_sweeping)
qed

lemma sweep_to_kept:
  assumes "ingress_inv s" and "\<forall>r \<in> set (sw_rows f). known_row s r" and "sweep_holds ph s (ev_key (hd (sw_rows f)))"
  shows "ingress_inv (sweep_to ph f s)"
  unfolding sweep_to_def by (rule set_sweeping [OF assms(1)]) (use assms(2,3) in auto)

lemma set_tl: "x \<in> set (tl xs) \<Longrightarrow> x \<in> set xs"
  by (cases xs) auto

lemma sweep_skip_kept:
  assumes "ingress_inv s" and "\<forall>r \<in> set (sw_rows f). known_row s r"
  shows "ingress_inv (sweep_skip f s)"
  unfolding sweep_skip_def by (rule set_sweeping [OF assms(1)]) (use assms(2) in \<open>auto dest: set_tl\<close>)

lemma update_events_fields [simp]:
  "carried_keys (update_events P f s) = carried_keys s" "open_letters (update_events P f s) = open_letters s"
  "sweeping (update_events P f s) = sweeping s" "redrives (update_events P f s) = redrives s" "dlq (update_events P f s) = dlq s"
  "next_id (update_events P f s) = next_id s"
  by (simp_all add: update_events_def)

lemma update_letters_fields [simp]:
  "events (update_letters P f s) = events s" "sweeping (update_letters P f s) = sweeping s"
  "redrives (update_letters P f s) = redrives s" "next_id (update_letters P f s) = next_id s"
  by (simp_all add: update_letters_def)

text \<open>The rows in a sweep stay known.\<close>

lemma known_rows:
  assumes "ingress_inv s'" and "sweeping s' = sweeping s" and "sweeping s = Some f"
  shows "\<forall>r \<in> set (sw_rows f). known_row s' r"
  using assms by (simp add: ingress_inv_def sweep_kept_def)

lemma sweep_skip_after:
  assumes "ingress_inv s" and "sweeping s = Some f"
  shows "ingress_inv (sweep_skip f s)"
  by (rule sweep_skip_kept [OF assms(1) known_rows [OF assms(1) refl assms(2)]])

lemma sweep_update_kept:
  assumes "ingress_inv s" and "sweeping s = Some f" and "sw_rows f = r # rs"
    and "\<And>x. ev_id (g x) = ev_id x \<and> ev_key (g x) = ev_key x"
    and "(\<forall>x. waiting x \<longrightarrow> waiting (g x)) \<or> ev_key r \<in> secured_keys s"
  shows "ingress_inv (update_events (\<lambda>x. ev_id x = ev_id r) g s)"
proof (rule update_events_kept [OF assms(1,4)])
  fix x assume x: "x \<in> set (events s)" "ev_id x = ev_id r"
  have "known_row s r" using known_rows [OF assms(1) refl assms(2)] assms(3) by simp
  then have "ev_key x = ev_key r" using x unfolding known_row_def by blast
  then show "(waiting x \<longrightarrow> waiting (g x)) \<or> ev_key x \<in> secured_keys s" using assms(5) by auto
qed

lemma sweep_replay_kept:
  assumes "ingress_inv s" and "sweeping s = Some f" and "sw_rows f = r # rs"
    and "add = Known_Id \<Longrightarrow> ev_key r \<in> carried_keys s"
  shows "ingress_inv (sweep_replay cfg usable add answer f r s)"
proof (cases "ev_payload r")
  case None
  then show ?thesis using sweep_skip_kept assms(1) known_rows [OF assms(1) refl assms(2)] by (simp add: sweep_replay_def)
next
  case (Some p)
  obtain s' outcome where e: "enqueue cfg (jobDataFor cfg r p) (ev_delivery r) add answer s = (s', outcome)" by fastforce
  note k = enqueue_kept [OF assms(1) e]
  have key: "job_key (jobDataFor cfg r p) = ev_key r" by (simp add: job_key_def jobDataFor_def ev_key_def)
  note rows = known_rows [OF assms(1) refl assms(2)] known_rows [OF k(1,5) assms(2)]
  have "ingress_inv (sweep_to Sw_Mark f s')" if "\<forall>e. outcome \<noteq> Enq_Failed e"
    using that k(9) key assms(3,4) rows by (intro sweep_to_kept [OF k(1)]) auto
  moreover have "ingress_inv (sweep_to ph f s')" if "ph = Sw_Ensure x n \<or> ph = Sw_Bump n" for ph x n
    using that rows by (intro sweep_to_kept [OF k(1)]) auto
  ultimately show ?thesis
    using e Some sweep_skip_kept [OF assms(1) rows(1)]
    by (cases outcome) (auto simp: sweep_replay_def Let_def)
qed

lemma sweep_step_kept:
  assumes "ingress_inv s" and "honest (Sweep ok add answer) s"
  shows "ingress_inv (sweep_step cfg ok add answer s)"
proof (cases "sweeping s")
  case f: (Some f)
  show ?thesis
  proof (cases "sw_rows f")
    case Nil
    then show ?thesis using set_sweeping [OF assms(1), of None] f by (simp add: sweep_step_def)
  next
    case rows: (Cons r rs)
    have known: "add = Known_Id \<Longrightarrow> ev_key r \<in> carried_keys s"
      using assms(2) f rows by (simp add: honest_def offered_key_def)
    have holds: "sweep_holds (sw_phase f) s (ev_key r)"
      using assms(1) f rows by (simp add: ingress_inv_def sweep_kept_def)
    note kn = known_rows [OF assms(1) refl f]
    note skip = sweep_skip_kept [OF assms(1) kn]
    note upd = sweep_update_kept [OF assms(1) f rows]
    have "ingress_inv (sweep_row cfg ok add answer f r s)"
    proof (cases "sw_phase f")
      case Sw_Next
      then show ?thesis using sweep_replay_kept [OF assms(1) f rows known] by (simp add: sweep_row_def)
    next
      case Sw_Mark
      let ?s = "update_events (\<lambda>x. ev_id x = ev_id r) (\<lambda>x. x\<lparr>ev_state := Some Ev_Dispatched, ev_last := Some (sw_now f), ev_payload := None\<rparr>) s"
      have c: "ev_key r \<in> carried_keys s" using holds Sw_Mark by simp
      then have "ingress_inv ?s" using carried_secured(1) by (intro upd) auto
      then have "ingress_inv (sweep_to Sw_Retire f ?s)"
        using known_rows [of ?s s f] f c rows by (intro sweep_to_kept) auto
      then show ?thesis using Sw_Mark skip by (simp add: sweep_row_def)
    next
      case Sw_Retire
      then have "ingress_inv (update_letters (\<lambda>d. dl_key d = Some (ev_key r) \<and> \<not> dl_redriven d) (\<lambda>d. d\<lparr>dl_redriven := True\<rparr>) s)"
        using holds retire_key_kept [OF assms(1)] by simp
      then show ?thesis using Sw_Retire skip sweep_skip_after f by (simp add: sweep_row_def)
    next
      case (Sw_Ensure e n)
      have "ev_key r \<in> secured_keys s" if "Some (ev_key r) \<in> dl_key ` set (dlq s)"
      proof -
        obtain d where d: "d \<in> set (dlq s)" "dl_key d = Some (ev_key r)" using \<open>Some _ \<in> _\<close> by auto
        show ?thesis
        proof (cases "dl_redriven d")
          case True
          then show ?thesis using assms(1) d unfolding ingress_inv_def letters_kept_def by fastforce
        next
          case False
          then have "(dl_id d, ev_key r) \<in> open_letters s" using d unfolding open_letters_def by force
          then show ?thesis unfolding secured_keys_def by force
        qed
      qed
      then show ?thesis using Sw_Ensure skip sweep_to_kept [OF assms(1) kn] rows by (simp add: sweep_row_def)
    next
      case (Sw_Save e n)
      let ?d = "buildIngressDeadLetterRow (jobDataFor cfg r (the (ev_payload r))) e\<lparr>dl_attempts := int n\<rparr>"
      have d: "dl_key ?d = Some (ev_key r)" "\<not> dl_redriven ?d"
        by (simp_all add: job_key_def jobDataFor_def ev_key_def)
      note inv = save_letter_kept [OF assms(1) d]
      have "ev_key r \<in> secured_keys (save_letter ?d s)"
        unfolding secured_keys_def open_letters_save [OF d] by force
      then have "ingress_inv (sweep_to (Sw_Fail n) f (save_letter ?d s))"
        using known_rows [OF inv _ f] rows by (intro sweep_to_kept [OF inv]) auto
      then show ?thesis using Sw_Save skip by (simp add: sweep_row_def)
    next
      case (Sw_Fail n)
      have "ingress_inv (update_events (\<lambda>x. ev_id x = ev_id r)
          (\<lambda>x. x\<lparr>ev_attempts := n, ev_last := Some (sw_now f), ev_state := Some Ev_Failed, ev_payload := None\<rparr>) s)"
        using holds Sw_Fail by (intro upd) auto
      then show ?thesis using Sw_Fail skip sweep_skip_after f by (simp add: sweep_row_def)
    next
      case (Sw_Bump n)
      have "ingress_inv (update_events (\<lambda>x. ev_id x = ev_id r) (\<lambda>x. x\<lparr>ev_attempts := n, ev_last := Some (sw_now f)\<rparr>) s)"
        by (intro upd) auto
      then show ?thesis using Sw_Bump skip sweep_skip_after f by (simp add: sweep_row_def)
    qed
    then show ?thesis using f rows by (simp add: sweep_step_def)
  qed
qed (simp add: sweep_step_def assms(1))

lemma redrive_begin_kept:
  assumes "ingress_inv s" shows "ingress_inv (redrive_begin p i session s)"
proof -
  have "known_letter s (p, i) d" if "d \<in> set (redrive_rows p i session s)" for d
  proof -
    have "d \<in> set (dlq s)" "dl_plugin d = p" "dl_instance d = i"
      using that unfolding redrive_rows_def by (auto dest: in_set_takeD)
    then show ?thesis using assms unfolding ingress_inv_def ids_fresh_def by blast
  qed
  then have "ingress_inv (redrive_to (p, i) \<lparr>rd_rows = redrive_rows p i session s, rd_phase = Rd_Next\<rparr> s)"
    by (intro set_redrive [OF assms]) auto
  then show ?thesis using assms by (simp add: redrive_begin_def redrive_to_def)
qed

lemma known_letters:
  assumes "ingress_inv s'" and "redrives s' = redrives s" and "(inst, g) \<in> set (redrives s)"
  shows "\<forall>d \<in> set (rd_rows g). known_letter s' inst d"
  using assms unfolding ingress_inv_def redrive_kept_def by fastforce

text \<open>The flow goes on with the next row, or with the next call for this one.\<close>

lemma redrive_next:
  assumes "ingress_inv s'" and "redrives s' = redrives s" and "(inst, g) \<in> set (redrives s)"
  shows "ingress_inv (redrive_to inst (g\<lparr>rd_rows := tl (rd_rows g), rd_phase := Rd_Next\<rparr>) s')"
  using known_letters [OF assms] by (intro set_redrive [OF assms(1)]) (auto dest: set_tl)

lemma redrive_phase:
  assumes "ingress_inv s'" and "redrives s' = redrives s" and "(inst, g) \<in> set (redrives s)"
    and "redrive_holds ph \<Longrightarrow> the (dl_key (hd (rd_rows g))) \<in> secured_without (dl_id (hd (rd_rows g))) s'"
  shows "ingress_inv (redrive_to inst (g\<lparr>rd_phase := ph\<rparr>) s')"
  using known_letters [OF assms(1-3)] assms(4) by (intro set_redrive [OF assms(1)]) auto

lemma redrive_step_kept:
  assumes "ingress_inv s" and "honest (Redrive inst ok add answer) s"
  shows "ingress_inv (redrive_step cfg inst ok add answer s)"
proof (cases "jm_get (redrives s) inst")
  case g: (Some g)
  show ?thesis
  proof (cases "rd_rows g")
    case Nil
    then show ?thesis using g end_redrive [OF assms(1)] by (simp add: redrive_step_def)
  next
    case rows: (Cons d ds)
    have mem: "(inst, g) \<in> set (redrives s)" using g by (rule jm_get_in_set)
    have kd: "known_letter s inst d" using known_letters [OF assms(1) refl mem] rows by simp
    then obtain k where k: "dl_key d = Some k" by (auto simp: known_letter_def)
    then have jk: "job_key (letter_job d) = k" by (auto simp: dl_key_def job_key_def letter_job_def)
    have known: "add = Known_Id \<Longrightarrow> k \<in> carried_keys s"
      using assms(2) g rows k by (simp add: honest_def offered_key_def)
    have holds: "redrive_holds (rd_phase g) \<Longrightarrow> k \<in> secured_without (dl_id d) s"
      using assms(1) mem rows k unfolding ingress_inv_def redrive_kept_def by fastforce
    note fin = end_redrive [OF assms(1), of inst]
    have "ingress_inv (redrive_row cfg inst ok add answer g d s)"
    proof (cases "rd_phase g")
      case Rd_Next
      obtain s' outcome where e: "enqueue cfg (letter_job d) (''redrive:'' @ show_nat (dl_id d)) add answer s = (s', outcome)"
        by fastforce
      note en = enqueue_kept [OF assms(1) e]
      have "ingress_inv (redrive_to inst (g\<lparr>rd_phase := ph\<rparr>) s')" if "\<forall>e. outcome \<noteq> Enq_Failed e" for ph
        using that en(9) jk known k rows carried_secured(2) by (intro redrive_phase [OF en(1,6) mem]) auto
      moreover have "ingress_inv (redrive_to inst (g\<lparr>rd_phase := Rd_Bump x\<rparr>) s')" for x
        by (intro redrive_phase [OF en(1,6) mem]) simp
      ultimately show ?thesis using e Rd_Next by (cases outcome) (simp_all add: redrive_row_def)
    next
      case Rd_Event
      let ?s = "update_events (\<lambda>x. Some (ev_key x) = dl_key d \<and> ev_state x = Some Ev_Pending)
          (\<lambda>x. x\<lparr>ev_state := Some Ev_Dispatched, ev_last := Some (clock s), ev_payload := None\<rparr>) s"
      have w: "k \<in> secured_without (dl_id d) s" using holds Rd_Event by simp
      then have "k \<in> secured_keys s" using secured_without_secured by blast
      then have inv: "ingress_inv ?s" using k by (intro update_events_kept [OF assms(1)]) auto
      have "secured_without (dl_id d) ?s = secured_without (dl_id d) s" by (rule secured_cong(2)) simp_all
      then have "ingress_inv (redrive_to inst (g\<lparr>rd_phase := Rd_Mark\<rparr>) ?s)"
        using w k rows by (intro redrive_phase [OF inv _ mem]) auto
      then show ?thesis using Rd_Event fin by (simp add: redrive_row_def)
    next
      case Rd_Mark
      have "ingress_inv (update_letters (\<lambda>x. dl_id x = dl_id d) (\<lambda>x. x\<lparr>dl_redriven := True\<rparr>) s)"
        using retire_letter_kept [OF assms(1) mem] rows Rd_Mark by simp
      from redrive_next [OF this _ mem] show ?thesis using Rd_Mark fin by (simp add: redrive_row_def)
    next
      case (Rd_Bump e)
      have "ingress_inv (update_letters (\<lambda>x. dl_id x = dl_id d) (\<lambda>x. x\<lparr>dl_attempts := max 0 (dl_attempts d) + 1, dl_error := e\<rparr>) s)"
        by (rule update_letters_same [OF assms(1)]) (simp_all add: dl_key_def)
      from redrive_next [OF this _ mem] show ?thesis using Rd_Bump fin by (simp add: redrive_row_def)
    qed
    then show ?thesis using g rows by (simp add: redrive_step_def)
  qed
qed (simp add: redrive_step_def assms(1))

lemma in_remove_nth: "x \<in> set xs \<Longrightarrow> i < length xs \<Longrightarrow> x = xs ! i \<or> x \<in> set (remove_nth i xs)"
  unfolding remove_nth_def by (subst (asm) (1) id_take_nth_drop [of i xs]) auto

lemma work_kept:
  assumes "ingress_inv s" shows "ingress_inv (work i answer s)"
proof (cases "i < length (queue s)")
  case True
  let ?j = "queue s ! i"
  have "ingress_inv (s\<lparr>queue := remove_nth i (queue s), delivered := delivered s @ [qj_data ?j]\<rparr>)"
    using in_remove_nth [OF _ True] by (intro queue_growth [OF assms]) (fastforce simp: carried_keys_def)
  moreover have "ingress_inv (s\<lparr>queue := (queue s)[i := ?j\<lparr>qj_made := n\<rparr>], delivered := delivered s\<rparr>)" for n
  proof (intro queue_growth [OF assms] subsetI)
    fix k assume "k \<in> carried_keys s"
    moreover have "map (job_key \<circ> qj_data) ((queue s)[i := ?j\<lparr>qj_made := n\<rparr>]) = map (job_key \<circ> qj_data) (queue s)"
      by (rule nth_equalityI) (use True in \<open>auto simp: nth_list_update\<close>)
    then have "(job_key \<circ> qj_data) ` set ((queue s)[i := ?j\<lparr>qj_made := n\<rparr>]) = (job_key \<circ> qj_data) ` set (queue s)"
      by (metis set_map)
    ultimately show "k \<in> carried_keys (s\<lparr>queue := (queue s)[i := ?j\<lparr>qj_made := n\<rparr>], delivered := delivered s\<rparr>)"
      by (simp add: carried_keys_def)
  qed
  ultimately show ?thesis using True clock_kept(2) [OF assms]
    by (cases answer) (auto simp: work_def Let_def)
qed (simp add: work_def assms)

text \<open>A job leaves the queue when the letter of its failure is written.\<close>

lemma hand_over_kept:
  assumes "ingress_inv s" and "carried_keys s \<subseteq> insert k (carried_keys (s\<lparr>queue := q\<rparr>))" and "(m, k) \<in> open_letters s"
    and "\<And>inst g. (inst, g) \<in> set (redrives s) \<Longrightarrow> rd_rows g \<noteq> [] \<Longrightarrow> dl_id (hd (rd_rows g)) \<noteq> m"
    and "being_booked s \<noteq> Some k"
  shows "ingress_inv (s\<lparr>queue := q\<rparr>)"
proof -
  let ?s = "s\<lparr>queue := q\<rparr>"
  have o: "open_letters ?s = open_letters s" by simp
  have km: "k \<in> snd ` open_letters s" using assms(3) by force
  have sec: "secured_keys s \<subseteq> secured_keys ?s" using assms(2) km unfolding secured_keys_def o by blast
  have wo: "secured_without n s \<subseteq> secured_without n ?s" if "n \<noteq> m" for n
  proof
    fix k' assume k': "k' \<in> secured_without n s"
    show "k' \<in> secured_without n ?s"
    proof (cases "k' = k")
      case True
      then show ?thesis using assms(3) that unfolding secured_without_def o by force
    next
      case False
      then show ?thesis using k' assms(2) unfolding secured_without_def o by force
    qed
  qed
  have kr: "known_row ?s = known_row s" "known_letter ?s = known_letter s"
    by (simp_all add: known_row_def [abs_def] known_letter_def [abs_def])
  have "acks_kept ?s" "ids_fresh ?s" using assms(1) by (simp_all add: ingress_inv_def acks_kept_def ids_fresh_def kr)
  moreover have "rows_kept ?s" "live_kept ?s"
    using assms(1) sec unfolding ingress_inv_def rows_kept_def live_kept_def by fastforce+
  moreover have "letters_kept ?s"
  proof -
    have "letters_kept s" using assms(1) by (simp add: ingress_inv_def)
    then show ?thesis using sec unfolding letters_kept_def by simp (meson subsetD)
  qed
  moreover have "sweep_kept ?s"
  proof (cases "sweeping s")
    case (Some f)
    have "sweep_holds (sw_phase f) ?s (ev_key (hd (sw_rows f)))" if "sw_rows f \<noteq> []"
    proof -
      have old: "sweep_holds (sw_phase f) s (ev_key (hd (sw_rows f)))"
        using assms(1) Some that by (simp add: ingress_inv_def sweep_kept_def)
      have "sw_phase f \<in> {Sw_Mark, Sw_Retire} \<Longrightarrow> ev_key (hd (sw_rows f)) \<noteq> k"
        using assms(5) Some that by (simp add: being_booked_def)
      then show ?thesis using old sec assms(2) by (cases "sw_phase f") auto
    qed
    then show ?thesis using assms(1) Some by (simp add: ingress_inv_def sweep_kept_def kr)
  qed (simp add: sweep_kept_def)
  moreover have "redrive_kept ?s"
    using assms(1,4) wo unfolding ingress_inv_def redrive_kept_def kr by fastforce
  ultimately show ?thesis by (simp add: ingress_inv_def)
qed

lemma set_remove1_insert: "set xs \<subseteq> insert x (set (remove1 x xs))"
  by (induction xs) auto

lemma work_save_kept:
  assumes "ingress_inv s" and "honest (Work_Save i ok) s"
  shows "ingress_inv (work_save i ok s)"
proof (cases "i < length (failing s)")
  case True
  obtain j e where f: "failing s ! i = (j, e)" by fastforce
  let ?d = "buildIngressDeadLetterRow (qj_data j) e\<lparr>dl_attempts := int (Suc (qj_made j))\<rparr>"
  let ?s = "save_letter ?d s"
  have ok: ok and nb: "being_booked s \<noteq> Some (job_key (qj_data j))"
    using assms(2) True f by (auto simp: honest_def)
  have d: "dl_key ?d = Some (job_key (qj_data j))" "\<not> dl_redriven ?d" by simp_all
  have "ingress_inv (?s\<lparr>queue := remove1 j (queue s)\<rparr>)"
  proof (rule hand_over_kept [OF save_letter_kept [OF assms(1) d]])
    show "(next_id s, job_key (qj_data j)) \<in> open_letters ?s" by (subst open_letters_save [OF d]) simp
    show "carried_keys ?s \<subseteq> insert (job_key (qj_data j)) (carried_keys (?s\<lparr>queue := remove1 j (queue s)\<rparr>))"
    proof -
      note set_remove1_insert [of "queue s" j]
      then show ?thesis unfolding carried_update by (simp add: carried_keys_def) blast
    qed
    show "dl_id (hd (rd_rows g)) \<noteq> next_id s" if "(inst, g) \<in> set (redrives ?s)" "rd_rows g \<noteq> []" for inst g
    proof -
      have "(inst, g) \<in> set (redrives s)" using that(1) by simp
      then have "known_letter s inst (hd (rd_rows g))" using that(2) known_letters [OF assms(1) refl] by simp
      then show ?thesis by (simp add: known_letter_def)
    qed
    show "being_booked ?s \<noteq> Some (job_key (qj_data j))" using nb by (simp add: being_booked_def)
  qed
  from clock_kept(2) [OF this] show ?thesis using True f ok by (simp add: work_save_def)
qed (simp add: work_save_def assms(1))

lemma crash_kept: "ingress_inv s \<Longrightarrow> ingress_inv (crash s)"
  unfolding crash_def ingress_inv_def
  by (simp add: live_kept_def sweep_kept_def redrive_kept_def)

theorem honest_step_kept:
  assumes "ingress_inv s" and "honest e s"
  shows "ingress_inv (ingress_exec cfg e s)"
  using assms receive_kept live_step_kept sweep_begin_kept sweep_step_kept redrive_begin_kept redrive_step_kept work_kept
    work_save_kept crash_kept clock_kept(1)
  by (cases e) (auto simp: honest_def [of "Prune _ _"])

lemma start_inv: "ingress_inv (ingress_start now)"
  by (simp add: ingress_inv_def ingress_start_def rows_kept_def acks_kept_def ids_fresh_def letters_kept_def live_kept_def
      sweep_kept_def redrive_kept_def)

lemma honest_run_inv: "ingress_inv s \<Longrightarrow> honest_run cfg es s \<Longrightarrow> ingress_inv (fold (ingress_exec cfg) es s)"
  by (induction es arbitrary: s) (auto intro: honest_step_kept)

section \<open>Theorems\<close>

text \<open>C3. Every delivery that was answered with the acknowledgement is somewhere: it waits in its row with
  its payload, the queue holds it, the plugin took it, or an open dead letter holds it. It survives
  crashes, failed writes of the live path, of the reconciler and of a replay, an unreachable queue, and
  every interleaving.\<close>

theorem acked_delivery_is_kept:
  assumes "honest_run cfg es (ingress_start now)" and "k \<in> set (acked (fold (ingress_exec cfg) es (ingress_start now)))"
  shows "(\<exists>r \<in> set (events (fold (ingress_exec cfg) es (ingress_start now))).
            ev_key r = k \<and> ev_state r = Some Ev_Pending \<and> ev_payload r \<noteq> None) \<or>
         (\<exists>j \<in> set (queue (fold (ingress_exec cfg) es (ingress_start now))). job_key (qj_data j) = k) \<or>
         (\<exists>d \<in> set (delivered (fold (ingress_exec cfg) es (ingress_start now))). job_key d = k) \<or>
         (\<exists>d \<in> set (dlq (fold (ingress_exec cfg) es (ingress_start now))). \<not> dl_redriven d \<and> dl_key d = Some k)"
proof -
  let ?s = "fold (ingress_exec cfg) es (ingress_start now)"
  have "ingress_inv ?s" by (rule honest_run_inv [OF start_inv assms(1)])
  then have "rows_kept ?s" and "acks_kept ?s" by (simp_all add: ingress_inv_def)
  then obtain r where r: "r \<in> set (events ?s)" "ev_key r = k" and "waiting r \<or> k \<in> secured_keys ?s"
    using assms(2) unfolding acks_kept_def rows_kept_def by blast
  then show ?thesis unfolding secured_keys_def carried_keys_def open_letters_def by auto
qed

section \<open>Witnesses\<close>

definition sample_config :: "bool \<Rightarrow> ingress_config" where
  "sample_config q = \<lparr>use_queue = q, job_attempts = 1, job_sha = (\<lambda>s. s), graceMs = 10, batchSize = 50, maxAttempts = 1,
     conversationOf = (\<lambda>p r b. None)\<rparr>"

definition sample_delivery :: "string \<Rightarrow> string \<Rightarrow> ingress_step" where
  "sample_delivery inst i = Request (sample_host NoScheme [] 0)
     ((sample_request [(''x-delivery'', i)] ''b'')\<lparr>rq_instance := inst\<rparr>) True"

text \<open>The delivery is queued, the process dies before the row is marked, the job fails for good, and the
  reconciler replays the row to a plugin that answers.\<close>

definition sample_run :: "ingress_step list" where
  "sample_run = [sample_delivery ''i'' ''evt'', Live 0 Added None True, Crash, Work 0 (Some ''down''), Work_Save 0 True, Tick 20,
     Sweep_Begin, Sweep True Add_Fails None, Sweep True Added None, Sweep True Added None]"

theorem acked_delivery_is_kept_witness:
  "(''p'', ''i'', ''evt'') \<in> set (acked (fold (ingress_exec (sample_config True)) sample_run (ingress_start 0))) \<and>
   \<not> (\<exists>j \<in> set (queue (fold (ingress_exec (sample_config True)) sample_run (ingress_start 0))). job_key (qj_data j) = (''p'', ''i'', ''evt'')) \<and>
   ((\<exists>r \<in> set (events (fold (ingress_exec (sample_config True)) sample_run (ingress_start 0))).
       ev_key r = (''p'', ''i'', ''evt'') \<and> ev_state r = Some Ev_Pending \<and> ev_payload r \<noteq> None) \<or>
    (\<exists>d \<in> set (delivered (fold (ingress_exec (sample_config True)) sample_run (ingress_start 0))). job_key d = (''p'', ''i'', ''evt'')) \<or>
    (\<exists>d \<in> set (dlq (fold (ingress_exec (sample_config True)) sample_run (ingress_start 0))). \<not> dl_redriven d \<and> dl_key d = Some (''p'', ''i'', ''evt'')))"
proof -
  have a: "(''p'', ''i'', ''evt'') \<in> set (acked (fold (ingress_exec (sample_config True)) sample_run (ingress_start 0)))" by code_simp
  have q: "\<not> (\<exists>j \<in> set (queue (fold (ingress_exec (sample_config True)) sample_run (ingress_start 0))). job_key (qj_data j) = (''p'', ''i'', ''evt''))"
    by code_simp
  have "honest_run (sample_config True) sample_run (ingress_start 0)" by code_simp
  from acked_delivery_is_kept [OF this a] a q show ?thesis by blast
qed

end
