(* ===== verification/Ingress_Losses.thy ===== *)
theory Ingress_Losses
  imports Ingress_Safety "HOL-Library.Multiset"
begin

text \<open>
  Where the ingress pipeline loses an acknowledged delivery. Each run breaks one clause of
  \<open>honest\<close> and no more, in a way that BullMQ and the retention allow: the queue keeps failed jobs for a
  day and knows their ids (the options of the queue in src/src/modules/queue/queue.module.ts).
\<close>

definition gone :: "ingress_state \<Rightarrow> ingress_key \<Rightarrow> bool" where
  "gone s k \<longleftrightarrow>
     k \<in> set (acked s) \<and> (\<forall>r \<in> set (events s). ev_key r = k \<longrightarrow> ev_payload r = None) \<and>
     (\<forall>j \<in> set (queue s). job_key (qj_data j) \<noteq> k) \<and> (\<forall>d \<in> set (delivered s). job_key d \<noteq> k) \<and>
     (\<forall>d \<in> set (dlq s). dl_key d = Some k \<longrightarrow> dl_redriven d)"

abbreviation after_run :: "ingress_step list \<Rightarrow> ingress_state" where
  "after_run es \<equiv> fold (ingress_exec (sample_config True)) es (ingress_start 0)"

text \<open>A process dies between the enqueueing of a job and the marking of its row, and the job fails for
  good.\<close>

definition forgotten_failure :: "ingress_step list" where
  "forgotten_failure = [sample_delivery ''i'' ''evt'', Live 0 Added None True, Crash, Work 0 (Some ''down''), Work_Save 0 True, Tick 20]"


text \<open>A replay that the queue takes and that fails for good while the reconciler is still writing: the
  retirement of the dead letters, which comes last, takes the one of this failure.\<close>

theorem booking_retires_a_new_letter:
  "gone (after_run [sample_delivery ''i'' ''evt'', Crash, Tick 20, Sweep_Begin, Sweep True Added None, Work 0 (Some ''down''),
           Work_Save 0 True, Sweep True Added None, Sweep True Added None]) (''p'', ''i'', ''evt'')"
  by code_simp

text \<open>Two instances of a provider that numbers its deliveries per account: the job of the second has the
  id of the first, the queue drops it, and its row is marked.\<close>

theorem shared_job_id_loses_a_delivery:
  "(let s = after_run [sample_delivery ''i'' ''evt'', Live 0 Added None True, Live 0 Added None True, sample_delivery ''j'' ''evt'',
           Live 0 Known_Id None True, Live 0 Known_Id None True, Work 0 None]
    in gone s (''p'', ''j'', ''evt'') \<and> delivered s \<noteq> [] \<and>
       sanitizeIngressJobId (job_sha (sample_config True)) ''evt'' (job_namespace (sample_job ''i'' ''evt'')) =
       sanitizeIngressJobId (job_sha (sample_config True)) ''evt'' (job_namespace (sample_job ''j'' ''evt'')))"
  by code_simp

text \<open>The retention of the rows is shorter than that of the dead letters: a delivery id that comes again
  (a repeated body) is acknowledged as new, and the letter of the first delivery, already replayed,
  keeps the reconciler from writing one for the second.\<close>

definition old_letter :: "ingress_step list" where
  "old_letter = [sample_delivery ''i'' ''evt'', Live 0 Add_Fails (Some ''down'') True, Live 0 Added None True, Live 0 Added None True,
     Redrive_Begin ''p'' ''i'' None, Redrive (''p'', ''i'') True Add_Fails None, Redrive (''p'', ''i'') True Added None,
     Redrive (''p'', ''i'') True Added None, Redrive (''p'', ''i'') True Added None, Tick 20, Prune 20 None]"

theorem old_letter_hides_a_new_delivery:
  "(let s = after_run (old_letter @ [sample_delivery ''i'' ''evt'', Live 0 Add_Fails (Some ''down'') True, Crash, Tick 20, Sweep_Begin,
           Sweep True Add_Fails (Some ''down''), Sweep True Added None, Sweep True Added None])
    in length (acked s) = 2 \<and> length (delivered s) = 1 \<and> queue s = [] \<and>
       list_all (\<lambda>r. ev_state r = Some Ev_Failed \<and> ev_payload r = None) (events s) \<and> list_all dl_redriven (dlq s))"
  by code_simp

section \<open>Rows that are never replayed\<close>

text \<open>A sweep takes the oldest stale rows, and a row of a disabled or deleted instance is passed over
  without an attempt being counted. Enough of them keep every younger row out of the batch until the
  retention deletes them.\<close>

lemma filter_below_sorted:
  "sorted (map f ys) \<Longrightarrow> filter (\<lambda>x. f x < (c :: int)) ys = takeWhile (\<lambda>x. f x < c) ys"
proof (induction ys)
  case (Cons y ys)
  then show ?case by (cases ys) (auto simp: filter_empty_conv not_less intro: order_trans)
qed simp

lemma length_filter_weaker: "(\<And>x. P x \<Longrightarrow> Q x) \<Longrightarrow> length (filter P xs) \<le> length (filter Q xs)"
  by (induction xs) (auto intro: le_SucI)

lemma take_sorted_below:
  assumes "n \<le> length (filter (\<lambda>x. f x < c) xs)" and "y \<in> set (take n (sort_key f xs))"
  shows "f y < (c :: int)"
proof -
  let ?t = "takeWhile (\<lambda>x. f x < c) (sort_key f xs)"
  have t: "filter (\<lambda>x. f x < c) (sort_key f xs) = ?t" by (rule filter_below_sorted) simp
  have "length (filter (\<lambda>x. f x < c) (sort_key f xs)) = length (filter (\<lambda>x. f x < c) xs)"
    by (metis mset_filter mset_sort size_mset)
  then have "n \<le> length ?t" using assms(1) t by simp
  then have "take n (sort_key f xs) = take n ?t"
    by (metis append_Nil2 diff_is_0_eq take0 take_append takeWhile_dropWhile_id)
  then show ?thesis using assms(2) by (metis in_set_takeD set_takeWhileD)
qed

text \<open>Steps of the sweep and of the clock on which the instances of the rows older than \<open>c\<close> are disabled.\<close>

fun passed_over :: "ingress_config \<Rightarrow> millis \<Rightarrow> ingress_step \<Rightarrow> ingress_state \<Rightarrow> bool" where
  "passed_over cfg c (Tick n) s = True"
| "passed_over cfg c Sweep_Begin s = True"
| "passed_over cfg c (Sweep ok add answer) s =
     (case sweeping s of Some f \<Rightarrow> (case sw_rows f of r # _ \<Rightarrow> ev_created r < c \<longrightarrow> \<not> ok | [] \<Rightarrow> True) | None \<Rightarrow> True)"
| "passed_over cfg c _ s = False"

fun passed_over_run :: "ingress_config \<Rightarrow> millis \<Rightarrow> ingress_step list \<Rightarrow> ingress_state \<Rightarrow> bool" where
  "passed_over_run cfg c [] s = True"
| "passed_over_run cfg c (e # es) s = (passed_over cfg c e s \<and> passed_over_run cfg c es (ingress_exec cfg e s))"

definition blocked :: "ingress_config \<Rightarrow> millis \<Rightarrow> ingress_state \<Rightarrow> bool" where
  "blocked cfg c s \<longleftrightarrow>
     batchSize cfg \<le> length (filter (\<lambda>r. ev_created r < c \<and> stale_row cfg (clock s) r) (events s)) \<and>
     (\<forall>f. sweeping s = Some f \<longrightarrow> sw_phase f = Sw_Next \<and> (\<forall>r \<in> set (sw_rows f). ev_created r < c))"

lemma blocked_step:
  assumes "blocked cfg c s" and "passed_over cfg c e s"
  shows "blocked cfg c (ingress_exec cfg e s) \<and> events (ingress_exec cfg e s) = events s \<and>
         queue (ingress_exec cfg e s) = queue s \<and> delivered (ingress_exec cfg e s) = delivered s"
proof (cases e)
  case (Tick n)
  have "length (filter (\<lambda>r. ev_created r < c \<and> stale_row cfg (clock s) r) (events s))
      \<le> length (filter (\<lambda>r. ev_created r < c \<and> stale_row cfg (clock s + int n) r) (events s))"
    by (rule length_filter_weaker) (auto simp: stale_row_def)
  then show ?thesis using assms(1) Tick unfolding blocked_def by simp
next
  case Sweep_Begin
  have "ev_created r < c" if "r \<in> set (sweep_rows cfg s)" for r
  proof (rule take_sorted_below [of "batchSize cfg" ev_created c "filter (stale_row cfg (clock s)) (events s)" r])
    show "r \<in> set (take (batchSize cfg) (sort_key ev_created (filter (stale_row cfg (clock s)) (events s))))"
      using that by (simp add: sweep_rows_def)
    show "batchSize cfg \<le> length (filter (\<lambda>r. ev_created r < c) (filter (stale_row cfg (clock s)) (events s)))"
      using assms(1) by (simp add: blocked_def conj_commute)
  qed
  then show ?thesis using assms(1) Sweep_Begin by (auto simp: sweep_begin_def blocked_def)
next
  case (Sweep ok add answer)
  show ?thesis
  proof (cases "sweeping s")
    case f: (Some f)
    then have n: "sw_phase f = Sw_Next" "\<forall>r \<in> set (sw_rows f). ev_created r < c" using assms(1) by (auto simp: blocked_def)
    show ?thesis
    proof (cases "sw_rows f")
      case Nil
      then show ?thesis using assms(1) Sweep f by (simp add: sweep_step_def blocked_def)
    next
      case (Cons r rs)
      then have "\<not> ok" using assms(2) Sweep f n(2) by simp
      then have "sweep_step cfg ok add answer s = sweep_skip f s"
        using f Cons n(1) by (simp add: sweep_step_def sweep_row_def sweep_replay_def split: option.split)
      then show ?thesis using assms(1) Sweep n(2) Cons by (simp add: sweep_skip_def blocked_def)
    qed
  qed (use assms(1) Sweep in \<open>simp add: sweep_step_def\<close>)
qed (use assms(2) in auto)

text \<open>C40. If enough stale rows are older than \<open>c\<close> and their instances are disabled, then no run of the sweep
  and of the clock replays anything: every row, the queue and the deliveries stay as they are.\<close>

theorem ineligible_rows_starve_the_sweep:
  assumes "batchSize cfg \<le> length (filter (\<lambda>r. ev_created r < c \<and> stale_row cfg (clock s) r) (events s))"
    and "sweeping s = None" and "passed_over_run cfg c es s"
  shows "events (fold (ingress_exec cfg) es s) = events s \<and> queue (fold (ingress_exec cfg) es s) = queue s \<and>
         delivered (fold (ingress_exec cfg) es s) = delivered s"
proof -
  have "blocked cfg c s \<Longrightarrow> passed_over_run cfg c es s \<Longrightarrow> events (fold (ingress_exec cfg) es s) = events s \<and>
      queue (fold (ingress_exec cfg) es s) = queue s \<and> delivered (fold (ingress_exec cfg) es s) = delivered s"
  proof (induction es arbitrary: s)
    case (Cons e es)
    then show ?case using blocked_step [of cfg c s e] Cons.IH [of "ingress_exec cfg e s"] by auto
  qed simp
  then show ?thesis using assms by (simp add: blocked_def)
qed

section \<open>Witnesses\<close>

definition crowded :: ingress_state where
  "crowded = (ingress_start 100)\<lparr>events :=
     map (\<lambda>n. \<lparr>ev_id = n, ev_plugin = ''p'', ev_instance = ''off'', ev_delivery = show_nat n, ev_route = ''r'',
        ev_payload = Some \<lparr>ip_headers = [], ip_query = [], ip_body = [], ip_rawBody = []\<rparr>, ev_payloadHash = [],
        ev_session = None, ev_state = Some Ev_Pending, ev_attempts = 0, ev_last = None, ev_created = int n\<rparr>) [0, 1, 2]\<rparr>"

theorem ineligible_rows_starve_the_sweep_witness:
  "delivered (fold (ingress_exec (sample_config False\<lparr>batchSize := 2\<rparr>))
     [Sweep_Begin, Sweep False Added None, Sweep False Added None, Sweep True Added None, Tick 60, Sweep_Begin] crowded) = []"
proof -
  have "batchSize (sample_config False\<lparr>batchSize := 2\<rparr>)
      \<le> length (filter (\<lambda>r. ev_created r < 2 \<and> stale_row (sample_config False\<lparr>batchSize := 2\<rparr>) (clock crowded) r) (events crowded))"
    and "passed_over_run (sample_config False\<lparr>batchSize := 2\<rparr>) 2
      [Sweep_Begin, Sweep False Added None, Sweep False Added None, Sweep True Added None, Tick 60, Sweep_Begin] crowded"
    and "sweeping crowded = None" and "delivered crowded = []"
    by code_simp+
  then show ?thesis using ineligible_rows_starve_the_sweep by metis
qed

end
