(* ===== verification/Spec2Isabelle.thy ===== *)
theory Spec2Isabelle
  imports Body_Budget Ownership Send_Pacing Api_Keys Reconciler Ssrf_Fetch Messages Session_Stop Session_Races Idempotency Ingress_Losses
begin

text \<open>
  OpenWA: a gateway that exposes WhatsApp sessions over an HTTP API. This development models the
  parts of the gateway (src/src) that carry its own logic and proves what makes them correct.
\<close>

end
